(* ===== verification/Gwn_Prelude.thy ===== *)
theory Gwn_Prelude
  imports Main "HOL-Library.Word"
begin

text \<open>
  Shared vocabulary of the development: the machine integers of the code, the string
  functions of the C and C++ libraries that several components use (on \<open>string\<close>, a list
  of bytes, as \<open>std::string\<close> is), decimal printing as \<open>operator<<\<close> does it, the
  collections of rewrite rules the components add to, and generic lemmas on lists.
\<close>

named_theorems gwn_str \<comment> \<open>evaluation of the string helpers\<close>
named_theorems gwn_unfold \<comment> \<open>definitions of small operations, unfolded together\<close>

type_synonym u32 = "32 word"
type_synonym u64 = "64 word"

section \<open>Library functions on strings\<close>

definition isalpha :: "char \<Rightarrow> bool" where
  "isalpha c \<longleftrightarrow> (let n = (of_char c :: nat) in (65 \<le> n \<and> n \<le> 90) \<or> (97 \<le> n \<and> n \<le> 122))"

definition tolower :: "char \<Rightarrow> char" where
  "tolower c = (let n = (of_char c :: nat) in if 65 \<le> n \<and> n \<le> 90 then char_of (n + 32) else c)"

definition substr :: "string \<Rightarrow> nat \<Rightarrow> nat \<Rightarrow> string" where
  "substr s pos n = take n (drop pos s)"

definition substr_from :: "string \<Rightarrow> nat \<Rightarrow> string" where
  "substr_from s pos = drop pos s"

text \<open>\<open>find_first_not_of(chars) == npos\<close>: no character outside \<open>chars\<close>.\<close>

definition all_in :: "string \<Rightarrow> string \<Rightarrow> bool" where
  "all_in chars s \<longleftrightarrow> list_all (\<lambda>c. c \<in> set chars) s"

text \<open>The newline and the tabulator that \<open>std::endl\<close> and the literal \<open>"\t"\<close> write.\<close>

definition newline :: char where
  "newline = char_of (10 :: nat)"

definition tabulator :: char where
  "tabulator = char_of (9 :: nat)"

lemma isalpha_special [simp, gwn_str]:
  "\<not> isalpha CHR ''{''" "\<not> isalpha CHR ''}''" "\<not> isalpha CHR ''%''"
  by (simp_all add: isalpha_def)

lemma isalphaD [dest]: "isalpha c \<Longrightarrow> c \<noteq> CHR ''%'' \<and> c \<noteq> CHR ''{'' \<and> c \<noteq> CHR ''}''"
  by auto

lemma tolower_id: "\<not> (65 \<le> (of_char c :: nat) \<and> (of_char c :: nat) \<le> 90) \<Longrightarrow> tolower c = c"
  unfolding tolower_def Let_def by (rule if_not_P)

lemma all_in_append [simp]: "all_in cs (s @ t) \<longleftrightarrow> all_in cs s \<and> all_in cs t"
  by (simp add: all_in_def)

lemma all_in_Nil [simp]: "all_in cs []"
  by (simp add: all_in_def)

lemma all_in_Cons [simp]: "all_in cs (c # s) \<longleftrightarrow> c \<in> set cs \<and> all_in cs s"
  by (simp add: all_in_def)

lemma substr_middle [simp]:
  "substr (pre @ mid @ post) (length pre) (length mid) = mid"
  by (simp add: substr_def)

section \<open>Decimal output\<close>

fun dec_nat :: "nat \<Rightarrow> string" where
  "dec_nat n = (if n < 10 then [char_of (48 + n)]
                else dec_nat (n div 10) @ [char_of (48 + n mod 10)])"

declare dec_nat.simps [simp del]

definition dec_int :: "int \<Rightarrow> string" where
  "dec_int i = (if i < 0 then CHR ''-'' # dec_nat (nat (- i)) else dec_nat (nat i))"

definition dec_u32 :: "u32 \<Rightarrow> string" where
  "dec_u32 w = dec_nat (unat w)"

text \<open>\<open>int32_t\<close> is printed as the two's complement value.\<close>

definition dec_i32 :: "u32 \<Rightarrow> string" where
  "dec_i32 w = dec_int (sint w)"

text \<open>Reading a decimal number back, to state that printing loses nothing.\<close>

definition dec_value :: "string \<Rightarrow> nat" where
  "dec_value s = foldl (\<lambda>a c. 10 * a + (of_char c - 48)) 0 s"

lemma dec_value_dec_nat [simp]: "dec_value (dec_nat n) = n"
proof (induction n rule: dec_nat.induct)
  case (1 n)
  show ?case
  proof (cases "n < 10")
    case True
    then show ?thesis by (simp add: dec_nat.simps [of n] dec_value_def of_char_of)
  next
    case False
    with "1.IH" have "dec_value (dec_nat (n div 10)) = n div 10" by simp
    moreover have "n mod 10 < 10" by simp
    then have "48 + n mod 10 < (256::nat)" by linarith
    ultimately show ?thesis
      using False by (simp add: dec_nat.simps [of n] dec_value_def of_char_of)
  qed
qed

lemma dec_nat_inject [simp]: "dec_nat m = dec_nat n \<longleftrightarrow> m = n"
  by (metis dec_value_dec_nat)

section \<open>Lists indexed from a position\<close>

lemma nth_at_length [simp]: "(pre @ c # post) ! length pre = c"
  by (rule nth_append_length)

lemma nth_after_length [simp]: "(pre @ a # b # post) ! Suc (length pre) = b"
  using nth_append_length [of "pre @ [a]" b post] by simp

lemma nth_after_after_length [simp]: "(pre @ a # b # c # post) ! Suc (Suc (length pre)) = c"
  using nth_append_length [of "pre @ [a, b]" c post] by simp

text \<open>Updating a list by index, read back at any position inside it.\<close>

lemma nth_update: "j < length xs \<Longrightarrow> xs[i := v] ! j = (if i = j then v else xs ! j)"
  by simp

lemma less_length_split:
  assumes "n < length p"
  obtains pre c post where "p = pre @ c # post" "length pre = n"
  using assms by (metis id_take_nth_drop length_take min.absorb4)

section \<open>Sums over a list\<close>

definition total_of :: "('a \<Rightarrow> nat) \<Rightarrow> 'a list \<Rightarrow> nat" where
  "total_of f pcs = sum_list (map f pcs)"

lemma total_of_update:
  "i < length pcs \<Longrightarrow> total_of f (pcs[i := pc]) + f (pcs ! i) = total_of f pcs + f pc"
proof (induction pcs arbitrary: i)
  case (Cons p pcs)
  then show ?case by (cases i) (auto simp: total_of_def)
qed simp

end
