(* ===== verification/Locks.thy ===== *)
theory Locks
  imports Gwn_Prelude "HOL-Library.Multiset"
begin

text \<open>
  Semaphore, mutexes and scoped guards (gwn/mutex.h, gwn/mutex.cc) over the POSIX objects they
  wrap. A call returns the new state, waits (it is not enabled in this state), throws, or is
  outside what POSIX defines. The wrappers drop the return codes of pthread, so a lock that
  fails with an error returns with the lock unchanged.
\<close>

datatype 'a call = Returns 'a | Waits | Throws string | Undefined

fun bind_call :: "'a call \<Rightarrow> ('a \<Rightarrow> 'b call) \<Rightarrow> 'b call" where
  "bind_call (Returns x) f = f x"
| "bind_call Waits f = Waits"
| "bind_call (Throws e) f = Throws e"
| "bind_call Undefined f = Undefined"

lemma bind_call_Returns: "bind_call c f = Returns y \<longleftrightarrow> (\<exists>x. c = Returns x \<and> f x = Returns y)"
  by (cases c) simp_all

type_synonym tid = int

section \<open>Semaphore\<close>

text \<open>
  \<open>sem_init\<close> fails above \<open>SEM_VALUE_MAX\<close>, \<open>sem_post\<close> at it, \<open>sem_wait\<close> when a signal handler
  interrupts the wait.
\<close>

type_synonym semaphore = u32

definition SEM_VALUE_MAX :: u32 where
  "SEM_VALUE_MAX = 2147483647"

definition Semaphore :: "u32 \<Rightarrow> semaphore call" where
  "Semaphore cnt = (if SEM_VALUE_MAX < cnt then Throws ''sem_init error'' else Returns cnt)"

definition Semaphore_wait :: "bool \<Rightarrow> semaphore \<Rightarrow> semaphore call" where
  "Semaphore_wait interrupted s =
     (if s = 0 then (if interrupted then Throws ''sem_wait error'' else Waits) else Returns (s - 1))"

definition Semaphore_notify :: "semaphore \<Rightarrow> semaphore call" where
  "Semaphore_notify s = (if s = SEM_VALUE_MAX then Throws ''sem_wait error'' else Returns (s + 1))"

section \<open>Mutex, Spinlock, RWMutex\<close>

text \<open>
  A plain pthread mutex or spin lock is its holder. Locking it twice from one thread waits for
  ever; unlocking what one does not hold is undefined.
\<close>

type_synonym mutex = "tid option"

definition Mutex_lock :: "tid \<Rightarrow> mutex \<Rightarrow> mutex call" where
  "Mutex_lock t m = (if m = None then Returns (Some t) else Waits)"

definition Mutex_unlock :: "tid \<Rightarrow> mutex \<Rightarrow> mutex call" where
  "Mutex_unlock t m = (if m = Some t then Returns None else Undefined)"

type_synonym spinlock = "tid option"

definition Spinlock_lock :: "tid \<Rightarrow> spinlock \<Rightarrow> spinlock call" where
  "Spinlock_lock t m = (if m = None then Returns (Some t) else Waits)"

definition Spinlock_unlock :: "tid \<Rightarrow> spinlock \<Rightarrow> spinlock call" where
  "Spinlock_unlock t m = (if m = Some t then Returns None else Undefined)"

text \<open>
  A read-write lock keeps one entry per read lock held, and the writer. A thread that already
  holds the write lock gets \<open>EDEADLK\<close> from both lock functions, which the wrappers drop.
\<close>

record rwmutex =
  rw_readers :: "tid list"
  rw_writer :: "tid option"

definition RWMutex :: rwmutex where
  "RWMutex = \<lparr>rw_readers = [], rw_writer = None\<rparr>"

definition RWMutex_rdlock :: "tid \<Rightarrow> rwmutex \<Rightarrow> rwmutex call" where
  "RWMutex_rdlock t l =
     (if rw_writer l = Some t then Returns l
      else if rw_writer l = None then Returns (l\<lparr>rw_readers := t # rw_readers l\<rparr>)
      else Waits)"

definition RWMutex_wrlock :: "tid \<Rightarrow> rwmutex \<Rightarrow> rwmutex call" where
  "RWMutex_wrlock t l =
     (if rw_writer l = Some t then Returns l
      else if rw_writer l = None \<and> rw_readers l = [] then Returns (l\<lparr>rw_writer := Some t\<rparr>)
      else Waits)"

definition RWMutex_unlock :: "tid \<Rightarrow> rwmutex \<Rightarrow> rwmutex call" where
  "RWMutex_unlock t l =
     (if rw_writer l = Some t then Returns (l\<lparr>rw_writer := None\<rparr>)
      else if t \<in> set (rw_readers l) then Returns (l\<lparr>rw_readers := remove1 t (rw_readers l)\<rparr>)
      else Undefined)"

section \<open>Guards\<close>

text \<open>
  A guard is the flag \<open>m_locked\<close> beside the lock it refers to; the lock and unlock functions of
  the template argument, already applied to the calling thread, are arguments. The three
  templates differ in the function that takes the lock.
\<close>

definition ScopedLock :: "('m \<Rightarrow> 'm call) \<Rightarrow> 'm \<Rightarrow> ('m \<times> bool) call" where
  "ScopedLock lock m = bind_call (lock m) (\<lambda>m'. Returns (m', True))"

definition ScopedLock_lock :: "('m \<Rightarrow> 'm call) \<Rightarrow> 'm \<times> bool \<Rightarrow> ('m \<times> bool) call" where
  "ScopedLock_lock lock g =
     (case g of (m, m_locked) \<Rightarrow>
        if \<not> m_locked then bind_call (lock m) (\<lambda>m'. Returns (m', True)) else Returns (m, m_locked))"

definition ScopedLock_unlock :: "('m \<Rightarrow> 'm call) \<Rightarrow> 'm \<times> bool \<Rightarrow> ('m \<times> bool) call" where
  "ScopedLock_unlock unlock g =
     (case g of (m, m_locked) \<Rightarrow>
        if m_locked then bind_call (unlock m) (\<lambda>m'. Returns (m', False)) else Returns (m, m_locked))"

definition ScopedLock_destroy :: "('m \<Rightarrow> 'm call) \<Rightarrow> 'm \<times> bool \<Rightarrow> 'm call" where
  "ScopedLock_destroy unlock g = bind_call (ScopedLock_unlock unlock g) (\<lambda>(m, _). Returns m)"

definition ReadScopedLock :: "tid \<Rightarrow> rwmutex \<Rightarrow> (rwmutex \<times> bool) call" where
  "ReadScopedLock t m = bind_call (RWMutex_rdlock t m) (\<lambda>m'. Returns (m', True))"

definition ReadScopedLock_lock :: "tid \<Rightarrow> rwmutex \<times> bool \<Rightarrow> (rwmutex \<times> bool) call" where
  "ReadScopedLock_lock t g =
     (case g of (m, m_locked) \<Rightarrow>
        if \<not> m_locked then bind_call (RWMutex_rdlock t m) (\<lambda>m'. Returns (m', True)) else Returns (m, m_locked))"

definition ReadScopedLock_unlock :: "tid \<Rightarrow> rwmutex \<times> bool \<Rightarrow> (rwmutex \<times> bool) call" where
  "ReadScopedLock_unlock t g =
     (case g of (m, m_locked) \<Rightarrow>
        if m_locked then bind_call (RWMutex_unlock t m) (\<lambda>m'. Returns (m', False)) else Returns (m, m_locked))"

definition ReadScopedLock_destroy :: "tid \<Rightarrow> rwmutex \<times> bool \<Rightarrow> rwmutex call" where
  "ReadScopedLock_destroy t g = bind_call (ReadScopedLock_unlock t g) (\<lambda>(m, _). Returns m)"

definition WriteScopedLock :: "tid \<Rightarrow> rwmutex \<Rightarrow> (rwmutex \<times> bool) call" where
  "WriteScopedLock t m = bind_call (RWMutex_wrlock t m) (\<lambda>m'. Returns (m', True))"

definition WriteScopedLock_lock :: "tid \<Rightarrow> rwmutex \<times> bool \<Rightarrow> (rwmutex \<times> bool) call" where
  "WriteScopedLock_lock t g =
     (case g of (m, m_locked) \<Rightarrow>
        if \<not> m_locked then bind_call (RWMutex_wrlock t m) (\<lambda>m'. Returns (m', True)) else Returns (m, m_locked))"

definition WriteScopedLock_unlock :: "tid \<Rightarrow> rwmutex \<times> bool \<Rightarrow> (rwmutex \<times> bool) call" where
  "WriteScopedLock_unlock t g =
     (case g of (m, m_locked) \<Rightarrow>
        if m_locked then bind_call (RWMutex_unlock t m) (\<lambda>m'. Returns (m', False)) else Returns (m, m_locked))"

definition WriteScopedLock_destroy :: "tid \<Rightarrow> rwmutex \<times> bool \<Rightarrow> rwmutex call" where
  "WriteScopedLock_destroy t g = bind_call (WriteScopedLock_unlock t g) (\<lambda>(m, _). Returns m)"

section \<open>Threads with guards on one lock\<close>

text \<open>
  The live guards of all threads on one lock. The calls of a guard are those of its class, for
  the mode and the thread it belongs to.
\<close>

datatype mode = Shared | Exclusive

record guard =
  gd_owner :: tid
  gd_mode :: mode
  gd_locked :: bool

record 'm guard_class =
  gc_new :: "mode \<Rightarrow> tid \<Rightarrow> 'm \<Rightarrow> ('m \<times> bool) call"
  gc_lock :: "mode \<Rightarrow> tid \<Rightarrow> 'm \<times> bool \<Rightarrow> ('m \<times> bool) call"
  gc_unlock :: "mode \<Rightarrow> tid \<Rightarrow> 'm \<times> bool \<Rightarrow> ('m \<times> bool) call"
  gc_destroy :: "mode \<Rightarrow> tid \<Rightarrow> 'm \<times> bool \<Rightarrow> 'm call"

definition mutex_guards :: "mutex guard_class" where
  "mutex_guards = \<lparr>gc_new = (\<lambda>k t. ScopedLock (Mutex_lock t)),
     gc_lock = (\<lambda>k t. ScopedLock_lock (Mutex_lock t)),
     gc_unlock = (\<lambda>k t. ScopedLock_unlock (Mutex_unlock t)),
     gc_destroy = (\<lambda>k t. ScopedLock_destroy (Mutex_unlock t))\<rparr>"

definition spinlock_guards :: "spinlock guard_class" where
  "spinlock_guards = \<lparr>gc_new = (\<lambda>k t. ScopedLock (Spinlock_lock t)),
     gc_lock = (\<lambda>k t. ScopedLock_lock (Spinlock_lock t)),
     gc_unlock = (\<lambda>k t. ScopedLock_unlock (Spinlock_unlock t)),
     gc_destroy = (\<lambda>k t. ScopedLock_destroy (Spinlock_unlock t))\<rparr>"

definition rw_guards :: "rwmutex guard_class" where
  "rw_guards =
     \<lparr>gc_new = (\<lambda>k. case k of Shared \<Rightarrow> ReadScopedLock | Exclusive \<Rightarrow> WriteScopedLock),
      gc_lock = (\<lambda>k. case k of Shared \<Rightarrow> ReadScopedLock_lock | Exclusive \<Rightarrow> WriteScopedLock_lock),
      gc_unlock = (\<lambda>k. case k of Shared \<Rightarrow> ReadScopedLock_unlock | Exclusive \<Rightarrow> WriteScopedLock_unlock),
      gc_destroy = (\<lambda>k. case k of Shared \<Rightarrow> ReadScopedLock_destroy | Exclusive \<Rightarrow> WriteScopedLock_destroy)\<rparr>"

text \<open>
  A thread that holds an exclusive guard must not take another: on a mutex it would wait for
  ever, on a read-write lock the error is dropped. \<open>free_for\<close> says that it does not.
\<close>

definition free_for :: "tid \<Rightarrow> guard list \<Rightarrow> bool" where
  "free_for t gs \<longleftrightarrow> (\<forall>g \<in> set gs. gd_owner g = t \<and> gd_locked g \<longrightarrow> gd_mode g = Shared)"

inductive guard_step :: "'m guard_class \<Rightarrow> 'm \<times> guard list \<Rightarrow> 'm \<times> guard list \<Rightarrow> bool"
  for cls where
  construct: "free_for t gs \<Longrightarrow> gc_new cls k t m = Returns (m', b) \<Longrightarrow>
    guard_step cls (m, gs) (m', gs @ [\<lparr>gd_owner = t, gd_mode = k, gd_locked = b\<rparr>])"
| lock: "i < length gs \<Longrightarrow> free_for (gd_owner (gs ! i)) gs \<Longrightarrow>
    gc_lock cls (gd_mode (gs ! i)) (gd_owner (gs ! i)) (m, gd_locked (gs ! i)) = Returns (m', b) \<Longrightarrow>
    guard_step cls (m, gs) (m', gs[i := (gs ! i)\<lparr>gd_locked := b\<rparr>])"
| unlock: "i < length gs \<Longrightarrow>
    gc_unlock cls (gd_mode (gs ! i)) (gd_owner (gs ! i)) (m, gd_locked (gs ! i)) = Returns (m', b) \<Longrightarrow>
    guard_step cls (m, gs) (m', gs[i := (gs ! i)\<lparr>gd_locked := b\<rparr>])"
| destroy: "i < length gs \<Longrightarrow>
    gc_destroy cls (gd_mode (gs ! i)) (gd_owner (gs ! i)) (m, gd_locked (gs ! i)) = Returns m' \<Longrightarrow>
    guard_step cls (m, gs) (m', take i gs @ drop (Suc i) gs)"

inductive guard_reach :: "'m guard_class \<Rightarrow> 'm \<Rightarrow> 'm \<times> guard list \<Rightarrow> bool"
  for cls m0 where
  start: "guard_reach cls m0 (m0, [])"
| step: "guard_reach cls m0 s \<Longrightarrow> guard_step cls s s' \<Longrightarrow> guard_reach cls m0 s'"

end
