(* ===== verification/Lock_Facts.thy ===== *)
theory Lock_Facts
  imports Locks
begin

text \<open>
  What the locks promise to their guards, as an interface: which locks a lock object says are
  held, how the calls of a guard change that, and that a writer is alone. Its client is the
  system of threads with guards; \<open>Mutex\<close>, \<open>Spinlock\<close> and \<open>RWMutex\<close> provide it. The properties
  are mutual exclusion, the balance of the guards, and what the dropped error codes allow. The
  last section bounds the semaphore.
\<close>

lemmas guard_defs = ScopedLock_def ScopedLock_lock_def ScopedLock_unlock_def ScopedLock_destroy_def
  ReadScopedLock_def ReadScopedLock_lock_def ReadScopedLock_unlock_def ReadScopedLock_destroy_def
  WriteScopedLock_def WriteScopedLock_lock_def WriteScopedLock_unlock_def WriteScopedLock_destroy_def

text \<open>The locks that the guards believe to hold.\<close>

definition locked_guards :: "guard list \<Rightarrow> (tid \<times> mode) multiset" where
  "locked_guards gs = image_mset (\<lambda>g. (gd_owner g, gd_mode g)) (filter_mset gd_locked (mset gs))"

lemma locked_guards_simps [simp]:
  "locked_guards [] = {#}"
  "locked_guards (g # gs) =
     (if gd_locked g then add_mset (gd_owner g, gd_mode g) (locked_guards gs) else locked_guards gs)"
  "locked_guards (gs @ hs) = locked_guards gs + locked_guards hs"
  by (simp_all add: locked_guards_def)

lemma locked_guards_in: "g \<in> set gs \<Longrightarrow> gd_locked g \<Longrightarrow> (gd_owner g, gd_mode g) \<in># locked_guards gs"
  by (auto simp: locked_guards_def)

lemma free_for_none: "free_for t gs \<Longrightarrow> (t, Exclusive) \<notin># locked_guards gs"
  by (auto simp: free_for_def locked_guards_def)

text \<open>One guard taken out of the list: what is left, with or without it.\<close>

lemma guard_split:
  assumes "i < length gs"
  obtains R where
    "locked_guards gs = (if gd_locked (gs ! i) then add_mset (gd_owner (gs ! i), gd_mode (gs ! i)) R else R)"
    and "\<And>v. locked_guards (gs[i := v]) = (if gd_locked v then add_mset (gd_owner v, gd_mode v) R else R)"
    and "locked_guards (take i gs) + locked_guards (drop (Suc i) gs) = R"
    and "\<And>j. j < length gs \<Longrightarrow> j \<noteq> i \<Longrightarrow> gd_locked (gs ! j) \<Longrightarrow> (gd_owner (gs ! j), gd_mode (gs ! j)) \<in># R"
proof -
  obtain pre g post where gs: "gs = pre @ g # post" "length pre = i" by (rule less_length_split [OF assms])
  have split: "gs ! i = g" "gs[i := v] = pre @ v # post" "take i gs = pre" "drop (Suc i) gs = post" for v
    using gs(2) by (auto simp: gs(1))
  have other: "gs ! j \<in> set pre \<union> set post" if "j < length gs" "j \<noteq> i" for j
  proof (cases "j < i")
    case True
    then show ?thesis using gs by (simp add: nth_append)
  next
    case False
    with that gs have "gs ! j = post ! (j - Suc i)" "j - Suc i < length post"
      by (auto simp: nth_append nth_Cons')
    then show ?thesis by simp
  qed
  show thesis
  proof (rule that [of "locked_guards pre + locked_guards post"])
    show "locked_guards gs = (if gd_locked (gs ! i)
        then add_mset (gd_owner (gs ! i), gd_mode (gs ! i)) (locked_guards pre + locked_guards post)
        else locked_guards pre + locked_guards post)"
      unfolding split(1) by (simp add: gs(1))
    show "(gd_owner (gs ! j), gd_mode (gs ! j)) \<in># locked_guards pre + locked_guards post"
      if "j < length gs" "j \<noteq> i" "gd_locked (gs ! j)" for j
      using other [OF that(1,2)] that(3) by (auto dest: locked_guards_in)
  qed (simp_all add: split)
qed

section \<open>The interface\<close>

locale guard_contract =
  fixes cls :: "'m guard_class"
    and holds :: "'m \<Rightarrow> (tid \<times> mode) multiset \<Rightarrow> bool"
  assumes new: "holds m H \<Longrightarrow> (t, Exclusive) \<notin># H \<Longrightarrow> gc_new cls k t m = Returns (m', b) \<Longrightarrow>
      b \<and> holds m' (add_mset (t, k) H)"
    and lock_held: "gc_lock cls k t (m, True) = Returns (m, True)"
    and lock_free: "gc_lock cls k t (m, False) = gc_new cls k t m"
    and unlock_held: "holds m H \<Longrightarrow> (t, k) \<in># H \<Longrightarrow>
      \<exists>m'. gc_unlock cls k t (m, True) = Returns (m', False) \<and> holds m' (H - {#(t, k)#})"
    and unlock_free: "gc_unlock cls k t (m, False) = Returns (m, False)"
    and destroy_eq: "gc_destroy cls k t g = bind_call (gc_unlock cls k t g) (\<lambda>(m, _). Returns m)"
    and alone: "holds m H \<Longrightarrow> (t, Exclusive) \<in># H \<Longrightarrow> H = {#(t, Exclusive)#}"
begin

lemma unlock_returns:
  assumes "holds m (locked_guards gs)" and "i < length gs"
  obtains m' where "gc_unlock cls (gd_mode (gs ! i)) (gd_owner (gs ! i)) (m, gd_locked (gs ! i)) = Returns (m', False)"
    and "holds m' (locked_guards (gs[i := (gs ! i)\<lparr>gd_locked := False\<rparr>]))"
    and "holds m' (locked_guards (take i gs @ drop (Suc i) gs))"
proof -
  obtain R where R: "locked_guards gs =
      (if gd_locked (gs ! i) then add_mset (gd_owner (gs ! i), gd_mode (gs ! i)) R else R)"
    "\<And>v. locked_guards (gs[i := v]) = (if gd_locked v then add_mset (gd_owner v, gd_mode v) R else R)"
    "locked_guards (take i gs) + locked_guards (drop (Suc i) gs) = R"
    by (rule guard_split [OF assms(2)]) blast
  show thesis
  proof (cases "gd_locked (gs ! i)")
    case True
    with R(1) have "(gd_owner (gs ! i), gd_mode (gs ! i)) \<in># locked_guards gs" by simp
    from unlock_held [OF assms(1) this] show thesis
      using True R that by auto
  next
    case False
    with R(1) assms(1) show thesis by (intro that [of m]) (simp_all add: unlock_free R(2,3))
  qed
qed

lemma step_holds:
  assumes "guard_step cls (m, gs) (m', gs')" and "holds m (locked_guards gs)"
  shows "holds m' (locked_guards gs')"
  using assms(1)
proof (cases rule: guard_step.cases)
  case (construct t k b)
  then show ?thesis using new [OF assms(2) free_for_none [OF construct(2)] construct(3)] by simp
next
  case (lock i b)
  obtain R where R: "locked_guards gs =
      (if gd_locked (gs ! i) then add_mset (gd_owner (gs ! i), gd_mode (gs ! i)) R else R)"
    "\<And>v. locked_guards (gs[i := v]) = (if gd_locked v then add_mset (gd_owner v, gd_mode v) R else R)"
    by (rule guard_split [OF lock(2)]) blast
  show ?thesis
  proof (cases "gd_locked (gs ! i)")
    case True
    then show ?thesis using lock(1,4) assms(2) by (simp add: R lock_held)
  next
    case False
    with lock(4) have "gc_new cls (gd_mode (gs ! i)) (gd_owner (gs ! i)) m = Returns (m', b)"
      by (simp add: lock_free)
    from new [OF assms(2) free_for_none [OF lock(3)] this] show ?thesis
      using lock(1) False by (simp add: R)
  qed
next
  case (unlock i b)
  obtain n where n: "gc_unlock cls (gd_mode (gs ! i)) (gd_owner (gs ! i)) (m, gd_locked (gs ! i)) = Returns (n, False)"
    "holds n (locked_guards (gs[i := (gs ! i)\<lparr>gd_locked := False\<rparr>]))"
    by (rule unlock_returns [OF assms(2) unlock(2)])
  with unlock(1,3) show ?thesis by simp
next
  case (destroy i)
  obtain n where n: "gc_unlock cls (gd_mode (gs ! i)) (gd_owner (gs ! i)) (m, gd_locked (gs ! i)) = Returns (n, False)"
    "holds n (locked_guards (take i gs @ drop (Suc i) gs))"
    by (rule unlock_returns [OF assms(2) destroy(2)])
  with destroy(1,3) show ?thesis by (simp add: destroy_eq)
qed

lemma reach_holds: "guard_reach cls m0 s \<Longrightarrow> holds m0 {#} \<Longrightarrow> holds (fst s) (locked_guards (snd s))"
proof (induction rule: guard_reach.induct)
  case (step s s')
  then show ?case using step_holds [of "fst s" "snd s" "fst s'" "snd s'"] by simp
qed simp

text \<open>A locked writer is the only locked guard.\<close>

lemma writer_alone:
  assumes "holds m (locked_guards gs)" and "i < length gs" and "j < length gs"
    and "gd_locked (gs ! i)" and "gd_mode (gs ! i) = Exclusive" and "gd_locked (gs ! j)"
  shows "j = i"
proof -
  obtain R where R: "locked_guards gs = add_mset (gd_owner (gs ! i), Exclusive) R"
    "\<And>j. j < length gs \<Longrightarrow> j \<noteq> i \<Longrightarrow> gd_locked (gs ! j) \<Longrightarrow> (gd_owner (gs ! j), gd_mode (gs ! j)) \<in># R"
    using guard_split [OF assms(2)] assms(4,5) by metis
  from alone [OF assms(1), of "gd_owner (gs ! i)"] R(1) have "R = {#}" by simp
  with R(2) [OF assms(3) _ assms(6)] show ?thesis by auto
qed

lemma destroy_held:
  assumes "holds m H" and "(t, k) \<in># H"
  obtains m' where "gc_destroy cls k t (m, True) = Returns m'" and "holds m' (H - {#(t, k)#})"
  using unlock_held [OF assms] destroy_eq by (metis bind_call.simps(1) case_prod_conv)

end

text \<open>A lock that has one mode only.\<close>

locale exclusive_contract = guard_contract +
  assumes single: "holds m H \<Longrightarrow> size H \<le> 1"
begin

lemma one_locked:
  assumes "holds m (locked_guards gs)"
    and "i < length gs" and "j < length gs" and "gd_locked (gs ! i)" and "gd_locked (gs ! j)"
  shows "j = i"
proof -
  obtain R where R: "locked_guards gs = add_mset (gd_owner (gs ! i), gd_mode (gs ! i)) R"
    "\<And>j. j < length gs \<Longrightarrow> j \<noteq> i \<Longrightarrow> gd_locked (gs ! j) \<Longrightarrow> (gd_owner (gs ! j), gd_mode (gs ! j)) \<in># R"
    using guard_split [OF assms(2)] assms(4) by metis
  from single [OF assms(1)] R(1) have "R = {#}" by simp
  with R(2) [OF assms(3) _ assms(5)] show ?thesis by auto
qed

end

section \<open>The providers\<close>

definition mutex_holds :: "tid option \<Rightarrow> (tid \<times> mode) multiset \<Rightarrow> bool" where
  "mutex_holds m H \<longleftrightarrow> (case m of None \<Rightarrow> H = {#} | Some t \<Rightarrow> \<exists>k. H = {#(t, k)#})"

interpretation mutex: exclusive_contract mutex_guards mutex_holds
proof unfold_locales
  show "mutex_holds m H \<Longrightarrow> size H \<le> 1" for m H by (auto simp: mutex_holds_def split: option.splits)
qed (auto simp: mutex_guards_def guard_defs mutex_holds_def Mutex_lock_def Mutex_unlock_def
       bind_call_Returns split: option.splits if_splits)

interpretation spinlock: exclusive_contract spinlock_guards mutex_holds
proof unfold_locales
  show "mutex_holds m H \<Longrightarrow> size H \<le> 1" for m H by (auto simp: mutex_holds_def split: option.splits)
qed (auto simp: spinlock_guards_def guard_defs mutex_holds_def Spinlock_lock_def Spinlock_unlock_def
       bind_call_Returns split: option.splits if_splits)

definition rw_holds :: "rwmutex \<Rightarrow> (tid \<times> mode) multiset \<Rightarrow> bool" where
  "rw_holds l H \<longleftrightarrow> (case rw_writer l of
       None \<Rightarrow> H = mset (map (\<lambda>t. (t, Shared)) (rw_readers l))
     | Some t \<Rightarrow> rw_readers l = [] \<and> H = {#(t, Exclusive)#})"

lemma map_remove1_Shared: "t \<in> set ts \<Longrightarrow>
  mset (map (\<lambda>t. (t, Shared)) (remove1 t ts)) = mset (map (\<lambda>t. (t, Shared)) ts) - {#(t, Shared)#}"
  by (induction ts) auto

interpretation rw: guard_contract rw_guards rw_holds
proof unfold_locales
  fix m H t k m' b
  assume H: "rw_holds m H" "(t, Exclusive) \<notin># H" and new: "gc_new rw_guards k t m = Returns (m', b)"
  then have "rw_writer m \<noteq> Some t" by (auto simp: rw_holds_def)
  with H new show "b \<and> rw_holds m' (add_mset (t, k) H)"
    by (cases k) (auto simp: rw_guards_def guard_defs rw_holds_def RWMutex_rdlock_def RWMutex_wrlock_def
        bind_call_Returns split: if_splits)
next
  fix m H t k
  assume H: "rw_holds m H" "(t, k) \<in># H"
  show "\<exists>m'. gc_unlock rw_guards k t (m, True) = Returns (m', False) \<and> rw_holds m' (H - {#(t, k)#})"
  proof (cases "rw_writer m")
    case None
    with H have "k = Shared" "t \<in> set (rw_readers m)" by (auto simp: rw_holds_def)
    with H None show ?thesis
      by (auto simp: rw_guards_def guard_defs rw_holds_def RWMutex_unlock_def map_remove1_Shared simp del: mset_map)
  next
    case (Some u)
    with H show ?thesis by (auto simp: rw_guards_def guard_defs rw_holds_def RWMutex_unlock_def)
  qed
qed (auto simp: rw_guards_def guard_defs rw_holds_def split: mode.splits option.splits)

section \<open>Mutual exclusion and balance\<close>

definition one_guard :: "tid \<Rightarrow> mode \<Rightarrow> guard list" where
  "one_guard t k = [\<lparr>gd_owner = t, gd_mode = k, gd_locked = True\<rparr>]"

lemma mutex_demo: "guard_reach mutex_guards None (Some t, one_guard t k)"
proof -
  have "guard_step mutex_guards (None, []) (Some t, [] @ one_guard t k)"
    unfolding one_guard_def
    by (rule guard_step.construct) (simp_all add: free_for_def mutex_guards_def ScopedLock_def Mutex_lock_def)
  from guard_reach.step [OF guard_reach.start this] show ?thesis by simp
qed

lemma rw_demo: "guard_reach rw_guards RWMutex (RWMutex\<lparr>rw_writer := Some t\<rparr>, one_guard t Exclusive)"
proof -
  have "guard_step rw_guards (RWMutex, []) (RWMutex\<lparr>rw_writer := Some t\<rparr>, [] @ one_guard t Exclusive)"
    unfolding one_guard_def
    by (rule guard_step.construct)
       (simp_all add: free_for_def rw_guards_def WriteScopedLock_def RWMutex_wrlock_def RWMutex_def)
  from guard_reach.step [OF guard_reach.start this] show ?thesis by simp
qed

lemma mutex_reach_holds: "guard_reach mutex_guards None (m, gs) \<Longrightarrow> mutex_holds m (locked_guards gs)"
  using mutex.reach_holds [of None "(m, gs)"] by (simp add: mutex_holds_def)

lemma rw_reach_holds: "guard_reach rw_guards RWMutex (l, gs) \<Longrightarrow> rw_holds l (locked_guards gs)"
  using rw.reach_holds [of RWMutex "(l, gs)"] by (simp add: rw_holds_def RWMutex_def)

lemma none_locked: "\<forall>g \<in> set gs. \<not> gd_locked g \<Longrightarrow> locked_guards gs = {#}"
  by (induction gs) auto

text \<open>
  C12: In every state that threads with scoped guards on one \<open>Mutex\<close> can reach, the mutex is held
  by the owner of a locked guard and no other guard is locked; destroying any guard returns (a
  guard never unlocks what its thread does not hold) and leaves the mutex free when it was the
  locked one; with no guard locked the mutex is free.
\<close>

theorem mutex_guards_exclude:
  assumes "guard_reach mutex_guards None (m, gs)"
  shows "(\<forall>i < length gs. gd_locked (gs ! i) \<longrightarrow> m = Some (gd_owner (gs ! i)) \<and>
      (\<forall>j < length gs. gd_locked (gs ! j) \<longrightarrow> j = i)) \<and>
    (\<forall>i < length gs. ScopedLock_destroy (Mutex_unlock (gd_owner (gs ! i))) (m, gd_locked (gs ! i)) =
      Returns (if gd_locked (gs ! i) then None else m)) \<and>
    ((\<forall>g \<in> set gs. \<not> gd_locked g) \<longrightarrow> m = None)"
proof -
  have h: "mutex_holds m (locked_guards gs)" using mutex_reach_holds [OF assms] .
  have m: "m = Some (gd_owner (gs ! i))" if "i < length gs" "gd_locked (gs ! i)" for i
    using h locked_guards_in [of "gs ! i" gs] that by (auto simp: mutex_holds_def split: option.splits)
  show ?thesis
  proof (intro conjI allI impI)
    fix i
    assume i: "i < length gs"
    show "ScopedLock_destroy (Mutex_unlock (gd_owner (gs ! i))) (m, gd_locked (gs ! i)) =
        Returns (if gd_locked (gs ! i) then None else m)"
      using m [OF i] by (cases "gd_locked (gs ! i)") (simp_all add: guard_defs Mutex_unlock_def)
    fix j
    assume "gd_locked (gs ! i)" and "j < length gs" and "gd_locked (gs ! j)"
    with i show "j = i" by (intro mutex.one_locked [OF h])
  next
    assume "\<forall>g \<in> set gs. \<not> gd_locked g"
    from none_locked [OF this] h show "m = None" by (auto simp: mutex_holds_def split: option.splits)
  qed (rule m)
qed

theorem mutex_guards_exclude_witness:
  "ScopedLock_destroy (Mutex_unlock 7) (Some 7, True) = Returns None"
  using mutex_guards_exclude [OF mutex_demo [of 7 Exclusive]] by (simp add: one_guard_def)

text \<open>
  C24: The same for \<open>RWMutex\<close> when no thread takes a second guard while it holds a write guard: a
  locked write guard is the only locked guard and its thread is the writer; a locked read guard
  excludes a writer; destroying a guard always returns; with no guard locked the lock is as new.
\<close>

theorem rw_guards_exclude:
  assumes "guard_reach rw_guards RWMutex (l, gs)"
  shows "(\<forall>i < length gs. gd_locked (gs ! i) \<longrightarrow>
      (if gd_mode (gs ! i) = Exclusive
       then rw_writer l = Some (gd_owner (gs ! i)) \<and> (\<forall>j < length gs. gd_locked (gs ! j) \<longrightarrow> j = i)
       else rw_writer l = None \<and> gd_owner (gs ! i) \<in> set (rw_readers l))) \<and>
    (\<forall>i < length gs. \<exists>l'. gc_destroy rw_guards (gd_mode (gs ! i)) (gd_owner (gs ! i)) (l, gd_locked (gs ! i)) =
      Returns l') \<and>
    ((\<forall>g \<in> set gs. \<not> gd_locked g) \<longrightarrow> l = RWMutex)"
proof -
  have h: "rw_holds l (locked_guards gs)" using rw_reach_holds [OF assms] .
  have "if gd_mode (gs ! i) = Exclusive
      then rw_writer l = Some (gd_owner (gs ! i)) \<and> (\<forall>j < length gs. gd_locked (gs ! j) \<longrightarrow> j = i)
      else rw_writer l = None \<and> gd_owner (gs ! i) \<in> set (rw_readers l)"
    if "i < length gs" "gd_locked (gs ! i)" for i
  proof (cases "gd_mode (gs ! i)")
    case Exclusive
    with locked_guards_in [of "gs ! i" gs] that have "(gd_owner (gs ! i), Exclusive) \<in># locked_guards gs" by simp
    with h have "rw_writer l = Some (gd_owner (gs ! i))" by (auto simp: rw_holds_def split: option.splits)
    moreover have "j = i" if "j < length gs" "gd_locked (gs ! j)" for j
      by (rule rw.writer_alone [OF h \<open>i < length gs\<close> that(1) \<open>gd_locked (gs ! i)\<close> Exclusive that(2)])
    ultimately show ?thesis using Exclusive by simp
  next
    case Shared
    with locked_guards_in [of "gs ! i" gs] that have "(gd_owner (gs ! i), Shared) \<in># locked_guards gs" by simp
    with h Shared show ?thesis by (auto simp: rw_holds_def split: option.splits)
  qed
  moreover have "\<exists>l'. gc_destroy rw_guards (gd_mode (gs ! i)) (gd_owner (gs ! i)) (l, gd_locked (gs ! i)) = Returns l'"
    if "i < length gs" for i
    by (rule rw.unlock_returns [OF h that]) (simp add: rw.destroy_eq)
  moreover have "l = RWMutex" if "\<forall>g \<in> set gs. \<not> gd_locked g"
    using h none_locked [OF that] by (auto simp: rw_holds_def RWMutex_def split: option.splits)
  ultimately show ?thesis by simp
qed

theorem rw_guards_exclude_witness:
  "\<exists>l'. WriteScopedLock_destroy 7 (RWMutex\<lparr>rw_writer := Some 7\<rparr>, True) = Returns l'"
  using rw_guards_exclude [OF rw_demo [of 7]] by (simp add: one_guard_def rw_guards_def)

section \<open>Dropped error codes, and waiting for oneself\<close>

text \<open>
  A second \<open>WriteLock\<close> of a thread that already holds one believes to be locked although
  \<open>pthread_rwlock_wrlock\<close> failed; its destructor releases the lock under the first guard, another
  thread can then write at the same time, and the destructor of the first guard unlocks what its
  thread does not hold.
\<close>

theorem nested_write_guard_releases:
  assumes "t \<noteq> u"
  shows "\<exists>l. WriteScopedLock t RWMutex = Returns (l, True) \<and> WriteScopedLock t l = Returns (l, True) \<and>
    WriteScopedLock_destroy t (l, True) = Returns RWMutex \<and>
    (\<exists>l'. WriteScopedLock u RWMutex = Returns (l', True) \<and> WriteScopedLock_destroy t (l', True) = Undefined)"
  using assms by (auto simp: guard_defs RWMutex_wrlock_def RWMutex_unlock_def RWMutex_def)

theorem nested_write_guard_releases_witness:
  "\<exists>l. WriteScopedLock 1 RWMutex = Returns (l, True) \<and> WriteScopedLock_destroy 1 (l, True) = Returns RWMutex"
  using nested_write_guard_releases [of 1 2] by auto

text \<open>
  A thread that takes a write guard while one of its read guards is locked waits for ever,
  whatever the other threads release. \<open>ConfigVar::setValue\<close> calls the listeners under a read
  guard, and \<open>addListener\<close>, \<open>delListener\<close>, \<open>clearListener\<close> and the second half of \<open>setValue\<close>
  take a write guard on the same mutex: a listener that calls one of them never returns.
\<close>

theorem write_under_read_waits:
  assumes "ReadScopedLock t l = Returns (l1, True)" and "rw_writer l \<noteq> Some t"
    and "list_all (\<lambda>u. u \<noteq> t) us"
    and "foldl (\<lambda>c u. bind_call c (RWMutex_unlock u)) (Returns l1) us = Returns l2"
  shows "WriteScopedLock t l2 = Waits"
proof -
  have "t \<in> set (rw_readers l1) \<and> rw_writer l1 = None"
    using assms(1,2) by (auto simp: guard_defs RWMutex_rdlock_def bind_call_Returns split: if_splits)
  with assms(3,4) have "t \<in> set (rw_readers l2) \<and> rw_writer l2 = None"
  proof (induction us arbitrary: l1)
    case (Cons u us)
    have un: "foldl (\<lambda>c u. bind_call c (RWMutex_unlock u)) c us = Returns y \<Longrightarrow> \<exists>x. c = Returns x" for c us y
    proof (induction us arbitrary: c)
      case (Cons v vs)
      from Cons.IH [of "bind_call c (RWMutex_unlock v)"] Cons.prems show ?case by (auto simp: bind_call_Returns)
    qed simp
    from Cons.prems(2) obtain l' where l': "RWMutex_unlock u l1 = Returns l'"
      using un [of "RWMutex_unlock u l1" us] by auto
    then have "t \<in> set (rw_readers l') \<and> rw_writer l' = None"
      using Cons.prems(1,3) by (auto simp: RWMutex_unlock_def split: if_splits)
    with Cons.IH [of l'] Cons.prems l' show ?case by simp
  qed simp
  then show ?thesis by (auto simp: guard_defs RWMutex_wrlock_def)
qed

theorem write_under_read_waits_witness:
  "WriteScopedLock 1 (RWMutex\<lparr>rw_readers := [1]\<rparr>) = Waits"
  by (rule write_under_read_waits [where l = "RWMutex\<lparr>rw_readers := [2]\<rparr>" and us = "[2]" and t = 1
        and ?l1.0 = "RWMutex\<lparr>rw_readers := [1, 2]\<rparr>"])
     (simp_all add: guard_defs RWMutex_rdlock_def RWMutex_unlock_def RWMutex_def)

section \<open>The count of the semaphore\<close>

datatype sem_op = SemWait | SemNotify

primrec sem_run :: "sem_op list \<Rightarrow> semaphore \<Rightarrow> semaphore call" where
  "sem_run [] s = Returns s"
| "sem_run (op # ops) s =
     bind_call (case op of SemWait \<Rightarrow> Semaphore_wait False s | SemNotify \<Rightarrow> Semaphore_notify s) (sem_run ops)"

lemma SEM_VALUE_MAX_nat: "s \<le> SEM_VALUE_MAX \<longleftrightarrow> unat s \<le> 2147483647"
  by (simp add: SEM_VALUE_MAX_def word_le_nat_alt)

lemma wait_value:
  "Semaphore_wait b s = Returns s' \<Longrightarrow> 0 < unat s \<and> unat s' = unat s - 1"
  by (auto simp: Semaphore_wait_def unat_gt_0 unat_minus_one split: if_splits)

lemma notify_value:
  assumes "Semaphore_notify s = Returns s'" and "s \<le> SEM_VALUE_MAX"
  shows "unat s' = unat s + 1 \<and> s' \<le> SEM_VALUE_MAX"
proof -
  have s: "s \<noteq> SEM_VALUE_MAX" "s' = s + 1" using assms(1) by (auto simp: Semaphore_notify_def split: if_splits)
  have "unat SEM_VALUE_MAX = 2147483647" by (simp add: SEM_VALUE_MAX_def)
  with s(1) have "unat s \<noteq> 2147483647" by (metis word_unat_eq_iff)
  with assms(2) have lt: "unat s < 2147483647" by (simp add: SEM_VALUE_MAX_nat)
  then have "unat (s + 1) = unat s + 1" by (simp add: unat_word_ariths)
  with s lt show ?thesis by (simp add: SEM_VALUE_MAX_nat)
qed

text \<open>
  C39: However many calls of \<open>wait\<close> and \<open>notify\<close> succeed on a constructed semaphore, its count
  is the initial count plus the notifications minus the waits, as natural numbers (it never wraps)
  and it never exceeds \<open>SEM_VALUE_MAX\<close>.
\<close>

theorem semaphore_counts:
  assumes "bind_call (Semaphore c) (sem_run ops) = Returns s"
  shows "unat s + count_list ops SemWait = unat c + count_list ops SemNotify \<and> unat s \<le> 2147483647"
proof -
  have "c \<le> SEM_VALUE_MAX" "sem_run ops c = Returns s"
    using assms by (auto simp: Semaphore_def split: if_splits)
  then show ?thesis
  proof (induction ops arbitrary: c)
    case (Cons op ops)
    show ?case
    proof (cases op)
      case SemWait
      with Cons.prems(2) obtain c' where "Semaphore_wait False c = Returns c'" "sem_run ops c' = Returns s"
        by (auto simp: bind_call_Returns)
      with wait_value [of False c c'] Cons.IH [of c'] Cons.prems(1) show ?thesis
        by (simp add: SemWait SEM_VALUE_MAX_nat)
    next
      case SemNotify
      with Cons.prems(2) obtain c' where "Semaphore_notify c = Returns c'" "sem_run ops c' = Returns s"
        by (auto simp: bind_call_Returns)
      with notify_value [of c c'] Cons.IH [of c'] Cons.prems(1) show ?thesis by (simp add: SemNotify)
    qed
  qed (simp add: SEM_VALUE_MAX_nat)
qed

theorem semaphore_counts_witness:
  "unat (1 :: u32) + count_list [SemNotify, SemNotify, SemWait] SemWait = 0 + 2"
  using semaphore_counts [of 0 "[SemNotify, SemNotify, SemWait]" 1]
  by (simp add: Semaphore_def Semaphore_notify_def Semaphore_wait_def SEM_VALUE_MAX_def)

end
