(* ===== verification/Guarded.thy ===== *)
theory Guarded
  imports Lock_Facts
begin

text \<open>
  Objects whose operations run under scoped guards: threads that enter a critical section, work in
  it step by step, and leave it, perhaps for a second section. The interface says what a client of
  the locks must do: keep to the mode of its section, and change the object in exclusive sections
  only. Then sections exclude each other as their modes say, the object stands still under a
  thread in a section, no set of calls blocks itself, and every set of calls comes to an end.
\<close>

section \<open>Calls in sections\<close>

text \<open>
  Where a thread is: outside with the last result, in front of a guard, under it, or at its end,
  with a result or with the work for the next section.
\<close>

datatype ('w, 'r) section_pc = Outside "'r option" | Entering 'w | Inside 'w | Leaving mode "'r + 'w"

text \<open>
  What the work does in one step: it changes the state, and goes on, or ends the section with a
  result or with work for another section.
\<close>

type_synonym ('w, 'r, 's) section_body = "'w \<Rightarrow> 's \<Rightarrow> 's \<times> ('w + ('r + 'w))"

definition section_thread ::
  "'m guard_class \<Rightarrow> ('w \<Rightarrow> mode) \<Rightarrow> ('w, 'r, 's) section_body \<Rightarrow> tid \<Rightarrow> 'm \<Rightarrow> 's \<Rightarrow> ('w, 'r) section_pc \<Rightarrow>
     ('m \<times> 's \<times> ('w, 'r) section_pc) call"
where
  "section_thread cls md body t m s pc = (case pc of
     Outside r \<Rightarrow> Waits
   | Entering w \<Rightarrow> bind_call (gc_new cls (md w) t m) (\<lambda>(m', b). Returns (m', s, Inside w))
   | Inside w \<Rightarrow>
       (case body w s of
          (s', Inl w') \<Rightarrow> Returns (m, s', Inside w')
        | (s', Inr n) \<Rightarrow> Returns (m, s', Leaving (md w) n))
   | Leaving k n \<Rightarrow>
       bind_call (gc_destroy cls k t (m, True))
         (\<lambda>m'. Returns (m', s, case n of Inl r \<Rightarrow> Outside (Some r) | Inr w \<Rightarrow> Entering w)))"

type_synonym ('m, 's, 'w, 'r) section_state = "'m \<times> 's \<times> ('w, 'r) section_pc list"

text \<open>A step of a call that was begun; \<open>i\<close> is the thread, its position in the list its identifier.\<close>

inductive section_step ::
  "'m guard_class \<Rightarrow> ('w \<Rightarrow> mode) \<Rightarrow> ('w, 'r, 's) section_body \<Rightarrow>
     ('m, 's, 'w, 'r) section_state \<Rightarrow> ('m, 's, 'w, 'r) section_state \<Rightarrow> bool"
  for cls md body where
  step: "i < length pcs \<Longrightarrow> section_thread cls md body (int i) m s (pcs ! i) = Returns (m', s', pc) \<Longrightarrow>
    section_step cls md body (m, s, pcs) (m', s', pcs[i := pc])"

inductive_cases section_stepE: "section_step cls md body (m, s, pcs) y"

text \<open>A thread outside may begin any of the calls of the client.\<close>

inductive section_reach ::
  "'m guard_class \<Rightarrow> ('w \<Rightarrow> mode) \<Rightarrow> ('w, 'r, 's) section_body \<Rightarrow> ('w \<Rightarrow> bool) \<Rightarrow> 'm \<Rightarrow> 's \<Rightarrow>
     ('m, 's, 'w, 'r) section_state \<Rightarrow> bool"
  for cls md body call m0 s0 where
  start: "section_reach cls md body call m0 s0 (m0, s0, replicate n (Outside None))"
| begin_call: "section_reach cls md body call m0 s0 (m, s, pcs) \<Longrightarrow> i < length pcs \<Longrightarrow> pcs ! i = Outside r \<Longrightarrow> call w \<Longrightarrow>
    section_reach cls md body call m0 s0 (m, s, pcs[i := Entering w])"
| step: "section_reach cls md body call m0 s0 x \<Longrightarrow> section_step cls md body x y \<Longrightarrow>
    section_reach cls md body call m0 s0 y"

text \<open>The steps and calls of a schedule, as a function.\<close>

datatype 'w move = Begin nat 'w | Go nat

fun section_move :: "'m guard_class \<Rightarrow> ('w \<Rightarrow> mode) \<Rightarrow> ('w, 'r, 's) section_body \<Rightarrow> ('w \<Rightarrow> bool) \<Rightarrow> 'w move \<Rightarrow>
    ('m, 's, 'w, 'r) section_state \<Rightarrow> ('m, 's, 'w, 'r) section_state option"
where
  "section_move cls md body call (Begin i w) (m, s, pcs) =
     (if i < length pcs \<and> call w then
        (case pcs ! i of Outside r \<Rightarrow> Some (m, s, pcs[i := Entering w]) | _ \<Rightarrow> None)
      else None)"
| "section_move cls md body call (Go i) (m, s, pcs) =
     (if i < length pcs then
        (case section_thread cls md body (int i) m s (pcs ! i) of
           Returns (m', s', pc) \<Rightarrow> Some (m', s', pcs[i := pc])
         | _ \<Rightarrow> None)
      else None)"

fun section_moves :: "'m guard_class \<Rightarrow> ('w \<Rightarrow> mode) \<Rightarrow> ('w, 'r, 's) section_body \<Rightarrow> ('w \<Rightarrow> bool) \<Rightarrow> 'w move list \<Rightarrow>
    ('m, 's, 'w, 'r) section_state \<Rightarrow> ('m, 's, 'w, 'r) section_state option"
where
  "section_moves cls md body call [] x = Some x"
| "section_moves cls md body call (a # as) x =
     (case section_move cls md body call a x of
        None \<Rightarrow> None | Some y \<Rightarrow> section_moves cls md body call as y)"

lemma move_reach:
  "section_reach cls md body call m0 s0 x \<Longrightarrow> section_move cls md body call a x = Some y \<Longrightarrow>
     section_reach cls md body call m0 s0 y"
  by (cases a; cases x)
    (auto split: if_splits section_pc.splits call.splits prod.splits
      intro: section_reach.begin_call section_reach.step section_step.step)

lemma moves_reach:
  "section_reach cls md body call m0 s0 x \<Longrightarrow> section_moves cls md body call as x = Some y \<Longrightarrow>
     section_reach cls md body call m0 s0 y"
  by (induction as arbitrary: x) (auto split: option.splits dest: move_reach)

text \<open>A section run to its end.\<close>

inductive body_run :: "('w, 'r, 's) section_body \<Rightarrow> 'w \<Rightarrow> 's \<Rightarrow> 's \<Rightarrow> 'r + 'w \<Rightarrow> bool" for body where
  last: "body w s = (s', Inr n) \<Longrightarrow> body_run body w s s' n"
| more: "body w s = (s1, Inl w1) \<Longrightarrow> body_run body w1 s1 s' n \<Longrightarrow> body_run body w s s' n"

definition after_section :: "'r + 'w \<Rightarrow> ('w, 'r) section_pc" where
  "after_section n = (case n of Inl r \<Rightarrow> Outside (Some r) | Inr w \<Rightarrow> Entering w)"

section \<open>The locks held\<close>

definition pc_mode :: "('w \<Rightarrow> mode) \<Rightarrow> ('w, 'r) section_pc \<Rightarrow> mode option" where
  "pc_mode md pc = (case pc of Inside w \<Rightarrow> Some (md w) | Leaving k n \<Rightarrow> Some k | _ \<Rightarrow> None)"

definition held_by :: "('w \<Rightarrow> mode) \<Rightarrow> nat \<Rightarrow> ('w, 'r) section_pc \<Rightarrow> (tid \<times> mode) multiset" where
  "held_by md i pc = (case pc_mode md pc of None \<Rightarrow> {#} | Some k \<Rightarrow> {#(int i, k)#})"

definition held :: "('w \<Rightarrow> mode) \<Rightarrow> ('w, 'r) section_pc list \<Rightarrow> (tid \<times> mode) multiset" where
  "held md pcs = (\<Sum>i < length pcs. held_by md i (pcs ! i))"

lemma held_split:
  assumes "i < length pcs"
  obtains R where "\<And>pc. held md (pcs[i := pc]) = held_by md i pc + R" and "held md pcs = held_by md i (pcs ! i) + R"
    and "\<And>j. j < length pcs \<Longrightarrow> j \<noteq> i \<Longrightarrow> held_by md j (pcs ! j) \<subseteq># R" and "\<And>k. (int i, k) \<notin># R"
proof -
  let ?J = "{..<length pcs} - {i}"
  let ?R = "\<Sum>j \<in> ?J. held_by md j (pcs ! j)"
  have split: "(\<Sum>j < length pcs. f j) = f i + (\<Sum>j \<in> ?J. f j)" for f :: "nat \<Rightarrow> (tid \<times> mode) multiset"
    using assms by (simp add: sum.remove)
  show thesis
  proof (rule that [of ?R])
    show "held md (pcs[i := pc]) = held_by md i pc + ?R" for pc
      using assms by (simp add: held_def split)
    show "held md pcs = held_by md i (pcs ! i) + ?R" by (simp add: held_def split)
    show "held_by md j (pcs ! j) \<subseteq># ?R" if "j < length pcs" "j \<noteq> i" for j
      using that by (subst sum.remove [of _ j]) auto
    show "(int i, k) \<notin># ?R" for k
      by (auto simp: held_by_def set_mset_sum split: option.splits)
  qed
qed

section \<open>How far a call is from its end\<close>

text \<open>
  Two measures of the work, the first for what is done before the state is looked at, as the
  second may depend on what is found there. Entering and leaving count as well.
\<close>

definition pc_early :: "('w \<Rightarrow> nat) \<Rightarrow> ('w, 'r) section_pc \<Rightarrow> nat" where
  "pc_early early pc = (case pc of
     Outside r \<Rightarrow> 0 | Entering w \<Rightarrow> early w | Inside w \<Rightarrow> early w
   | Leaving k n \<Rightarrow> (case n of Inl r \<Rightarrow> 0 | Inr w \<Rightarrow> early w))"

definition pc_late :: "('w \<Rightarrow> nat) \<Rightarrow> ('w, 'r) section_pc \<Rightarrow> nat" where
  "pc_late late pc = (case pc of
     Outside r \<Rightarrow> 0 | Entering w \<Rightarrow> 3 * late w + 3 | Inside w \<Rightarrow> 3 * late w + 2
   | Leaving k n \<Rightarrow> (case n of Inl r \<Rightarrow> 1 | Inr w \<Rightarrow> 3 * late w + 4))"

section \<open>The interface\<close>

locale guarded_object = guard_contract cls holds
  for cls :: "'m guard_class" and holds :: "'m \<Rightarrow> (tid \<times> mode) multiset \<Rightarrow> bool" +
  fixes md :: "'w \<Rightarrow> mode"
    and body :: "('w, 'r, 's) section_body"
    and prot :: "'s \<Rightarrow> 'p"
    and early :: "'w \<Rightarrow> nat"
    and late :: "'w \<Rightarrow> nat"
  assumes free: "holds m {#} \<Longrightarrow> \<exists>m' b. gc_new cls k t m = Returns (m', b)"
    and stay: "body w s = (s', Inl w') \<Longrightarrow> md w' = md w"
    and shared: "md w = Shared \<Longrightarrow> body w s = (s', n) \<Longrightarrow> prot s' = prot s"
    and less: "body w s = (s', Inl w') \<or> body w s = (s', Inr (Inr w')) \<Longrightarrow>
      early w' < early w \<or> early w' = early w \<and> late w' < late w"
begin

lemma thread_holds:
  assumes ok: "holds m (held md pcs)" and i: "i < length pcs"
    and st: "section_thread cls md body (int i) m s (pcs ! i) = Returns (m', s', pc)"
  shows "holds m' (held md (pcs[i := pc]))"
proof -
  obtain R where R: "\<And>pc. held md (pcs[i := pc]) = held_by md i pc + R" "held md pcs = held_by md i (pcs ! i) + R"
    "\<And>k. (int i, k) \<notin># R"
    using held_split [OF i, of md] by metis
  show ?thesis
  proof (cases "pcs ! i")
    case (Entering w)
    with ok R(2) have H: "holds m R" by (simp add: held_by_def pc_mode_def)
    from Entering st obtain b where n: "gc_new cls (md w) (int i) m = Returns (m', b)" "pc = Inside w"
      by (auto simp: section_thread_def bind_call_Returns)
    from new [OF H R(3) n(1)] n(2) show ?thesis by (simp add: R(1) held_by_def pc_mode_def)
  next
    case (Inside w)
    with st have "m' = m" "held_by md i pc = held_by md i (pcs ! i)"
      by (auto simp: section_thread_def held_by_def pc_mode_def split: prod.splits sum.splits dest: stay)
    with ok R(1) [of pc] R(2) show ?thesis by simp
  next
    case (Leaving k n)
    with R(2) have H: "held md pcs = add_mset (int i, k) R" by (simp add: held_by_def pc_mode_def)
    then obtain n1 where "gc_destroy cls k (int i) (m, True) = Returns n1" "holds n1 (held md pcs - {#(int i, k)#})"
      using destroy_held [OF ok, of "int i" k] by auto
    with st Leaving H show ?thesis
      by (auto simp: section_thread_def R(1) held_by_def pc_mode_def split: sum.splits)
  qed (use st in \<open>simp add: section_thread_def\<close>)
qed

lemma reach_holds_locks:
  "section_reach cls md body call m0 s0 x \<Longrightarrow> holds m0 {#} \<Longrightarrow> holds (fst x) (held md (snd (snd x)))"
proof (induction rule: section_reach.induct)
  case (start n)
  then show ?case by (simp add: held_def held_by_def pc_mode_def)
next
  case (begin_call m s pcs i r w)
  obtain R where R: "\<And>pc. held md (pcs[i := pc]) = held_by md i pc + R" "held md pcs = held_by md i (pcs ! i) + R"
    using held_split [OF begin_call.hyps(2), of md] by metis
  with begin_call show ?case by (simp add: held_by_def pc_mode_def)
next
  case (step x y)
  from step.hyps(2) step.IH [OF step.prems] show ?case
    by (cases rule: section_step.cases) (auto intro: thread_holds)
qed

text \<open>A thread in an exclusive section is alone.\<close>

lemma sections_exclude:
  assumes "holds m (held md pcs)" and "i < length pcs" and "j < length pcs"
    and "pc_mode md (pcs ! i) = Some Exclusive" and "pc_mode md (pcs ! j) \<noteq> None"
  shows "j = i"
proof (rule ccontr)
  assume ne: "j \<noteq> i"
  obtain R where R: "held md pcs = held_by md i (pcs ! i) + R"
    "\<And>j. j < length pcs \<Longrightarrow> j \<noteq> i \<Longrightarrow> held_by md j (pcs ! j) \<subseteq># R"
    using held_split [OF assms(2), of md] by metis
  have "held md pcs = add_mset (int i, Exclusive) R" using R(1) assms(4) by (simp add: held_by_def)
  with alone [OF assms(1), of "int i"] have "R = {#}" by simp
  with R(2) [OF assms(3) ne] assms(5) show False by (auto simp: held_by_def)
qed

text \<open>The steps of the others leave the object alone while a thread is in a section.\<close>

lemma others_keep:
  assumes "holds m (held md pcs)" and "i < length pcs" and "j < length pcs" and "j \<noteq> i"
    and "pc_mode md (pcs ! i) \<noteq> None" and "section_thread cls md body (int j) m s (pcs ! j) = Returns (m', s', pc)"
  shows "prot s' = prot s"
proof (cases "pcs ! j")
  case (Inside w)
  have "md w \<noteq> Exclusive"
    using sections_exclude [OF assms(1,3,2) _ assms(5)] assms(4) Inside by (auto simp: pc_mode_def)
  then have "md w = Shared" by (cases "md w") simp_all
  with assms(6) Inside shared show ?thesis
    by (auto simp: section_thread_def split: prod.splits sum.splits)
qed (use assms(6) in \<open>auto simp: section_thread_def bind_call_Returns\<close>)

text \<open>
  What the steps of the work keep of the state, and of a thread and the part of the state that
  stands still under it, holds in every state that can be reached.
\<close>

lemma reach_threads:
  assumes reach: "section_reach cls md body call m0 s0 x" and m0: "holds m0 {#}" and Q0: "Q s0"
    and Q: "\<And>w s s' n. body w s = (s', n) \<Longrightarrow> P (Inside w) s \<Longrightarrow> Q s \<Longrightarrow> Q s'"
    and prot: "\<And>pc s s'. prot s' = prot s \<Longrightarrow> P pc s \<Longrightarrow> P pc s'"
    and rest: "\<And>pc w s s' n. body w s = (s', n) \<Longrightarrow> P (Inside w) s \<Longrightarrow> Q s \<Longrightarrow> pc_mode md pc = None \<Longrightarrow>
      P pc s \<Longrightarrow> P pc s'"
    and first: "\<And>s. P (Outside None) s" and begins: "\<And>w s. call w \<Longrightarrow> P (Entering w) s"
    and own: "\<And>t m s pc m' s' pc'. section_thread cls md body t m s pc = Returns (m', s', pc') \<Longrightarrow> Q s \<Longrightarrow>
      P pc s \<Longrightarrow> P pc' s'"
  shows "Q (fst (snd x)) \<and> (\<forall>pc \<in> set (snd (snd x)). P pc (fst (snd x)))"
  using reach
proof (induction rule: section_reach.induct)
  case (start n)
  then show ?case by (simp add: first Q0)
next
  case (begin_call m s pcs i r w)
  then show ?case by (auto dest!: subsetD [OF set_update_subset_insert] simp: begins)
next
  case (step x y)
  from step.hyps(2) show ?case
  proof (cases rule: section_step.cases)
    case (step i pcs m s m' s' pc)
    note x = step(1) and y = step(2) and i = step(3) and th = step(4)
    have H: "holds m (held md pcs)" using reach_holds_locks [OF \<open>section_reach cls md body call m0 s0 x\<close> m0] x by simp
    have Qs: "Q s" and IH: "P (pcs ! j) s" if "j < length pcs" for j
      using \<open>Q (fst (snd x)) \<and> (\<forall>pc \<in> set (snd (snd x)). P pc (fst (snd x)))\<close> x i that by simp_all
    have s': "s' = s \<or> (\<exists>w n. body w s = (s', n) \<and> P (Inside w) s)"
      using th IH [OF i] by (cases "pcs ! i") (auto simp: section_thread_def bind_call_Returns split: prod.splits sum.splits)
    then have "Q s'" using Qs [OF i] Q by blast
    moreover have "P (pcs[i := pc] ! j) s'" if j: "j < length pcs" for j
    proof (cases "j = i")
      case True
      with own [OF th Qs [OF i] IH [OF i]] j show ?thesis by simp
    next
      case False
      show ?thesis
      proof (cases "pc_mode md (pcs ! j)")
        case None
        with s' rest [OF _ _ Qs [OF i] None IH [OF j]] IH [OF j] False show ?thesis by auto
      next
        case (Some k)
        with prot [OF others_keep [OF H j i _ _ th] IH [OF j]] False show ?thesis by auto
      qed
    qed
    ultimately show ?thesis using y by (auto simp: in_set_conv_nth)
  qed
qed

text \<open>Some call that was begun can go on.\<close>

lemma not_stuck:
  assumes ok: "holds m (held md pcs)" and i: "i < length pcs" "\<And>r. pcs ! i \<noteq> Outside r"
  shows "\<exists>y. section_step cls md body (m, s, pcs) y"
proof (cases "\<exists>j < length pcs. pc_mode md (pcs ! j) \<noteq> None")
  case True
  then obtain j k where j: "j < length pcs" "pc_mode md (pcs ! j) = Some k" by auto
  have "\<exists>r. section_thread cls md body (int j) m s (pcs ! j) = Returns r"
  proof (cases "pcs ! j")
    case (Leaving k' n)
    obtain R where "held md pcs = held_by md j (pcs ! j) + R" using held_split [OF j(1), of md] by metis
    with Leaving have "(int j, k') \<in># held md pcs" by (simp add: held_by_def pc_mode_def)
    then obtain n1 where "gc_destroy cls k' (int j) (m, True) = Returns n1"
      using destroy_held [OF ok] by metis
    with Leaving show ?thesis by (simp add: section_thread_def)
  qed (use j in \<open>auto simp: pc_mode_def section_thread_def split: prod.splits sum.splits\<close>)
  then show ?thesis using section_step.step [OF j(1)] by (metis prod_cases3)
next
  case False
  then have "held md pcs = {#}" by (simp add: held_def held_by_def)
  with ok have "holds m {#}" by simp
  moreover obtain w where "pcs ! i = Entering w"
    using i False by (cases "pcs ! i") (auto simp: pc_mode_def)
  ultimately obtain m' b where "gc_new cls (md w) (int i) m = Returns (m', b)" "pcs ! i = Entering w"
    using free by blast
  then have "section_thread cls md body (int i) m s (pcs ! i) = Returns (m', s, Inside w)"
    by (simp add: section_thread_def)
  from section_step.step [OF i(1) this] show ?thesis by blast
qed

text \<open>The calls that were begun cannot go on for ever.\<close>

definition distance :: "('w, 'r) section_pc list \<Rightarrow> nat \<times> nat" where
  "distance pcs = (total_of (pc_early early) pcs, total_of (pc_late late) pcs)"

lemma thread_less:
  assumes "section_thread cls md body t m s pc = Returns (m', s', pc')"
  shows "pc_early early pc' < pc_early early pc \<or>
    pc_early early pc' = pc_early early pc \<and> pc_late late pc' < pc_late late pc"
proof (cases pc)
  case (Inside w)
  obtain s1 n where b: "body w s = (s1, n)" by fastforce
  show ?thesis
  proof (cases n)
    case (Inl w')
    with assms Inside b less [of w s s1 w'] show ?thesis by (auto simp: section_thread_def pc_early_def pc_late_def)
  next
    case (Inr r)
    with assms Inside b less [of w s s1] show ?thesis
      by (cases r) (auto simp: section_thread_def pc_early_def pc_late_def)
  qed
qed (use assms in \<open>auto simp: section_thread_def bind_call_Returns pc_early_def pc_late_def split: sum.splits\<close>)

lemma step_less:
  assumes "section_step cls md body (m, s, pcs) (m', s', pcs')"
  shows "(distance pcs', distance pcs) \<in> less_than <*lex*> less_than"
  using assms
proof (cases rule: section_step.cases)
  case (step i pc)
  from thread_less [OF step(3)] total_of_update [OF step(2), of "pc_early early" pc]
    total_of_update [OF step(2), of "pc_late late" pc] step(1)
  show ?thesis by (auto simp: distance_def)
qed

lemma no_infinite_calls: "wfP (\<lambda>y x. section_step cls md body x y)"
proof (rule wfp_subset)
  show "wfp (\<lambda>y x. (distance (snd (snd y)), distance (snd (snd x))) \<in> less_than <*lex*> less_than)"
    using wf_inv_image [of "less_than <*lex*> less_than" "\<lambda>x. distance (snd (snd x))"]
    by (simp add: wfp_def inv_image_def wf_lex_prod)
qed (auto dest: step_less)

text \<open>Calls that go on as long as they can have answered.\<close>

lemma calls_end:
  assumes "section_reach cls md body call m0 s0 x" and "holds m0 {#}"
    and "(section_step cls md body)\<^sup>*\<^sup>* x y" and "\<nexists>z. section_step cls md body y z"
  shows "\<forall>pc \<in> set (snd (snd y)). \<exists>r. pc = Outside r"
proof -
  have "section_reach cls md body call m0 s0 y"
    using assms(3,1) by (induction) (auto intro: section_reach.step)
  then have H: "holds (fst y) (held md (snd (snd y)))" by (rule reach_holds_locks) (rule assms(2))
  show ?thesis
    using not_stuck [OF H] assms(4) by (metis in_set_conv_nth prod.collapse)
qed

text \<open>A section that no other thread disturbs.\<close>

lemma inside_steps:
  "body_run body w s s' n \<Longrightarrow> i < length pcs \<Longrightarrow>
     (section_step cls md body)\<^sup>*\<^sup>* (m, s, pcs[i := Inside w]) (m, s', pcs[i := Leaving (md w) n])"
proof (induction rule: body_run.induct)
  case (last w s s' n)
  then show ?case
    using section_step.step [of i "pcs[i := Inside w]" cls md body m s m s' "Leaving (md w) n"]
    by (auto simp: section_thread_def)
next
  case (more w s s1 w1 s' n)
  then have "section_step cls md body (m, s, pcs[i := Inside w]) (m, s1, pcs[i := Inside w1])"
    using section_step.step [of i "pcs[i := Inside w]" cls md body m s m s1 "Inside w1"]
    by (auto simp: section_thread_def)
  with more stay [OF more.hyps(1)] show ?case by (auto intro: converse_rtranclp_into_rtranclp)
qed

lemma section_steps:
  assumes "gc_new cls (md w) (int i) m = Returns (m1, b)" and "gc_destroy cls (md w) (int i) (m1, True) = Returns m2"
    and "body_run body w s s' n" and "i < length pcs"
  shows "(section_step cls md body)\<^sup>*\<^sup>* (m, s, pcs[i := Entering w]) (m2, s', pcs[i := after_section n])"
proof -
  have "section_step cls md body (m, s, pcs[i := Entering w]) (m1, s, pcs[i := Inside w])"
    using section_step.step [of i "pcs[i := Entering w]" cls md body m s m1 s "Inside w"] assms
    by (auto simp: section_thread_def)
  also note inside_steps [OF assms(3,4), of m1]
  also have "section_step cls md body (m1, s', pcs[i := Leaving (md w) n]) (m2, s', pcs[i := after_section n])"
    using section_step.step [of i "pcs[i := Leaving (md w) n]" cls md body m1 s' m2 s' "after_section n"] assms
    by (auto simp: section_thread_def after_section_def)
  finally show ?thesis .
qed

text \<open>No set of calls goes on for ever.\<close>

lemma no_infinite_run: "\<nexists>f. \<forall>k. section_step cls md body (f k) (f (Suc k))"
  using no_infinite_calls unfolding wfp_def wf_iff_no_infinite_down_chain by blast

end

section \<open>The read-write lock\<close>

lemma rw_free: "rw_holds RWMutex {#}"
  by (simp add: rw_holds_def RWMutex_def)

lemma rw_new: "rw_holds m {#} \<Longrightarrow> \<exists>m' b. gc_new rw_guards k t m = Returns (m', b)"
  by (cases k) (auto simp: rw_guards_def guard_defs rw_holds_def RWMutex_rdlock_def RWMutex_wrlock_def
      split: option.splits)

lemma rw_alone:
  "\<exists>m1 b. gc_new rw_guards k t RWMutex = Returns (m1, b) \<and> gc_destroy rw_guards k t (m1, True) = Returns RWMutex"
  by (cases k) (auto simp: rw_guards_def guard_defs RWMutex_rdlock_def RWMutex_wrlock_def RWMutex_unlock_def RWMutex_def)

end
