(* ===== verification/Guarded_Serial.thy ===== *)
theory Guarded_Serial
  imports Guarded
begin

text \<open>
  Objects that a lock guards, with one section per call, exclusive unless the call only reads: their
  calls are linearizable. The steps of threads that are inside and in front of the lock interleave as a
  schedule says; still the object is at the end as if the calls had been made one after the
  other, each with the answer it really had, in an order that respects what every thread did.
  The interface asks for the operation that a section implements.
\<close>

section \<open>Histories\<close>

text \<open>A history has, for each call that is over, the thread, the call and the answer.\<close>

type_synonym ('w, 'r) history = "(nat \<times> 'w \<times> 'r) list"

fun replay :: "('w \<Rightarrow> 's \<Rightarrow> 's \<times> 'r) \<Rightarrow> 's \<Rightarrow> ('w, 'r) history \<Rightarrow> 's option" where
  "replay op s [] = Some s"
| "replay op s ((i, w, r) # h) =
     (case op w s of (s', r') \<Rightarrow> if r' = r then replay op s' h else None)"

definition calls_of :: "nat \<Rightarrow> ('w, 'r) history \<Rightarrow> 'w list" where
  "calls_of i h = map (fst \<circ> snd) (filter (\<lambda>c. fst c = i) h)"

definition answers_of :: "nat \<Rightarrow> ('w, 'r) history \<Rightarrow> 'r list" where
  "answers_of i h = map (snd \<circ> snd) (filter (\<lambda>c. fst c = i) h)"

definition latest :: "'r list \<Rightarrow> 'r option" where
  "latest rs = (if rs = [] then None else Some (last rs))"

text \<open>The calls that a schedule lets a thread begin.\<close>

fun begun :: "nat \<Rightarrow> 'w move list \<Rightarrow> 'w list" where
  "begun i [] = []"
| "begun i (Begin j w # as) = (if j = i then w # begun i as else begun i as)"
| "begun i (Go j # as) = begun i as"

lemma replay_append:
  "replay op s (h @ h') = (case replay op s h of None \<Rightarrow> None | Some s' \<Rightarrow> replay op s' h')"
  by (induction op s h rule: replay.induct) (auto split: prod.splits)

lemma begun_append [simp]: "begun i (as @ bs) = begun i as @ begun i bs"
  by (induction i as rule: begun.induct) auto

lemma history_simps [simp]:
  "calls_of i [] = []" "answers_of i [] = []"
  "calls_of i (c # h) = (if fst c = i then fst (snd c) # calls_of i h else calls_of i h)"
  "answers_of i (c # h) = (if fst c = i then snd (snd c) # answers_of i h else answers_of i h)"
  "calls_of i (h @ h') = calls_of i h @ calls_of i h'"
  "answers_of i (h @ h') = answers_of i h @ answers_of i h'"
  "latest [] = None" "latest (rs @ [r]) = Some r"
  by (simp_all add: calls_of_def answers_of_def latest_def)

lemma calls_answers: "length (answers_of i h) = length (calls_of i h)"
  by (simp add: calls_of_def answers_of_def)

lemma section_moves_append:
  "section_moves cls md body call (as @ bs) x =
     (case section_moves cls md body call as x of
        None \<Rightarrow> None | Some y \<Rightarrow> section_moves cls md body call bs y)"
  by (induction as arbitrary: x) (auto split: option.splits)

lemma begun_in: "w \<in> set (begun i as) \<Longrightarrow> Begin i w \<in> set as"
  by (induction i as rule: begun.induct) (auto split: if_splits)

lemma in_calls_of: "c \<in> set h \<Longrightarrow> calls_of (fst c) h = ws \<Longrightarrow> fst (snd c) \<in> set ws"
  by (force simp: calls_of_def)

lemma moves_call:
  "section_moves cls md body call as x = Some y \<Longrightarrow> Begin i w \<in> set as \<Longrightarrow> call w"
proof (induction as arbitrary: x)
  case (Cons a as)
  then show ?case by (cases x) (auto split: option.splits if_splits)
qed simp

text \<open>Every state that can be reached is reached by a schedule.\<close>

lemma reach_moves:
  assumes "section_reach cls md body call m0 s0 x"
  shows "\<exists>as. section_moves cls md body call as (m0, s0, replicate (length (snd (snd x))) (Outside None)) = Some x"
  using assms
proof (induction rule: section_reach.induct)
  case (start n)
  have "section_moves cls md body call [] (m0, s0, replicate n (Outside None)) = Some (m0, s0, replicate n (Outside None))"
    by simp
  then show ?case unfolding fst_conv snd_conv length_replicate by blast
next
  case (begin_call m s pcs i r w)
  then obtain as where "section_moves cls md body call as (m0, s0, replicate (length pcs) (Outside None)) = Some (m, s, pcs)"
    by auto
  with begin_call.hyps have "section_moves cls md body call (as @ [Begin i w]) (m0, s0, replicate (length pcs) (Outside None)) =
      Some (m, s, pcs[i := Entering w])"
    by (simp add: section_moves_append)
  then show ?case unfolding fst_conv snd_conv length_list_update by blast
next
  case (step x y)
  from step.hyps(2) show ?case
  proof (cases rule: section_step.cases)
    case (step i pcs m s m' s' pc)
    with \<open>\<exists>as. _ as\<close> obtain as where
      "section_moves cls md body call as (m0, s0, replicate (length pcs) (Outside None)) = Some (m, s, pcs)" by auto
    with step(3,4) have "section_moves cls md body call (as @ [Go i]) (m0, s0, replicate (length pcs) (Outside None)) =
        Some (m', s', pcs[i := pc])"
      by (simp add: section_moves_append)
    then show ?thesis unfolding step(2) fst_conv snd_conv length_list_update by blast
  qed
qed

text \<open>Functions that follow the steps of the work compute what a section does.\<close>

lemma body_run_op:
  assumes "body_run body w s s' n" and "n = Inl r" and "I w s"
    and more: "\<And>w s s1 w1. I w s \<Longrightarrow> body w s = (s1, Inl w1) \<Longrightarrow> I w1 s1 \<and> op w s = op w1 s1"
    and last: "\<And>w s s1 r. I w s \<Longrightarrow> body w s = (s1, Inr (Inl r)) \<Longrightarrow> op w s = (s1, r)"
  shows "op w s = (s', r)"
  using assms(1-3) by (induction rule: body_run.induct) (auto dest: more last)

section \<open>The interface\<close>

locale serial_object = guarded_object cls holds md body prot early late
  for cls :: "'m guard_class" and holds :: "'m \<Rightarrow> (tid \<times> mode) multiset \<Rightarrow> bool"
    and md :: "'w \<Rightarrow> mode" and body :: "('w, 'r, 's) section_body" and prot :: "'s \<Rightarrow> 'p"
    and early :: "'w \<Rightarrow> nat" and late :: "'w \<Rightarrow> nat" +
  fixes call :: "'w \<Rightarrow> bool"
    and op :: "'w \<Rightarrow> 's \<Rightarrow> 's \<times> 'r"
    and inv :: "'s \<Rightarrow> bool"
  assumes keep: "md w = Shared \<Longrightarrow> body w s = (s', n) \<Longrightarrow> s' = s"
    and single: "body w s \<noteq> (s', Inr (Inr w'))"
    and op_run: "call w \<Longrightarrow> inv s \<Longrightarrow> body_run body w s s' (Inl r) \<Longrightarrow> op w s = (s', r)"
    and op_inv: "call w \<Longrightarrow> inv s \<Longrightarrow> op w s = (s', r) \<Longrightarrow> inv s'"
begin

text \<open>The work a thread still has in its section completes the operation that it began.\<close>

definition completes :: "'w \<Rightarrow> 's \<Rightarrow> 'w \<Rightarrow> 's \<Rightarrow> bool" where
  "completes w s w' s1 \<longleftrightarrow> (\<forall>s' r. body_run body w' s1 s' (Inl r) \<longrightarrow> body_run body w s s' (Inl r))"

text \<open>
  What a history says of a thread after the schedule \<open>as\<close>; \<open>s1\<close> is the object after the calls of
  the history, \<open>s\<close> as it is.
\<close>

definition thread_explained ::
  "'w move list \<Rightarrow> ('w, 'r) history \<Rightarrow> 's \<Rightarrow> 's \<Rightarrow> nat \<Rightarrow> ('w, 'r) section_pc \<Rightarrow> bool"
where
  "thread_explained as h s1 s i pc \<longleftrightarrow> (case pc of
     Outside r \<Rightarrow> calls_of i h = begun i as \<and> r = latest (answers_of i h)
   | Entering w \<Rightarrow> call w \<and> calls_of i h @ [w] = begun i as
   | Inside w' \<Rightarrow> \<exists>w. call w \<and> calls_of i h @ [w] = begun i as \<and> completes w s1 w' s
   | Leaving k n \<Rightarrow> calls_of i h = begun i as \<and> (\<exists>r. n = Inl r \<and> latest (answers_of i h) = Some r))"

definition explains :: "'s \<Rightarrow> 'w move list \<Rightarrow> ('w, 'r) history \<Rightarrow> ('m, 's, 'w, 'r) section_state \<Rightarrow> bool" where
  "explains s0 as h x \<longleftrightarrow> (case x of (m, s, pcs) \<Rightarrow>
     holds m (held md pcs) \<and> (\<forall>c \<in> set h. fst c < length pcs) \<and>
     (\<exists>s1. replay op s0 h = Some s1 \<and> inv s1 \<and>
        ((\<forall>i < length pcs. \<forall>w. pcs ! i = Inside w \<longrightarrow> md w = Shared) \<longrightarrow> s = s1) \<and>
        (\<forall>i < length pcs. thread_explained as h s1 s i (pcs ! i))))"

lemma explains_start:
  assumes "holds m0 {#}" and "inv s0"
  shows "explains s0 [] [] (m0, s0, replicate n (Outside None))"
  using assms by (simp add: explains_def thread_explained_def held_def held_by_def pc_mode_def)

lemma others_explained:
  assumes "thread_explained as h s1 s j pc" and "begun j as' = begun j as"
    and "calls_of j h' = calls_of j h" and "answers_of j h' = answers_of j h"
    and "(\<exists>w. pc = Inside w) \<Longrightarrow> s1' = s1 \<and> s' = s"
  shows "thread_explained as' h' s1' s' j pc"
  using assms by (auto simp: thread_explained_def split: section_pc.splits)

lemma explains_begin:
  assumes "explains s0 as h (m, s, pcs)" and i: "i < length pcs" and "pcs ! i = Outside r" and "call w"
  shows "explains s0 (as @ [Begin i w]) h (m, s, pcs[i := Entering w])"
proof -
  obtain s1 where s1: "replay op s0 h = Some s1" "inv s1" "(\<forall>i < length pcs. \<forall>w. pcs ! i = Inside w \<longrightarrow> md w = Shared) \<longrightarrow> s = s1"
    and th: "\<And>j. j < length pcs \<Longrightarrow> thread_explained as h s1 s j (pcs ! j)"
    and H: "holds m (held md pcs)" and threads: "\<forall>c \<in> set h. fst c < length pcs"
    using assms(1) by (auto simp: explains_def)
  obtain R where R: "\<And>pc. held md (pcs[i := pc]) = held_by md i pc + R" "held md pcs = held_by md i (pcs ! i) + R"
    using held_split [OF i, of md] by metis
  have "held md (pcs[i := Entering w]) = held md pcs"
    using assms(3) by (simp add: R held_by_def pc_mode_def)
  moreover have "thread_explained (as @ [Begin i w]) h s1 s j (pcs[i := Entering w] ! j)" if j: "j < length pcs" for j
  proof (cases "j = i")
    case True
    with th [OF i] assms(3,4) i show ?thesis by (simp add: thread_explained_def)
  next
    case False
    then show ?thesis by (auto intro: others_explained [OF th [OF j]])
  qed
  moreover have "s = s1" if readers: "\<forall>j < length pcs. \<forall>v. pcs[i := Entering w] ! j = Inside v \<longrightarrow> md v = Shared"
  proof -
    have "md v = Shared" if "j < length pcs" "pcs ! j = Inside v" for j v
      using readers that assms(3) by (cases "j = i") auto
    with s1(3) show ?thesis by blast
  qed
  ultimately show ?thesis using s1(1,2) H threads by (auto simp: explains_def)
qed

lemma explains_step:
  assumes "explains s0 as h (m, s, pcs)" and i: "i < length pcs"
    and st: "section_thread cls md body (int i) m s (pcs ! i) = Returns (m', s', pc)"
  shows "\<exists>h'. explains s0 (as @ [Go i]) (h @ h') (m', s', pcs[i := pc])"
proof -
  obtain s1 where s1: "replay op s0 h = Some s1" "inv s1" "(\<forall>i < length pcs. \<forall>w. pcs ! i = Inside w \<longrightarrow> md w = Shared) \<longrightarrow> s = s1"
    and th: "\<And>j. j < length pcs \<Longrightarrow> thread_explained as h s1 s j (pcs ! j)"
    and H: "holds m (held md pcs)" and threads: "\<forall>c \<in> set h. fst c < length pcs"
    using assms(1) by (auto simp: explains_def)
  have H': "holds m' (held md (pcs[i := pc]))" by (rule thread_holds [OF H i st])
  have other: "md v = Shared \<and> pc_mode md pc = Some Shared"
    if "j < length pcs" "j \<noteq> i" "pc_mode md pc \<noteq> None" "pcs ! j = Inside v" for j v
  proof (intro conjI)
    have v: "pc_mode md (pcs[i := pc] ! j) = Some (md v)" using that by (simp add: pc_mode_def)
    with sections_exclude [OF H', of j i] that i have "md v \<noteq> Exclusive" by auto
    then show "md v = Shared" by (cases "md v") simp_all
    from v sections_exclude [OF H', of i j] that i have "pc_mode md pc \<noteq> Some Exclusive" by auto
    with that(3) show "pc_mode md pc = Some Shared" by (metis mode.exhaust option.exhaust)
  qed
  have rest: "thread_explained (as @ [Go i]) (h @ h') s1' s' j (pcs[i := pc] ! j)"
    if "j < length pcs" "j \<noteq> i" "\<And>c. c \<in> set h' \<Longrightarrow> fst c = i" "pc_mode md pc \<noteq> Some Exclusive \<Longrightarrow> s1' = s1 \<and> s' = s" for j s1' h'
  proof -
    have "calls_of j h' = []" "answers_of j h' = []"
      using that(2,3) by (auto simp: calls_of_def answers_of_def filter_empty_conv)
    then show ?thesis
      using others_explained [OF th [OF that(1)], of "as @ [Go i]" "h @ h'" s1' s'] that(2,4) other [OF that(1,2)]
      by (cases "pc_mode md pc") auto
  qed
  have goal: "\<exists>h'. explains s0 (as @ [Go i]) (h @ h') (m', s', pcs[i := pc])"
    if "replay op s0 (h @ h') = Some s1'" "inv s1'" "\<And>c. c \<in> set h' \<Longrightarrow> fst c = i" "pc_mode md pc \<noteq> Some Exclusive \<Longrightarrow> s1' = s1 \<and> s' = s"
      "thread_explained (as @ [Go i]) (h @ h') s1' s' i pc"
      "(\<forall>w. pc = Inside w \<longrightarrow> md w = Shared) \<Longrightarrow>
         (\<forall>j < length pcs. j \<noteq> i \<longrightarrow> (\<forall>w. pcs ! j = Inside w \<longrightarrow> md w = Shared)) \<Longrightarrow> s' = s1'" for h' s1'
  proof (rule exI [of _ h'])
    have "thread_explained (as @ [Go i]) (h @ h') s1' s' j (pcs[i := pc] ! j)" if "j < length pcs" for j
      using rest [OF that _ \<open>\<And>c. c \<in> set h' \<Longrightarrow> fst c = i\<close>, where s1' = s1'] \<open>pc_mode md pc \<noteq> Some Exclusive \<Longrightarrow> _\<close> i
        \<open>thread_explained _ _ s1' s' i pc\<close> by (cases "j = i") auto
    moreover have "s' = s1'" if "\<forall>j < length pcs. \<forall>w. pcs[i := pc] ! j = Inside w \<longrightarrow> md w = Shared"
    proof (rule \<open>(\<forall>w. pc = Inside w \<longrightarrow> _) \<Longrightarrow> _ \<Longrightarrow> s' = s1'\<close>)
      show "\<forall>w. pc = Inside w \<longrightarrow> md w = Shared" using that i by auto
      show "\<forall>j < length pcs. j \<noteq> i \<longrightarrow> (\<forall>w. pcs ! j = Inside w \<longrightarrow> md w = Shared)"
        using that by (metis nth_list_update_neq)
    qed
    ultimately show "explains s0 (as @ [Go i]) (h @ h') (m', s', pcs[i := pc])"
      using H' that(1-3) threads i by (auto simp: explains_def)
  qed
  show ?thesis
  proof (cases "pcs ! i")
    case (Entering w)
    with st have "pc = Inside w" "s' = s" by (auto simp: section_thread_def bind_call_Returns)
    moreover have "md v = Shared" if "j < length pcs" "pcs ! j = Inside v" for j v
      using other [OF that(1) _ _ that(2)] that(2) Entering \<open>pc = Inside w\<close> by (cases "j = i") (auto simp: pc_mode_def)
    with s1(3) have "s = s1" by blast
    ultimately show ?thesis
      using Entering th [OF i] s1 by (intro goal [of "[]" s1]) (auto simp: thread_explained_def completes_def pc_mode_def)
  next
    case (Inside w')
    then obtain w where w: "call w" "calls_of i h @ [w] = begun i as" "completes w s1 w' s"
      using th [OF i] by (auto simp: thread_explained_def)
    have reader: "s' = s \<and> s = s1" if "md w' = Shared"
    proof
      show "s' = s" using st Inside keep [OF that, of s] by (auto simp: section_thread_def split: prod.splits sum.splits)
      have "pc_mode md pc \<noteq> None"
        using st Inside by (auto simp: section_thread_def pc_mode_def split: prod.splits sum.splits)
      then have "md v = Shared" if "j < length pcs" "pcs ! j = Inside v" for j v
        using other [OF that(1) _ _ that(2)] that(2) Inside \<open>md w' = Shared\<close> by (cases "j = i") auto
      with s1(3) show "s = s1" by blast
    qed
    show ?thesis
    proof (cases "snd (body w' s)")
      case (Inl w'')
      with st Inside have b: "body w' s = (s', Inl w'')" "pc = Inside w''"
        by (auto simp: section_thread_def split: prod.splits sum.splits)
      then have "completes w s1 w'' s'" using w(3) by (auto simp: completes_def intro: body_run.more)
      with b w s1 reader stay [OF b(1)] show ?thesis
        by (intro goal [of "[]" s1]) (auto simp: thread_explained_def pc_mode_def intro: mode.exhaust [of "md w'"])
    next
      case (Inr n)
      with single [of w' s] obtain r where "snd (body w' s) = Inr (Inl r)" by (cases n; cases "body w' s") auto
      with st Inside have b: "body w' s = (s', Inr (Inl r))" "pc = Leaving (md w') (Inl r)"
        by (auto simp: section_thread_def split: prod.splits sum.splits)
      then have run: "op w s1 = (s', r)"
        using w(1,3) s1(2) by (auto simp: completes_def intro: op_run body_run.last)
      have "md w' = Shared \<or> md w' = Exclusive" by (cases "md w'") simp_all
      with run b w s1 reader op_inv [OF w(1) s1(2) run] show ?thesis
        by (intro goal [of "[(i, w, r)]" s']) (auto simp: thread_explained_def pc_mode_def replay_append)
    qed
  next
    case (Leaving k n)
    then obtain r where "n = Inl r" using th [OF i] by (auto simp: thread_explained_def)
    with st Leaving have "pc = Outside (Some r)" "s' = s" by (auto simp: section_thread_def bind_call_Returns)
    with Leaving th [OF i] s1 \<open>n = Inl r\<close> show ?thesis
      by (intro goal [of "[]" s1]) (auto simp: thread_explained_def pc_mode_def)
  qed (use st in \<open>simp add: section_thread_def\<close>)
qed

lemma explains_moves:
  assumes "explains s0 as h x" and "section_moves cls md body call bs x = Some y"
  shows "\<exists>h'. explains s0 (as @ bs) (h @ h') y"
  using assms
proof (induction bs arbitrary: as h x)
  case Nil
  then show ?case by (auto intro: exI [of _ "[]"])
next
  case (Cons a bs)
  obtain m s pcs where x: "x = (m, s, pcs)" by (cases x)
  from Cons.prems(2) obtain z where z: "section_move cls md body call a x = Some z"
    "section_moves cls md body call bs z = Some y" by (auto split: option.splits)
  have "\<exists>h1. explains s0 (as @ [a]) (h @ h1) z"
  proof (cases a)
    case (Begin i w)
    with z(1) x obtain r where "i < length pcs" "pcs ! i = Outside r" "call w" "z = (m, s, pcs[i := Entering w])"
      by (auto split: if_splits section_pc.splits)
    with explains_begin [of s0 as h m s pcs i r w] Cons.prems(1) x Begin show ?thesis
      by (intro exI [of _ "[]"]) simp
  next
    case (Go i)
    with z(1) x obtain m' s' pc where "i < length pcs" "z = (m', s', pcs[i := pc])"
      "section_thread cls md body (int i) m s (pcs ! i) = Returns (m', s', pc)"
      by (auto split: if_splits call.splits)
    with explains_step [of s0 as h m s pcs i m' s' pc] Cons.prems(1) x Go show ?thesis by simp
  qed
  then obtain h1 where "explains s0 (as @ [a]) (h @ h1) z" by blast
  from Cons.IH [OF this z(2)] show ?case by (metis append.assoc append_Cons append_Nil)
qed

text \<open>
  The calls that a schedule begins have the effect and the answers they have one after the other
  in some order, once they are over.
\<close>

lemma linearizable:
  assumes "section_moves cls md body call as (m0, s0, replicate n (Outside None)) = Some (m, s, pcs)"
    and "holds m0 {#}" and "inv s0" and "\<forall>pc \<in> set pcs. \<exists>r. pc = Outside r"
  shows "\<exists>h. replay op s0 h = Some s \<and> (\<forall>c \<in> set h. fst c < length pcs) \<and>
    (\<forall>i < length pcs. calls_of i h = begun i as \<and> pcs ! i = Outside (latest (answers_of i h)))"
proof -
  obtain h where h: "explains s0 as h (m, s, pcs)"
    using explains_moves [OF explains_start [OF assms(2,3)] assms(1)] by auto
  have o: "\<exists>r. pcs ! i = Outside r" if "i < length pcs" for i using assms(4) that by simp
  have "\<forall>i < length pcs. \<forall>w. pcs ! i = Inside w \<longrightarrow> md w = Shared" using o by fastforce
  with h have "replay op s0 h = Some s" by (auto simp: explains_def)
  moreover have "calls_of i h = begun i as \<and> pcs ! i = Outside (latest (answers_of i h))" if "i < length pcs" for i
    using h o [OF that] that by (auto simp: explains_def thread_explained_def)
  moreover have "\<forall>c \<in> set h. fst c < length pcs" using h by (simp add: explains_def)
  ultimately show ?thesis by blast
qed

text \<open>A call that was over before another began comes before it in the history.\<close>

lemma respects_order:
  assumes "section_moves cls md body call as (m0, s0, replicate n (Outside None)) = Some x"
    and "section_moves cls md body call bs x = Some y" and "holds m0 {#}" and "inv s0"
  obtains h h' where "explains s0 as h x" and "explains s0 (as @ bs) (h @ h') y"
proof -
  from explains_moves [OF explains_start [OF assms(3,4)] assms(1)] obtain h where "explains s0 as h x" by auto
  with explains_moves [OF this assms(2)] that show thesis by blast
qed

end

section \<open>The mutex and the spin lock\<close>

lemma mutex_free: "mutex_holds None {#}"
  by (simp add: mutex_holds_def)

lemma mutex_new: "mutex_holds m {#} \<Longrightarrow> \<exists>m' b. gc_new mutex_guards k t m = Returns (m', b)"
  by (auto simp: mutex_guards_def guard_defs mutex_holds_def Mutex_lock_def split: option.splits)

lemma spinlock_new: "mutex_holds m {#} \<Longrightarrow> \<exists>m' b. gc_new spinlock_guards k t m = Returns (m', b)"
  by (auto simp: spinlock_guards_def guard_defs mutex_holds_def Spinlock_lock_def split: option.splits)

end
