(* ===== verification/Log_Level.thy ===== *)
theory Log_Level
  imports Gwn_Prelude
begin

text \<open>
  \<open>LogLevel\<close> (gwn/log.h, gwn/log.cc): the enumeration of severities, its order (the
  integer values of the enum, which \<open>>=\<close> compares in every level gate) and the two
  conversions to and from text.
\<close>

datatype log_level = UNKNOW | DEBUG | INFO | WARN | ERROR | FATAL

primrec level_value :: "log_level \<Rightarrow> nat" where
  "level_value UNKNOW = 0"
| "level_value DEBUG = 1"
| "level_value INFO = 2"
| "level_value WARN = 3"
| "level_value ERROR = 4"
| "level_value FATAL = 5"

lemma level_value_inject [simp]: "level_value a = level_value b \<longleftrightarrow> a = b"
  by (cases a; cases b) simp_all

instantiation log_level :: linorder
begin

definition less_eq_log_level :: "log_level \<Rightarrow> log_level \<Rightarrow> bool" where
  "less_eq_log_level a b \<longleftrightarrow> level_value a \<le> level_value b"

definition less_log_level :: "log_level \<Rightarrow> log_level \<Rightarrow> bool" where
  "less_log_level a b \<longleftrightarrow> level_value a < level_value b"

instance
  by standard (auto simp: less_eq_log_level_def less_log_level_def)

end

lemma UNKNOW_least [simp]: "UNKNOW \<le> l"
  by (simp add: less_eq_log_level_def)

lemma FATAL_greatest [simp]: "l \<le> FATAL"
  by (cases l) (simp_all add: less_eq_log_level_def)

definition LogLevel_ToString :: "log_level \<Rightarrow> string" where
  "LogLevel_ToString l =
     (case l of
        DEBUG \<Rightarrow> ''DEBUG''
      | INFO \<Rightarrow> ''INFO''
      | WARN \<Rightarrow> ''WARN''
      | ERROR \<Rightarrow> ''ERROR''
      | FATAL \<Rightarrow> ''FATAL''
      | _ \<Rightarrow> ''UNKNOW'')"

definition LogLevel_FromString :: "string \<Rightarrow> log_level" where
  "LogLevel_FromString s =
     (if s = ''debug'' then DEBUG
      else if s = ''info'' then INFO
      else if s = ''warn'' then WARN
      else if s = ''error'' then ERROR
      else if s = ''fatal'' then FATAL
      else if s = ''DEBUG'' then DEBUG
      else if s = ''INFO'' then INFO
      else if s = ''WARN'' then WARN
      else if s = ''ERROR'' then ERROR
      else if s = ''FATAL'' then FATAL
      else UNKNOW)"

lemma FromString_ToString [simp]: "LogLevel_FromString (LogLevel_ToString l) = l"
  by (cases l) (simp_all add: LogLevel_FromString_def LogLevel_ToString_def)

lemma ToString_inject [simp]: "LogLevel_ToString a = LogLevel_ToString b \<longleftrightarrow> a = b"
  by (metis FromString_ToString)

lemma FromString_empty [simp]: "LogLevel_FromString [] = UNKNOW"
  by (simp add: LogLevel_FromString_def)

lemma ToString_not_Nil [simp]: "LogLevel_ToString l \<noteq> []"
  by (cases l) (simp_all add: LogLevel_ToString_def)

end
