(* ===== verification/Log_Formatter.thy ===== *)
theory Log_Formatter
  imports Log_Level
begin

text \<open>
  \<open>LogEvent\<close>, the twelve \<open>FormatItem\<close> classes and \<open>LogFormatter\<close> (gwn/log.h, gwn/log.cc):
  the scanner that splits a pattern into tokens, the table from conversion letters to items,
  and the output of an event through the items. The text that \<open>init\<close> writes to
  \<open>std::cout\<close> for a pattern it cannot read is part of its result.
\<close>

section \<open>Events\<close>

text \<open>
  A pointer to a logger is an address (a \<open>nat\<close>); \<open>m_elapse\<close> and \<open>m_line\<close> are 32-bit
  words, printed unsigned and signed.
\<close>

record log_event =
  ev_file :: string
  ev_line :: u32
  ev_elapse :: u32
  ev_threadId :: u32
  ev_fiberId :: u32
  ev_time :: u64
  ev_threadName :: string
  ev_content :: string
  ev_logger :: nat
  ev_level :: log_level

text \<open>
  The constructor: every field is copied, the content stream starts empty. Text is added to
  the content with \<open>operator<<\<close> on \<open>getSS()\<close> or with \<open>format\<close>, which appends what
  \<open>vasprintf\<close> produced unless it failed (\<open>None\<close>).
\<close>

definition LogEvent :: "nat \<Rightarrow> log_level \<Rightarrow> string \<Rightarrow> u32 \<Rightarrow> u32 \<Rightarrow> u32 \<Rightarrow> u32 \<Rightarrow> u64 \<Rightarrow> string \<Rightarrow> log_event" where
  "LogEvent logger level file line elapse thread_id fiber_id time thread_name =
     \<lparr>ev_file = file, ev_line = line, ev_elapse = elapse, ev_threadId = thread_id,
      ev_fiberId = fiber_id, ev_time = time, ev_threadName = thread_name, ev_content = [],
      ev_logger = logger, ev_level = level\<rparr>"

definition event_stream :: "string \<Rightarrow> log_event \<Rightarrow> log_event" where
  "event_stream s e = e\<lparr>ev_content := ev_content e @ s\<rparr>"

definition LogEvent_format :: "string option \<Rightarrow> log_event \<Rightarrow> log_event" where
  "LogEvent_format printed e = (case printed of None \<Rightarrow> e | Some s \<Rightarrow> event_stream s e)"

section \<open>Format items\<close>

datatype format_item =
    MessageFormatItem
  | LevelFormatItem
  | ElapseFormatItem
  | NameFormatItem
  | ThreadIdFormatItem
  | FiberIdFormatItem
  | ThreadNameFormatItem
  | DateTimeFormatItem string
  | FilenameFormatItem
  | LineFormatItem
  | NewLineFormatItem
  | StringFormatItem string
  | TabFormatItem

definition default_time_format :: string where
  "default_time_format = ''%Y-%m-%d %H:%M:%S''"

definition DateTimeFormatItem_new :: "string \<Rightarrow> format_item" where
  "DateTimeFormatItem_new fmt =
     DateTimeFormatItem (if fmt = [] then default_time_format else fmt)"

text \<open>
  What the items read beyond the event: the name of a logger, and what the 64-byte buffer
  holds after \<open>strftime\<close> of the local time, which depends on the time zone of the host.
\<close>

record fmt_env =
  logger_name :: "nat \<Rightarrow> string"
  strftime64 :: "string \<Rightarrow> u64 \<Rightarrow> string"

fun item_format :: "fmt_env \<Rightarrow> format_item \<Rightarrow> log_level \<Rightarrow> log_event \<Rightarrow> string" where
  "item_format env MessageFormatItem level e = ev_content e"
| "item_format env LevelFormatItem level e = LogLevel_ToString level"
| "item_format env ElapseFormatItem level e = dec_u32 (ev_elapse e)"
| "item_format env NameFormatItem level e = logger_name env (ev_logger e)"
| "item_format env ThreadIdFormatItem level e = dec_u32 (ev_threadId e)"
| "item_format env FiberIdFormatItem level e = dec_u32 (ev_fiberId e)"
| "item_format env ThreadNameFormatItem level e = ev_threadName e"
| "item_format env (DateTimeFormatItem fmt) level e = strftime64 env fmt (ev_time e)"
| "item_format env FilenameFormatItem level e = ev_file e"
| "item_format env LineFormatItem level e = dec_i32 (ev_line e)"
| "item_format env NewLineFormatItem level e = [newline]"
| "item_format env (StringFormatItem s) level e = s"
| "item_format env TabFormatItem level e = [tabulator]"

text \<open>The static table \<open>s_format_items\<close>.\<close>

definition s_format_items :: "string \<Rightarrow> (string \<Rightarrow> format_item) option" where
  "s_format_items s =
     (if s = ''m'' then Some (\<lambda>_. MessageFormatItem)
      else if s = ''p'' then Some (\<lambda>_. LevelFormatItem)
      else if s = ''r'' then Some (\<lambda>_. ElapseFormatItem)
      else if s = ''c'' then Some (\<lambda>_. NameFormatItem)
      else if s = ''t'' then Some (\<lambda>_. ThreadIdFormatItem)
      else if s = ''n'' then Some (\<lambda>_. NewLineFormatItem)
      else if s = ''d'' then Some DateTimeFormatItem_new
      else if s = ''f'' then Some (\<lambda>_. FilenameFormatItem)
      else if s = ''l'' then Some (\<lambda>_. LineFormatItem)
      else if s = ''T'' then Some (\<lambda>_. TabFormatItem)
      else if s = ''F'' then Some (\<lambda>_. FiberIdFormatItem)
      else if s = ''N'' then Some (\<lambda>_. ThreadNameFormatItem)
      else None)"

section \<open>The pattern scanner\<close>

text \<open>
  A token is the tuple of \<open>vec\<close>: text, argument between braces, and 0 for literal text or 1
  for a conversion. \<open>scan_spec\<close> is the inner \<open>while\<close> loop of \<open>init\<close> with its local
  variables: it starts one past the percent sign at \<open>i\<close>, in status 0.
\<close>

type_synonym token = "string \<times> string \<times> nat"

function scan_spec ::
  "string \<Rightarrow> nat \<Rightarrow> nat \<Rightarrow> nat \<Rightarrow> nat \<Rightarrow> string \<Rightarrow> string \<Rightarrow> nat \<times> nat \<times> string \<times> string"
where
  "scan_spec p i n fmt_status fmt_begin str fmt =
     (if n < length p then
        (if fmt_status = 0 \<and> \<not> isalpha (p ! n) \<and> p ! n \<noteq> CHR ''{'' \<and> p ! n \<noteq> CHR ''}''
         then (n, fmt_status, substr p (i + 1) (n - i - 1), fmt)
         else if fmt_status = 0 \<and> p ! n = CHR ''{''
         then scan_spec p i (n + 1) 1 n (substr p (i + 1) (n - i - 1)) fmt
         else if fmt_status = 1 \<and> p ! n = CHR ''}''
         then (n + 1, 0, str, substr p (fmt_begin + 1) (n - fmt_begin - 1))
         else scan_spec p i (n + 1) fmt_status fmt_begin
                (if n + 1 = length p \<and> str = [] then substr_from p (i + 1) else str) fmt)
      else (n, fmt_status, str, fmt))"
  by pat_completeness auto
termination
  by (relation "measure (\<lambda>(p, i, n, st, b, str, fmt). length p - n)") auto

declare scan_spec.simps [simp del]

lemma scan_spec_ge: "n \<le> fst (scan_spec p i n st b str fmt)"
proof (induction p i n st b str fmt rule: scan_spec.induct)
  case (1 p i n st b str fmt)
  then show ?case by (subst scan_spec.simps) (auto simp: Let_def)
qed

lemma scan_spec_advances: "(n', r) = scan_spec p i n st b str fmt \<Longrightarrow> n \<le> n'"
  using scan_spec_ge [of n p i st b str fmt] by (metis fst_conv)

lemma scan_spec_status: "st \<le> 1 \<Longrightarrow> fst (snd (scan_spec p i n st b str fmt)) \<le> 1"
proof (induction p i n st b str fmt rule: scan_spec.induct)
  case (1 p i n st b str fmt)
  then show ?case by (subst scan_spec.simps) auto
qed

text \<open>
  The outer \<open>for\<close> loop of \<open>init\<close>: the loop index, the literal text collected so far
  (\<open>nstr\<close>), the tokens (\<open>vec\<close>), the error flag, and the text sent to \<open>std::cout\<close>.
\<close>

definition pattern_error_msg :: "string \<Rightarrow> nat \<Rightarrow> string" where
  "pattern_error_msg p i =
     ''pattern parse error: '' @ p @ '' - '' @ substr_from p i @ [newline]"

function scan_pattern ::
  "string \<Rightarrow> nat \<Rightarrow> string \<Rightarrow> token list \<Rightarrow> bool \<Rightarrow> string \<Rightarrow> token list \<times> bool \<times> string"
where
  "scan_pattern p i nstr vec err out =
     (if i < length p then
        (if p ! i \<noteq> CHR ''%'' then scan_pattern p (i + 1) (nstr @ [p ! i]) vec err out
         else if i + 1 < length p \<and> p ! (i + 1) = CHR ''%''
         then scan_pattern p (i + 1) (nstr @ ''%'') vec err out
         else (case scan_spec p i (i + 1) 0 0 [] [] of (n, fmt_status, str, fmt) \<Rightarrow>
           (if fmt_status = 0
            then scan_pattern p (n - 1 + 1) []
                   ((if nstr \<noteq> [] then vec @ [(nstr, [], 0)] else vec) @ [(str, fmt, 1)]) err out
            else scan_pattern p (i + 1) nstr (vec @ [(''<<pattern_error>>'', fmt, 0)]) True
                   (out @ pattern_error_msg p i))))
      else (if nstr \<noteq> [] then vec @ [(nstr, [], 0)] else vec, err, out))"
  by pat_completeness auto
termination
  by (relation "measure (\<lambda>(p, i, nstr, vec, err, out). length p - i)")
     (auto dest!: scan_spec_advances)

declare scan_pattern.simps [simp del]

text \<open>The second loop of \<open>init\<close>: tokens to items.\<close>

definition error_format_text :: "string \<Rightarrow> string" where
  "error_format_text s = ''<<error_format %'' @ s @ ''>>''"

fun token_item :: "token \<Rightarrow> format_item \<times> bool" where
  "token_item (str, fmt, k) =
     (if k = 0 then (StringFormatItem str, False)
      else (case s_format_items str of
              None \<Rightarrow> (StringFormatItem (error_format_text str), True)
            | Some C \<Rightarrow> (C fmt, False)))"

fun build_items :: "token list \<Rightarrow> format_item list \<Rightarrow> bool \<Rightarrow> format_item list \<times> bool" where
  "build_items [] items err = (items, err)"
| "build_items (t # ts) items err =
     (case token_item t of (it, e) \<Rightarrow> build_items ts (items @ [it]) (err \<or> e))"

record log_formatter =
  fm_pattern :: string
  fm_items :: "format_item list"
  fm_error :: bool

text \<open>
  The constructor runs \<open>init\<close>; the second component is what it wrote to \<open>std::cout\<close>.
\<close>

definition LogFormatter :: "string \<Rightarrow> log_formatter \<times> string" where
  "LogFormatter pattern =
     (case scan_pattern pattern 0 [] [] False [] of (vec, err, out) \<Rightarrow>
        (case build_items vec [] err of (items, err') \<Rightarrow>
           (\<lparr>fm_pattern = pattern, fm_items = items, fm_error = err'\<rparr>, out)))"

text \<open>
  Both overloads of \<open>format\<close> send the items to a stream in order: what they write.
\<close>

fun LogFormatter_format :: "fmt_env \<Rightarrow> log_formatter \<Rightarrow> log_level \<Rightarrow> log_event \<Rightarrow> string" where
  "LogFormatter_format env f level e = concat (map (\<lambda>i. item_format env i level e) (fm_items f))"

end
