(* ===== verification/Log_Pattern.thy ===== *)
theory Log_Pattern
  imports Log_Formatter
begin

text \<open>
  What the pattern scanner of \<open>LogFormatter\<close> does, stated over an abstract syntax of
  patterns: a pattern is a list of pieces, literal text or a conversion with an optional
  argument, and scanning the text of a well-formed list gives its pieces back.
\<close>

section \<open>Abstract patterns\<close>

datatype piece = Lit string | Conv string "string option"

fun piece_text :: "piece \<Rightarrow> string" where
  "piece_text (Lit s) = s"
| "piece_text (Conv k None) = ''%'' @ k"
| "piece_text (Conv k (Some a)) = ''%'' @ k @ ''{'' @ a @ ''}''"

definition pattern_text :: "piece list \<Rightarrow> string" where
  "pattern_text ps = concat (map piece_text ps)"

fun piece_token :: "piece \<Rightarrow> token" where
  "piece_token (Lit s) = (s, [], 0)"
| "piece_token (Conv k None) = (k, [], 1)"
| "piece_token (Conv k (Some a)) = (k, a, 1)"

text \<open>A character that ends a conversion without an argument.\<close>

definition spec_end :: "char \<Rightarrow> bool" where
  "spec_end c \<longleftrightarrow> \<not> isalpha c \<and> c \<noteq> CHR ''{'' \<and> c \<noteq> CHR ''}''"

fun starts_lit :: "piece list \<Rightarrow> bool" where
  "starts_lit (Lit s # ps) = True"
| "starts_lit ps = False"

fun wf_pieces :: "piece list \<Rightarrow> bool" where
  "wf_pieces [] = True"
| "wf_pieces (Lit s # ps) \<longleftrightarrow>
     s \<noteq> [] \<and> CHR ''%'' \<notin> set s \<and> \<not> starts_lit ps \<and> wf_pieces ps"
| "wf_pieces (Conv k None # ps) \<longleftrightarrow>
     k \<noteq> [] \<and> list_all isalpha k \<and>
     (pattern_text ps = [] \<or> spec_end (hd (pattern_text ps))) \<and> wf_pieces ps"
| "wf_pieces (Conv k (Some a) # ps) \<longleftrightarrow>
     k \<noteq> [] \<and> list_all isalpha k \<and> CHR ''}'' \<notin> set a \<and> wf_pieces ps"

lemma pattern_text_simps [simp]:
  "pattern_text [] = []"
  "pattern_text (x # ps) = piece_text x @ pattern_text ps"
  by (simp_all add: pattern_text_def)

section \<open>The scanner of one conversion\<close>

text \<open>In status 0 the scanner walks over letters.\<close>

lemma scan_spec_letters:
  assumes "list_all isalpha k2"
  shows "scan_spec (pre @ CHR ''%'' # k1 @ k2 @ rest) (length pre) (length pre + 1 + length k1) 0 b
           (if k2 @ rest = [] then k1 else []) fmt =
         scan_spec (pre @ CHR ''%'' # k1 @ k2 @ rest) (length pre)
           (length pre + 1 + length k1 + length k2) 0 b (if rest = [] then k1 @ k2 else []) fmt"
  using assms
proof (induction k2 arbitrary: k1)
  case Nil
  then show ?case by simp
next
  case (Cons c k2)
  let ?p = "pre @ CHR ''%'' # k1 @ (c # k2) @ rest"
  have nth: "?p ! (length pre + 1 + length k1) = c"
    using nth_at_length [of "pre @ CHR ''%'' # k1" c "k2 @ rest"] by simp
  have c: "isalpha c" "c \<noteq> CHR ''{''" "c \<noteq> CHR ''}''" using Cons.prems by auto
  have str: "substr_from (pre @ CHR ''%'' # s) (Suc (length pre)) = s" for s
    by (simp add: substr_from_def)
  have "scan_spec ?p (length pre) (length pre + 1 + length k1) 0 b [] fmt =
        scan_spec ?p (length pre) (length pre + 1 + length (k1 @ [c])) 0 b
          (if k2 @ rest = [] then k1 @ [c] else []) fmt"
    by (subst scan_spec.simps) (use nth c str in \<open>simp add: nth_append\<close>)
  also have "\<dots> = scan_spec ?p (length pre) (length pre + 1 + length k1 + length (c # k2)) 0 b
          (if rest = [] then k1 @ c # k2 else []) fmt"
    using Cons.IH [of "k1 @ [c]"] Cons.prems by (simp add: ac_simps)
  finally show ?case by simp
qed

lemma scan_spec_plain:
  assumes "list_all isalpha k" and "rest = [] \<or> spec_end (hd rest)"
  shows "scan_spec (pre @ CHR ''%'' # k @ rest) (length pre) (length pre + 1) 0 0 [] [] =
           (length pre + 1 + length k, 0, k, [])"
proof -
  let ?p = "pre @ CHR ''%'' # k @ rest"
  have "scan_spec ?p (length pre) (length pre + 1) 0 0 [] [] =
        scan_spec ?p (length pre) (length pre + 1 + length k) 0 0 (if rest = [] then k else []) []"
    using scan_spec_letters [OF assms(1), of pre "[]" rest 0 "[]"] by simp
  also have "\<dots> = (length pre + 1 + length k, 0, k, [])"
  proof (cases rest)
    case Nil
    then show ?thesis by (subst scan_spec.simps) simp
  next
    case (Cons c r)
    have "?p ! (length pre + 1 + length k) = c"
      using nth_at_length [of "pre @ CHR ''%'' # k" c r] Cons by simp
    then show ?thesis
      using assms(2) Cons by (subst scan_spec.simps) (simp add: spec_end_def substr_def)
  qed
  finally show ?thesis .
qed

text \<open>In status 1 it walks to the closing brace.\<close>

lemma scan_spec_argument:
  assumes "CHR ''}'' \<notin> set a"
  shows "scan_spec (q @ a @ CHR ''}'' # r) i (length q) 1 b str fmt =
           (length q + length a + 1, 0, str,
            substr (q @ a @ CHR ''}'' # r) (b + 1) (length q + length a - b - 1))"
  using assms
proof (induction a arbitrary: q)
  case Nil
  then show ?case by (subst scan_spec.simps) simp
next
  case (Cons c a)
  then have c: "c \<noteq> CHR ''}''" by auto
  have "scan_spec (q @ (c # a) @ CHR ''}'' # r) i (length q) 1 b str fmt =
        scan_spec ((q @ [c]) @ a @ CHR ''}'' # r) i (length (q @ [c])) 1 b str fmt"
    using c by (subst scan_spec.simps) simp
  then show ?case using Cons.IH [of "q @ [c]"] Cons.prems by simp
qed

lemma scan_spec_braced:
  assumes "list_all isalpha k" and "CHR ''}'' \<notin> set a"
  shows "scan_spec (pre @ CHR ''%'' # k @ CHR ''{'' # a @ CHR ''}'' # rest) (length pre)
           (length pre + 1) 0 0 [] [] = (length pre + length k + length a + 3, 0, k, a)"
proof -
  let ?q = "pre @ CHR ''%'' # k"
  let ?p = "?q @ CHR ''{'' # a @ CHR ''}'' # rest"
  have "scan_spec ?p (length pre) (length pre + 1) 0 0 [] [] =
        scan_spec ?p (length pre) (length ?q) 0 0 [] []"
    using scan_spec_letters [OF assms(1), of pre "[]" "CHR ''{'' # a @ CHR ''}'' # rest" 0 "[]"]
    by simp
  also have "\<dots> = scan_spec ((?q @ [CHR ''{'']) @ a @ CHR ''}'' # rest) (length pre)
                     (length (?q @ [CHR ''{''])) 1 (length ?q) k []"
    by (subst scan_spec.simps) (use nth_at_length [of ?q "CHR ''{''"] in \<open>simp add: substr_def\<close>)
  also have "\<dots> = (length pre + length k + length a + 3, 0, k, a)"
    by (subst scan_spec_argument [OF assms(2)]) (simp add: substr_def)
  finally show ?thesis by simp
qed

text \<open>Without a closing brace the scanner runs to the end and stays in status 1.\<close>

lemma scan_spec_unclosed_tail:
  assumes "CHR ''}'' \<notin> set a" and "str \<noteq> []"
  shows "scan_spec (q @ a) i (length q) 1 b str fmt = (length q + length a, 1, str, fmt)"
  using assms(1)
proof (induction a arbitrary: q)
  case Nil
  then show ?case by (subst scan_spec.simps) simp
next
  case (Cons c a)
  then have c: "c \<noteq> CHR ''}''" by auto
  have "scan_spec (q @ c # a) i (length q) 1 b str fmt =
        scan_spec ((q @ [c]) @ a) i (length (q @ [c])) 1 b str fmt"
    using c assms(2) by (subst scan_spec.simps) simp
  then show ?case using Cons.IH [of "q @ [c]"] Cons.prems by simp
qed

lemma scan_spec_unclosed:
  assumes "list_all isalpha k" and "k \<noteq> []" and "CHR ''}'' \<notin> set a"
  shows "scan_spec (pre @ CHR ''%'' # k @ CHR ''{'' # a) (length pre) (length pre + 1) 0 0 [] [] =
           (length pre + length k + length a + 2, 1, k, [])"
proof -
  let ?q = "pre @ CHR ''%'' # k"
  have "scan_spec (?q @ CHR ''{'' # a) (length pre) (length pre + 1) 0 0 [] [] =
        scan_spec (?q @ CHR ''{'' # a) (length pre) (length ?q) 0 0 [] []"
    using scan_spec_letters [OF assms(1), of pre "[]" "CHR ''{'' # a" 0 "[]"] by simp
  also have "\<dots> = scan_spec ((?q @ [CHR ''{'']) @ a) (length pre)
                     (length (?q @ [CHR ''{''])) 1 (length ?q) k []"
    by (subst scan_spec.simps) (use nth_at_length [of ?q "CHR ''{''"] in \<open>simp add: substr_def\<close>)
  also have "\<dots> = (length pre + length k + length a + 2, 1, k, [])"
    by (subst scan_spec_unclosed_tail [OF assms(3,2)]) simp
  finally show ?thesis by simp
qed

section \<open>The scanner of a pattern\<close>

definition flush_lit :: "string \<Rightarrow> token list \<Rightarrow> token list" where
  "flush_lit nstr vec = (if nstr \<noteq> [] then vec @ [(nstr, [], 0)] else vec)"

lemma flush_lit_Nil [simp]: "flush_lit [] vec = vec"
  by (simp add: flush_lit_def)

lemma scan_pattern_end [simp]:
  "scan_pattern p (length p) nstr vec err out = (flush_lit nstr vec, err, out)"
  by (subst scan_pattern.simps) (simp add: flush_lit_def)

lemma scan_pattern_literal:
  assumes "CHR ''%'' \<notin> set s"
  shows "scan_pattern (pre @ s @ rest) (length pre) nstr vec err out =
         scan_pattern (pre @ s @ rest) (length pre + length s) (nstr @ s) vec err out"
  using assms
proof (induction s arbitrary: pre nstr)
  case Nil
  then show ?case by simp
next
  case (Cons c s)
  then have c: "c \<noteq> CHR ''%''" by auto
  have "scan_pattern (pre @ (c # s) @ rest) (length pre) nstr vec err out =
        scan_pattern ((pre @ [c]) @ s @ rest) (length (pre @ [c])) (nstr @ [c]) vec err out"
    using c by (subst scan_pattern.simps) simp
  then show ?case using Cons.IH [of "pre @ [c]" "nstr @ [c]"] Cons.prems by simp
qed

text \<open>One conversion: the collected literal is flushed and the conversion follows it.\<close>

lemma scan_pattern_conversion:
  assumes "scan_spec (pre @ CHR ''%'' # c # rest) (length pre) (length pre + 1) 0 0 [] [] =
             (n, 0, str, fmt)"
    and "0 < n" and "c \<noteq> CHR ''%''"
  shows "scan_pattern (pre @ CHR ''%'' # c # rest) (length pre) nstr vec err out =
         scan_pattern (pre @ CHR ''%'' # c # rest) n [] (flush_lit nstr vec @ [(str, fmt, 1)]) err out"
proof -
  have "(pre @ CHR ''%'' # c # rest) ! (length pre + 1) = c"
    using nth_at_length [of "pre @ [CHR ''%'']" c rest] by simp
  then show ?thesis
    using assms by (subst scan_pattern.simps) (simp add: flush_lit_def)
qed

lemma scan_pattern_pieces:
  assumes "wf_pieces ps" and "nstr = [] \<or> \<not> starts_lit ps"
  shows "scan_pattern (pre @ pattern_text ps) (length pre) nstr vec err out =
           (flush_lit nstr vec @ map piece_token ps, err, out)"
  using assms
proof (induction ps arbitrary: pre nstr vec rule: wf_pieces.induct)
  case 1
  then show ?case using scan_pattern_end [of pre] by simp
next
  case (2 s ps)
  have "scan_pattern (pre @ s @ pattern_text ps) (length pre) nstr vec err out =
        scan_pattern ((pre @ s) @ pattern_text ps) (length (pre @ s)) s vec err out"
    using 2 scan_pattern_literal [of s pre "pattern_text ps" nstr] by simp
  also have "\<dots> = (flush_lit s vec @ map piece_token ps, err, out)"
    using 2 by (intro "2.IH") auto
  finally show ?case using 2 by (simp add: flush_lit_def)
next
  case (3 k ps)
  then obtain c k' where k: "k = c # k'" "c \<noteq> CHR ''%''" by (cases k) auto
  have "scan_pattern (pre @ pattern_text (Conv k None # ps)) (length pre) nstr vec err out =
        scan_pattern ((pre @ CHR ''%'' # k) @ pattern_text ps) (length (pre @ CHR ''%'' # k)) []
          (flush_lit nstr vec @ [(k, [], 1)]) err out"
    using 3 k scan_spec_plain [of k "pattern_text ps" pre]
    by (simp add: scan_pattern_conversion)
  then show ?case
    using 3 "3.IH" [of "[]" "pre @ CHR ''%'' # k"] by simp
next
  case (4 k a ps)
  then obtain c k' where k: "k = c # k'" "c \<noteq> CHR ''%''" by (cases k) auto
  let ?q = "pre @ CHR ''%'' # k @ CHR ''{'' # a @ ''}''"
  have "scan_pattern (pre @ pattern_text (Conv k (Some a) # ps)) (length pre) nstr vec err out =
        scan_pattern (?q @ pattern_text ps) (length ?q) []
          (flush_lit nstr vec @ [(k, a, 1)]) err out"
    using 4 k scan_spec_braced [of k a pre "pattern_text ps"]
    by (simp add: scan_pattern_conversion eval_nat_numeral ac_simps)
  then show ?case
    using 4 "4.IH" [of "[]" ?q] by simp
qed

text \<open>Tokens and the error flag are only ever added.\<close>

lemma scan_pattern_extends:
  "scan_pattern p i nstr vec err out = (vec', err', out') \<Longrightarrow>
     set vec \<subseteq> set vec' \<and> (err \<longrightarrow> err')"
proof (induction p i nstr vec err out arbitrary: vec' err' out' rule: scan_pattern.induct)
  case (1 p i nstr vec err out)
  note eq = "1.prems" [unfolded scan_pattern.simps [of p i nstr vec err out]]
  obtain n st str fmt where sp: "scan_spec p i (i + 1) 0 0 [] [] = (n, st, str, fmt)"
    by (metis prod_cases4)
  note spec_IH = "1.IH"(3,4) [OF _ _ _ sp [symmetric] refl refl]
  consider (fin) "\<not> i < length p"
    | (lit) "i < length p" "p ! i \<noteq> CHR ''%''"
    | (esc) "i < length p" "p ! i = CHR ''%''" "i + 1 < length p \<and> p ! (i + 1) = CHR ''%''"
    | (ok) "i < length p" "p ! i = CHR ''%''" "\<not> (i + 1 < length p \<and> p ! (i + 1) = CHR ''%'')" "st = 0"
    | (bad) "i < length p" "p ! i = CHR ''%''" "\<not> (i + 1 < length p \<and> p ! (i + 1) = CHR ''%'')" "st \<noteq> 0"
    by blast
  then show ?case
  proof cases
    case fin
    with eq show ?thesis by (auto split: if_splits)
  next
    case lit
    with eq "1.IH"(1) show ?thesis by simp
  next
    case esc
    with eq "1.IH"(2) show ?thesis by simp
  next
    case ok
    with eq sp have "scan_pattern p (n - 1 + 1) []
        ((if nstr \<noteq> [] then vec @ [(nstr, [], 0)] else vec) @ [(str, fmt, 1)]) err out =
      (vec', err', out')" by (auto simp del: One_nat_def add_Suc_right)
    from spec_IH(1) [OF ok(1) _ ok(3,4) this] ok(2) show ?thesis by (auto split: if_splits)
  next
    case bad
    with eq sp have "scan_pattern p (i + 1) nstr (vec @ [(''<<pattern_error>>'', fmt, 0)]) True
        (out @ pattern_error_msg p i) = (vec', err', out')"
      by (auto simp del: One_nat_def add_Suc_right)
    from spec_IH(2) [OF bad(1) _ bad(3,4) this] bad(2) show ?thesis by auto
  qed
qed

section \<open>From tokens to items\<close>

lemma build_items_eq:
  "build_items ts items err =
     (items @ map (fst \<circ> token_item) ts, err \<or> (\<exists>t \<in> set ts. snd (token_item t)))"
  by (induction ts arbitrary: items err) (auto split: prod.splits)

definition piece_item :: "piece \<Rightarrow> format_item" where
  "piece_item x = fst (token_item (piece_token x))"

fun unknown_conv :: "piece \<Rightarrow> bool" where
  "unknown_conv (Lit s) = False"
| "unknown_conv (Conv k a) \<longleftrightarrow> s_format_items k = None"

lemma token_item_error: "snd (token_item (piece_token x)) = unknown_conv x"
  by (cases x rule: piece_token.cases) (auto split: option.splits)

lemma LogFormatter_scan:
  assumes "scan_pattern p 0 [] [] False [] = (vec, err, out)"
  shows "LogFormatter p =
    (\<lparr>fm_pattern = p, fm_items = map (fst \<circ> token_item) vec,
      fm_error = err \<or> (\<exists>t \<in> set vec. snd (token_item t))\<rparr>, out)"
  by (simp add: LogFormatter_def assms build_items_eq)

lemma LogFormatter_pieces:
  assumes "wf_pieces ps"
  shows "LogFormatter (pattern_text ps) =
    (\<lparr>fm_pattern = pattern_text ps, fm_items = map piece_item ps,
      fm_error = list_ex unknown_conv ps\<rparr>, [])"
proof -
  have "scan_pattern (pattern_text ps) 0 [] [] False [] = (map piece_token ps, False, [])"
    using scan_pattern_pieces [OF assms, of "[]" "[]"] by simp
  from LogFormatter_scan [OF this] show ?thesis
    by (simp add: piece_item_def token_item_error list_ex_iff fun_eq_iff)
qed

section \<open>The conversions as documented\<close>

text \<open>
  The list of conversions in the comment of the \<open>LogFormatter\<close> constructor (gwn/log.h), as
  the text each produces for an event.
\<close>

fun piece_output :: "fmt_env \<Rightarrow> log_level \<Rightarrow> log_event \<Rightarrow> piece \<Rightarrow> string" where
  "piece_output env level e (Lit s) = s"
| "piece_output env level e (Conv k a) =
     (if k = ''m'' then ev_content e
      else if k = ''p'' then LogLevel_ToString level
      else if k = ''r'' then dec_u32 (ev_elapse e)
      else if k = ''c'' then logger_name env (ev_logger e)
      else if k = ''t'' then dec_u32 (ev_threadId e)
      else if k = ''n'' then [newline]
      else if k = ''d'' then
        strftime64 env (case a of Some f \<Rightarrow> if f = [] then default_time_format else f
                                | None \<Rightarrow> default_time_format) (ev_time e)
      else if k = ''f'' then ev_file e
      else if k = ''l'' then dec_i32 (ev_line e)
      else if k = ''T'' then [tabulator]
      else if k = ''F'' then dec_u32 (ev_fiberId e)
      else if k = ''N'' then ev_threadName e
      else error_format_text k)"

lemma item_format_piece [simp]:
  "item_format env (piece_item x) level e = piece_output env level e x"
  by (cases x rule: piece_token.cases)
     (simp_all add: piece_item_def s_format_items_def DateTimeFormatItem_new_def)

lemma spec_end_simps [simp]:
  "spec_end CHR ''%''" "\<not> spec_end CHR ''{''" "\<not> spec_end CHR ''}''"
  by (simp_all add: spec_end_def)

lemma scan_pattern_escape:
  assumes "CHR ''%'' \<notin> set s"
  shows "scan_pattern (s @ ''%%'' @ t) 0 [] [] False [] =
         scan_pattern ((s @ ''%'') @ CHR ''%'' # t) (length (s @ ''%'')) (s @ ''%'') [] False []"
proof -
  have "scan_pattern (s @ ''%%'' @ t) 0 [] [] False [] =
        scan_pattern (s @ ''%%'' @ t) (length s) s [] False []"
    using scan_pattern_literal [OF assms, of "[]" "''%%'' @ t" "[]"] by simp
  moreover have "(s @ CHR ''%'' # CHR ''%'' # t) ! Suc (length s) = CHR ''%''"
    using nth_at_length [of "s @ ''%''" "CHR ''%''" t] by simp
  ultimately show ?thesis
    by simp (subst scan_pattern.simps, simp)
qed

section \<open>Properties of the formatter\<close>

text \<open>
  C1: Scanning the text of a well-formed pattern recovers its pieces: the items of the
  formatter are those of the pieces in order, the error flag says whether some conversion is
  unknown, and nothing is written to the console.
\<close>

theorem formatter_roundtrip:
  assumes "wf_pieces ps"
  shows "LogFormatter (pattern_text ps) =
    (\<lparr>fm_pattern = pattern_text ps, fm_items = map piece_item ps,
      fm_error = list_ex unknown_conv ps\<rparr>, [])"
  using assms by (rule LogFormatter_pieces)

theorem formatter_roundtrip_witness:
  "LogFormatter ''[%p] %d{%H:%M}%x'' =
    (\<lparr>fm_pattern = ''[%p] %d{%H:%M}%x'',
      fm_items = [StringFormatItem ''['', LevelFormatItem, StringFormatItem ''] '',
                  DateTimeFormatItem ''%H:%M'', StringFormatItem ''<<error_format %x>>''],
      fm_error = True\<rparr>, [])"
proof -
  let ?ps = "[Lit ''['', Conv ''p'' None, Lit ''] '', Conv ''d'' (Some ''%H:%M''), Conv ''x'' None]"
  have "wf_pieces ?ps" by (simp add: spec_end_def isalpha_def)
  from formatter_roundtrip [OF this] show ?thesis
    by (simp add: piece_item_def s_format_items_def DateTimeFormatItem_new_def
        error_format_text_def)
qed

text \<open>
  C32: The text a formatter writes for an event is, piece by piece, what the documentation of
  the conversions promises: literals unchanged, the field of the event for each letter, and
  an error marker in place of an unknown letter.
\<close>

theorem formatter_output:
  assumes "wf_pieces ps"
  shows "LogFormatter_format env (fst (LogFormatter (pattern_text ps))) level e =
    concat (map (piece_output env level e) ps)"
  by (simp add: LogFormatter_pieces [OF assms] comp_def)

definition example_env :: fmt_env where
  "example_env = \<lparr>logger_name = (\<lambda>_. ''root''), strftime64 = (\<lambda>f t. f)\<rparr>"

theorem formatter_output_witness:
  "LogFormatter_format example_env (fst (LogFormatter ''%p: %m'')) WARN
     (event_stream ''hi'' (LogEvent 0 WARN ''a.cc'' 7 0 1 2 3 ''t'')) = ''WARN: hi''"
proof -
  have "wf_pieces [Conv ''p'' None, Lit '': '', Conv ''m'' None]"
    by (simp add: spec_end_def isalpha_def)
  from formatter_output [OF this, of example_env WARN
      "event_stream ''hi'' (LogEvent 0 WARN ''a.cc'' 7 0 1 2 3 ''t'')"]
  show ?thesis by (simp add: LogEvent_def event_stream_def LogLevel_ToString_def)
qed

text \<open>
  A conversion whose brace is never closed is reported: the message names the pattern and
  the rest of it from the percent sign, the error flag is set, and the marker is put in front
  of the literal text, which keeps the letter, the brace and the argument but not the percent
  sign.
\<close>

theorem unclosed_brace_reported:
  assumes "CHR ''%'' \<notin> set (s @ k @ a)" and "list_all isalpha k" and "k \<noteq> []"
    and "CHR ''}'' \<notin> set a"
  shows "LogFormatter (s @ ''%'' @ k @ ''{'' @ a) =
    (\<lparr>fm_pattern = s @ ''%'' @ k @ ''{'' @ a,
      fm_items = [StringFormatItem ''<<pattern_error>>'', StringFormatItem (s @ k @ ''{'' @ a)],
      fm_error = True\<rparr>,
     ''pattern parse error: '' @ (s @ ''%'' @ k @ ''{'' @ a) @ '' - '' @
       (''%'' @ k @ ''{'' @ a) @ [newline])"
proof -
  let ?p = "s @ ''%'' @ k @ ''{'' @ a"
  obtain c k' where k: "k = c # k'" "c \<noteq> CHR ''%''" using assms by (cases k) auto
  have nth: "?p ! Suc (length s) = c"
    using nth_at_length [of "s @ ''%''" c "k' @ ''{'' @ a"] k by simp
  have lit: "CHR ''%'' \<notin> set s" "CHR ''%'' \<notin> set (k @ ''{'' @ a)" using assms by auto
  have "scan_pattern ?p 0 [] [] False [] = scan_pattern ?p (length s) s [] False []"
    using scan_pattern_literal [OF lit(1), of "[]" "''%'' @ k @ ''{'' @ a" "[]"] by simp
  also have "\<dots> = scan_pattern ((s @ ''%'') @ (k @ ''{'' @ a) @ []) (length (s @ ''%'')) s
      [(''<<pattern_error>>'', [], 0)] True (pattern_error_msg ?p (length s))"
    using scan_spec_unclosed [OF assms(2,3,4), of s] nth k
    by (subst scan_pattern.simps) simp
  also have "\<dots> = ([(''<<pattern_error>>'', [], 0), (s @ k @ ''{'' @ a, [], 0)], True,
      pattern_error_msg ?p (length s))"
    using scan_pattern_literal [OF lit(2), of "s @ ''%''" "[]"]
      scan_pattern_end [of "s @ ''%'' @ k @ ''{'' @ a"]
    by (simp add: flush_lit_def)
  finally have r: "scan_pattern ?p 0 [] [] False [] =
      ([(''<<pattern_error>>'', [], 0), (s @ k @ ''{'' @ a, [], 0)], True,
       pattern_error_msg ?p (length s))" .
  from LogFormatter_scan [OF r] show ?thesis
    by (simp add: pattern_error_msg_def substr_from_def)
qed

theorem unclosed_brace_reported_witness:
  "LogFormatter ''at %d{H'' =
    (\<lparr>fm_pattern = ''at %d{H'',
      fm_items = [StringFormatItem ''<<pattern_error>>'', StringFormatItem ''at d{H''],
      fm_error = True\<rparr>,
     ''pattern parse error: at %d{H - %d{H'' @ [newline])"
  using unclosed_brace_reported [of "''at ''" "''d''" "''H''"] by (simp add: isalpha_def)

text \<open>
  The escape for a percent sign does not work as the comment above \<open>init\<close> lists it: the
  scanner consumes only the first of two percent signs, so \<open>%%\<close> followed by a known letter
  is a literal percent sign and then the conversion of that letter.
\<close>

theorem percent_escape_then_conversion:
  assumes "CHR ''%'' \<notin> set s" and "s_format_items [c] = Some C" and "isalpha c"
  shows "LogFormatter (s @ ''%%'' @ [c]) =
    (\<lparr>fm_pattern = s @ ''%%'' @ [c], fm_items = [StringFormatItem (s @ ''%''), C []],
      fm_error = False\<rparr>, [])"
proof -
  have "wf_pieces [Conv [c] None]" using assms(3) by simp
  from scan_pattern_pieces [OF this, of "s @ ''%''" "s @ ''%''" "[]" False "[]"]
  have "scan_pattern (s @ ''%%'' @ [c]) 0 [] [] False [] =
      ([(s @ ''%'', [], 0), ([c], [], 1)], False, [])"
    using scan_pattern_escape [OF assms(1), of "[c]"] by (simp add: flush_lit_def)
  from LogFormatter_scan [OF this] show ?thesis by (simp add: assms(2))
qed

theorem percent_escape_then_conversion_witness:
  "fm_items (fst (LogFormatter ''100%%m'')) = [StringFormatItem ''100%'', MessageFormatItem]"
  using percent_escape_then_conversion [of "''100''" "CHR ''m''" "\<lambda>_. MessageFormatItem"]
  by (simp add: s_format_items_def isalpha_def)

text \<open>
  A pattern in which \<open>%%\<close> is not followed by a letter, a brace or a third percent sign
  is rejected: the formatter has its error flag set, so \<open>Logger::setFormatter\<close> refuses it.
\<close>

theorem percent_escape_rejected:
  assumes "CHR ''%'' \<notin> set s" and "t = [] \<or> (spec_end (hd t) \<and> hd t \<noteq> CHR ''%'')"
  shows "fm_error (fst (LogFormatter (s @ ''%%'' @ t)))"
proof -
  let ?q = "s @ ''%''"
  have spec: "scan_spec (?q @ CHR ''%'' # t) (length ?q) (length ?q + 1) 0 0 [] [] =
      (length ?q + 1, 0, [], [])"
    using scan_spec_plain [of "[]" t ?q] assms(2) by auto
  have nxt: "t \<noteq> [] \<Longrightarrow> (?q @ CHR ''%'' # t) ! Suc (length ?q) = hd t"
    using nth_at_length [of "s @ ''%%''" "hd t" "tl t"] by (cases t) simp_all
  obtain vec err out where r: "scan_pattern (s @ ''%%'' @ t) 0 [] [] False [] = (vec, err, out)"
    by (metis prod_cases3)
  have "scan_pattern (?q @ CHR ''%'' # t) (length ?q) ?q [] False [] =
      scan_pattern (?q @ CHR ''%'' # t) (length ?q + 1) [] (flush_lit ?q [] @ [([], [], 1)]) False []"
    by (subst scan_pattern.simps) (use assms(2) nxt spec in \<open>cases t; simp add: flush_lit_def\<close>)
  with r scan_pattern_escape [OF assms(1), of t]
  have "scan_pattern (?q @ CHR ''%'' # t) (length ?q + 1) [] (flush_lit ?q [] @ [([], [], 1)])
      False [] = (vec, err, out)" by simp
  from scan_pattern_extends [OF this] have "([], [], 1) \<in> set vec" by simp
  then have "\<exists>t \<in> set vec. snd (token_item t)"
    by (rule rev_bexI) (simp add: s_format_items_def)
  with LogFormatter_scan [OF r] show ?thesis by simp
qed

theorem percent_escape_rejected_witness:
  "fm_error (fst (LogFormatter ''100%% done: %m''))"
  using percent_escape_rejected [of "''100''" "'' done: %m''"]
  by (simp add: spec_end_def isalpha_def)

end
