(* ===== verification/Log_Appender.thy ===== *)
theory Log_Appender
  imports Log_Pattern
begin

text \<open>
  \<open>LogAppender\<close> and its two implementations, \<open>StdoutLogAppender\<close> and \<open>FileLogAppender\<close>
  (gwn/log.h, gwn/log.cc), over the world they write to: the console and the files. An
  \<open>std::ofstream\<close> is the file it has open, the write position and the fail state, with the
  behaviour of \<open>open\<close>, \<open>close\<close> and insertion from the C++ standard; characters reach
  the file at once (the content of a file is what a reader sees after a flush).
\<close>

section \<open>Console, files and file streams\<close>

record world =
  w_cout :: string
  w_files :: "string \<Rightarrow> string option"
  w_openable :: "string \<Rightarrow> bool"

definition cout :: "string \<Rightarrow> world \<Rightarrow> world" where
  "cout s w = w\<lparr>w_cout := w_cout w @ s\<rparr>"

record ofstream =
  os_file :: "string option"
  os_pos :: nat
  os_fail :: bool

definition ofstream_new :: ofstream where
  "ofstream_new = \<lparr>os_file = None, os_pos = 0, os_fail = False\<rparr>"

text \<open>Closing a stream that is not open sets the fail state.\<close>

definition ofstream_close :: "ofstream \<Rightarrow> ofstream" where
  "ofstream_close os =
     (case os_file os of None \<Rightarrow> os\<lparr>os_fail := True\<rparr> | Some f \<Rightarrow> os\<lparr>os_file := None\<rparr>)"

text \<open>
  \<open>open(name)\<close> with the default mode \<open>out\<close> creates or truncates the file and clears the
  fail state; it fails when a file is already open or the name cannot be opened.
\<close>

definition ofstream_open :: "string \<Rightarrow> ofstream \<Rightarrow> world \<Rightarrow> ofstream \<times> world" where
  "ofstream_open f os w =
     (if os_file os \<noteq> None \<or> \<not> w_openable w f then (os\<lparr>os_fail := True\<rparr>, w)
      else (\<lparr>os_file = Some f, os_pos = 0, os_fail = False\<rparr>,
            w\<lparr>w_files := (w_files w)(f \<mapsto> [])\<rparr>))"

text \<open>Writing at a position: a gap is filled with NUL bytes, what lies under the text is replaced.\<close>

definition write_at :: "nat \<Rightarrow> string \<Rightarrow> string \<Rightarrow> string" where
  "write_at pos s c =
     take pos (c @ replicate (pos - length c) (char_of (0::nat))) @ s @ drop (pos + length s) c"

definition ofstream_write :: "string \<Rightarrow> ofstream \<Rightarrow> world \<Rightarrow> ofstream \<times> world" where
  "ofstream_write s os w =
     (if os_fail os \<or> s = [] then (os, w)
      else (case os_file os of
              None \<Rightarrow> (os\<lparr>os_fail := True\<rparr>, w)
            | Some f \<Rightarrow>
                (os\<lparr>os_pos := os_pos os + length s\<rparr>,
                 w\<lparr>w_files := (w_files w)(f \<mapsto> write_at (os_pos os) s
                    (case w_files w f of None \<Rightarrow> [] | Some c \<Rightarrow> c))\<rparr>)))"

lemma write_at_end [simp]: "write_at (length c) s c = c @ s"
  by (simp add: write_at_def)

section \<open>Appenders\<close>

record file_state =
  fa_filename :: string
  fa_filestream :: ofstream
  fa_lastTime :: u64

datatype appender_impl = StdoutAppender | FileAppender file_state

record log_appender =
  ap_level :: log_level
  ap_hasFormatter :: bool
  ap_formatter :: "log_formatter option"
  ap_impl :: appender_impl

text \<open>Dereferencing a null formatter or logger, or taking a spin lock one already holds.\<close>

datatype log_error = NullFormatter | NullLogger | NullAppender | SelfDeadlock

definition LogAppender_setFormatter :: "log_formatter option \<Rightarrow> log_appender \<Rightarrow> log_appender" where
  "LogAppender_setFormatter val ap =
     (if val \<noteq> None then ap\<lparr>ap_formatter := val, ap_hasFormatter := True\<rparr>
      else ap\<lparr>ap_formatter := val, ap_hasFormatter := False\<rparr>)"

definition LogAppender_getFormatter :: "log_appender \<Rightarrow> log_formatter option" where
  "LogAppender_getFormatter ap = ap_formatter ap"

definition LogAppender_setLevel :: "log_level \<Rightarrow> log_appender \<Rightarrow> log_appender" where
  "LogAppender_setLevel l ap = ap\<lparr>ap_level := l\<rparr>"

definition StdoutLogAppender :: log_appender where
  "StdoutLogAppender =
     \<lparr>ap_level = DEBUG, ap_hasFormatter = False, ap_formatter = None, ap_impl = StdoutAppender\<rparr>"

definition FileLogAppender_reopen :: "file_state \<Rightarrow> world \<Rightarrow> bool \<times> file_state \<times> world" where
  "FileLogAppender_reopen fa w =
     (let os1 = (if \<not> os_fail (fa_filestream fa) then ofstream_close (fa_filestream fa)
                 else fa_filestream fa)
      in case ofstream_open (fa_filename fa) os1 w of
           (os2, w') \<Rightarrow> (\<not> os_fail os2, fa\<lparr>fa_filestream := os2\<rparr>, w'))"

definition FileLogAppender :: "string \<Rightarrow> world \<Rightarrow> log_appender \<times> world" where
  "FileLogAppender filename w =
     (case FileLogAppender_reopen
             \<lparr>fa_filename = filename, fa_filestream = ofstream_new, fa_lastTime = 0\<rparr> w of
        (_, fa, w') \<Rightarrow>
          (\<lparr>ap_level = DEBUG, ap_hasFormatter = False, ap_formatter = None,
            ap_impl = FileAppender fa\<rparr>, w'))"

definition StdoutLogAppender_log ::
  "fmt_env \<Rightarrow> log_appender \<Rightarrow> log_level \<Rightarrow> log_event \<Rightarrow> world \<Rightarrow> log_error + log_appender \<times> world"
where
  "StdoutLogAppender_log env ap level e w =
     (if ap_level ap \<le> level
      then (case ap_formatter ap of
              None \<Rightarrow> Inl NullFormatter
            | Some f \<Rightarrow> Inr (ap, cout (LogFormatter_format env f level e) w))
      else Inr (ap, w))"

definition FileLogAppender_log ::
  "fmt_env \<Rightarrow> log_appender \<Rightarrow> file_state \<Rightarrow> log_level \<Rightarrow> log_event \<Rightarrow> world \<Rightarrow>
     log_error + log_appender \<times> world"
where
  "FileLogAppender_log env ap fa level e w =
     (if ap_level ap \<le> level
      then
        (let now = ev_time e;
             (fa1, w1) = (if fa_lastTime fa + 3 \<le> now
                          then (case FileLogAppender_reopen fa w of
                                  (_, fa', w') \<Rightarrow> (fa'\<lparr>fa_lastTime := now\<rparr>, w'))
                          else (fa, w))
         in case ap_formatter ap of
              None \<Rightarrow> Inl NullFormatter
            | Some f \<Rightarrow>
                (case ofstream_write (LogFormatter_format env f level e) (fa_filestream fa1) w1 of
                   (os, w2) \<Rightarrow>
                     Inr (ap\<lparr>ap_impl := FileAppender (fa1\<lparr>fa_filestream := os\<rparr>)\<rparr>,
                          if os_fail os then cout (''error'' @ [newline]) w2 else w2)))
      else Inr (ap, w))"

text \<open>The virtual call \<open>appender->log(...)\<close>.\<close>

fun LogAppender_log ::
  "fmt_env \<Rightarrow> log_appender \<Rightarrow> log_level \<Rightarrow> log_event \<Rightarrow> world \<Rightarrow> log_error + log_appender \<times> world"
where
  "LogAppender_log env ap level e w =
     (case ap_impl ap of
        StdoutAppender \<Rightarrow> StdoutLogAppender_log env ap level e w
      | FileAppender fa \<Rightarrow> FileLogAppender_log env ap fa level e w)"

declare LogAppender_log.simps [simp del]

section \<open>The contract of an appender\<close>

text \<open>
  What \<open>Logger::log\<close> relies on when it calls the virtual \<open>log\<close> of an appender: an event
  below the appender's level has no effect, an appender with a formatter never fails, and the
  level and the formatter stay as they are.
\<close>

locale appender_contract =
  fixes log :: "log_appender \<Rightarrow> log_level \<Rightarrow> log_event \<Rightarrow> world \<Rightarrow> log_error + log_appender \<times> world"
  assumes gate: "\<not> ap_level ap \<le> level \<Longrightarrow> log ap level e w = Inr (ap, w)"
    and total: "ap_formatter ap \<noteq> None \<Longrightarrow> \<exists>ap' w'. log ap level e w = Inr (ap', w')"
    and frame: "log ap level e w = Inr (ap', w') \<Longrightarrow>
      ap_level ap' = ap_level ap \<and> ap_hasFormatter ap' = ap_hasFormatter ap \<and>
      ap_formatter ap' = ap_formatter ap"
    and fails_only_null: "log ap level e w = Inl er \<Longrightarrow> er = NullFormatter \<and> ap_formatter ap = None"
begin

lemma no_error: "ap_formatter ap \<noteq> None \<Longrightarrow> log ap level e w \<noteq> Inl er"
  by (metis fails_only_null)

lemma result_cases:
  obtains (ok) ap' w' where "log ap level e w = Inr (ap', w')" "ap_level ap' = ap_level ap"
      "ap_hasFormatter ap' = ap_hasFormatter ap" "ap_formatter ap' = ap_formatter ap"
  | (null) "log ap level e w = Inl NullFormatter" "ap_formatter ap = None" "ap_level ap \<le> level"
proof (cases "log ap level e w")
  case (Inl er)
  with fails_only_null [OF Inl] gate [of ap level e w] show thesis
    by (intro null) auto
next
  case (Inr r)
  then obtain ap' w' where "log ap level e w = Inr (ap', w')" by (cases r) auto
  from frame [OF this] this show thesis by (intro ok [of ap' w']) simp_all
qed

end

lemma StdoutLogAppender_log_cases [gwn_unfold]:
  "StdoutLogAppender_log env ap level e w =
     (if \<not> ap_level ap \<le> level then Inr (ap, w)
      else case ap_formatter ap of None \<Rightarrow> Inl NullFormatter
         | Some f \<Rightarrow> Inr (ap, cout (LogFormatter_format env f level e) w))"
  by (simp add: StdoutLogAppender_log_def)

interpretation stdout_log: appender_contract "StdoutLogAppender_log env"
  by unfold_locales
     (auto simp: StdoutLogAppender_log_def split: if_splits option.splits)

interpretation file_log: appender_contract "\<lambda>ap. FileLogAppender_log env ap fa"
  by unfold_locales
     (auto simp: FileLogAppender_log_def Let_def split: if_splits option.splits prod.splits)

interpretation any_log: appender_contract "LogAppender_log env"
proof (unfold_locales, goal_cases)
  case (1 ap level e w)
  then show ?case
    by (auto simp: LogAppender_log.simps stdout_log.gate file_log.gate split: appender_impl.splits)
next
  case (2 ap level e w)
  then show ?case
    using stdout_log.total [of ap] file_log.total [of ap]
    by (simp add: LogAppender_log.simps split: appender_impl.splits)
next
  case (3 ap level e w ap' w')
  then show ?case
    by (auto simp: LogAppender_log.simps dest: stdout_log.frame file_log.frame
        split: appender_impl.splits)
next
  case (4 ap level e w er)
  then show ?case
    by (auto simp: LogAppender_log.simps dest: stdout_log.fails_only_null file_log.fails_only_null
        split: appender_impl.splits)
qed

section \<open>A file appender over a sequence of events\<close>

text \<open>A sequence of calls of \<open>log\<close> on one appender, stopping at the first failure.\<close>

fun log_calls ::
  "(log_appender \<Rightarrow> log_level \<Rightarrow> log_event \<Rightarrow> world \<Rightarrow> log_error + log_appender \<times> world) \<Rightarrow>
     log_appender \<Rightarrow> (log_level \<times> log_event) list \<Rightarrow> world \<Rightarrow> log_error + log_appender \<times> world"
where
  "log_calls log ap [] w = Inr (ap, w)"
| "log_calls log ap ((level, e) # es) w =
     (case log ap level e w of
        Inl er \<Rightarrow> Inl er
      | Inr (ap', w') \<Rightarrow> log_calls log ap' es w')"

context appender_contract
begin

lemma log_calls_total:
  "ap_formatter ap \<noteq> None \<Longrightarrow> \<exists>ap' w'. log_calls log ap es w = Inr (ap', w')"
proof (induction es arbitrary: ap w)
  case Nil
  then show ?case by simp
next
  case (Cons x es)
  obtain level e where x: "x = (level, e)" by force
  from total [OF Cons.prems, of level e w] obtain ap1 w1 where 1: "log ap level e w = Inr (ap1, w1)"
    by blast
  with frame [OF 1] Cons.prems have "ap_formatter ap1 \<noteq> None" by simp
  from Cons.IH [OF this] show ?case by (simp add: x 1)
qed

lemma log_calls_frame:
  "log_calls log ap es w = Inr (ap', w') \<Longrightarrow>
     ap_level ap' = ap_level ap \<and> ap_formatter ap' = ap_formatter ap"
proof (induction es arbitrary: ap w)
  case Nil
  then show ?case by simp
next
  case (Cons x es)
  obtain level e where x: "x = (level, e)" by force
  with Cons.prems obtain ap1 w1 where 1: "log ap level e w = Inr (ap1, w1)"
    and 2: "log_calls log ap1 es w1 = Inr (ap', w')"
    by (auto split: sum.splits)
  from Cons.IH [OF 2] frame [OF 1] show ?case by simp
qed

end

text \<open>
  What the file of an appender should hold, as a function of the events alone: \<open>t0\<close> is the
  time of the last reopening and \<open>acc\<close> what was written since then.
\<close>

fun file_spec ::
  "(log_level \<Rightarrow> log_event \<Rightarrow> string) \<Rightarrow> log_level \<Rightarrow> u64 \<Rightarrow> string \<Rightarrow>
     (log_level \<times> log_event) list \<Rightarrow> string"
where
  "file_spec text lim t0 acc [] = acc"
| "file_spec text lim t0 acc ((level, e) # es) =
     (if \<not> lim \<le> level then file_spec text lim t0 acc es
      else if t0 + 3 \<le> ev_time e then file_spec text lim (ev_time e) (text level e) es
      else file_spec text lim t0 (acc @ text level e) es)"

text \<open>The stream of the appender is open at the end of the file, which holds \<open>acc\<close>.\<close>

definition file_at_end :: "file_state \<Rightarrow> string \<Rightarrow> world \<Rightarrow> bool" where
  "file_at_end fa acc w \<longleftrightarrow>
     fa_filestream fa = \<lparr>os_file = Some (fa_filename fa), os_pos = length acc, os_fail = False\<rparr> \<and>
     w_files w (fa_filename fa) = Some acc \<and> w_openable w (fa_filename fa)"

lemma reopen_at_end:
  assumes "file_at_end fa acc w"
  obtains fa' w' where "FileLogAppender_reopen fa w = (True, fa', w')" "file_at_end fa' [] w'"
    "fa_filename fa' = fa_filename fa"
  using assms
  by (auto simp: file_at_end_def FileLogAppender_reopen_def ofstream_close_def ofstream_open_def)

lemma write_file_at_end:
  assumes "file_at_end fa acc w"
  obtains os w' where "ofstream_write s (fa_filestream fa) w = (os, w')" "\<not> os_fail os"
    "file_at_end (fa\<lparr>fa_filestream := os\<rparr>) (acc @ s) w'"
  using assms
  by (cases "s = []") (auto simp: file_at_end_def ofstream_write_def)

lemma file_at_end_lastTime [simp]:
  "file_at_end (fa\<lparr>fa_lastTime := t\<rparr>) acc w = file_at_end fa acc w"
  by (simp add: file_at_end_def)

lemma FileLogAppender_log_at_end:
  assumes inv: "file_at_end fa acc w" and f: "ap_formatter ap = Some f"
    and level: "ap_level ap \<le> level"
  shows "\<exists>fa' w'.
    FileLogAppender_log env ap fa level e w = Inr (ap\<lparr>ap_impl := FileAppender fa'\<rparr>, w') \<and>
    fa_filename fa' = fa_filename fa \<and>
    (if fa_lastTime fa + 3 \<le> ev_time e
     then fa_lastTime fa' = ev_time e \<and> file_at_end fa' (LogFormatter_format env f level e) w'
     else fa_lastTime fa' = fa_lastTime fa \<and>
          file_at_end fa' (acc @ LogFormatter_format env f level e) w')"
proof (cases "fa_lastTime fa + 3 \<le> ev_time e")
  case True
  obtain fa1 w1 where 1: "FileLogAppender_reopen fa w = (True, fa1, w1)" "file_at_end fa1 [] w1"
    "fa_filename fa1 = fa_filename fa" by (rule reopen_at_end [OF inv])
  have "file_at_end (fa1\<lparr>fa_lastTime := ev_time e\<rparr>) [] w1" using 1 by simp
  then obtain os w2 where "ofstream_write (LogFormatter_format env f level e) (fa_filestream fa1) w1
      = (os, w2)" "\<not> os_fail os" "file_at_end (fa1\<lparr>fa_lastTime := ev_time e, fa_filestream := os\<rparr>)
      (LogFormatter_format env f level e) w2"
    by (rule write_file_at_end [where s = "LogFormatter_format env f level e"])
       (simp del: LogFormatter_format.simps)
  with True 1 f level show ?thesis
    by (intro exI [of _ "fa1\<lparr>fa_lastTime := ev_time e, fa_filestream := os\<rparr>"] exI [of _ w2])
       (simp add: FileLogAppender_log_def Let_def del: LogFormatter_format.simps)
next
  case False
  obtain os w2 where "ofstream_write (LogFormatter_format env f level e) (fa_filestream fa) w
      = (os, w2)" "\<not> os_fail os" "file_at_end (fa\<lparr>fa_filestream := os\<rparr>)
      (acc @ LogFormatter_format env f level e) w2"
    by (rule write_file_at_end [OF inv])
  with False f level show ?thesis
    by (intro exI [of _ "fa\<lparr>fa_filestream := os\<rparr>"] exI [of _ w2])
       (simp add: FileLogAppender_log_def Let_def del: LogFormatter_format.simps)
qed

lemma file_run_spec:
  assumes "file_at_end fa acc w" and "ap_formatter ap = Some f" and "ap_impl ap = FileAppender fa"
  shows "\<exists>ap' w'. log_calls (LogAppender_log env) ap es w = Inr (ap', w') \<and>
    w_files w' (fa_filename fa) =
      Some (file_spec (LogFormatter_format env f) (ap_level ap) (fa_lastTime fa) acc es)"
  using assms
proof (induction es arbitrary: fa acc w ap)
  case Nil
  then show ?case by (simp add: file_at_end_def)
next
  case (Cons x es)
  obtain level e where x: "x = (level, e)" by force
  show ?case
  proof (cases "ap_level ap \<le> level")
    case False
    then show ?thesis using Cons by (simp add: x any_log.gate)
  next
    case True
    from FileLogAppender_log_at_end [OF Cons.prems(1,2) True, of env e] obtain fa' w' where
      step: "LogAppender_log env ap level e w = Inr (ap\<lparr>ap_impl := FileAppender fa'\<rparr>, w')"
      and name: "fa_filename fa' = fa_filename fa"
      and at: "if fa_lastTime fa + 3 \<le> ev_time e
       then fa_lastTime fa' = ev_time e \<and> file_at_end fa' (LogFormatter_format env f level e) w'
       else fa_lastTime fa' = fa_lastTime fa \<and>
            file_at_end fa' (acc @ LogFormatter_format env f level e) w'"
      by (auto simp: LogAppender_log.simps Cons.prems(3) simp del: LogFormatter_format.simps)
    from at True Cons.IH [of fa' _ w' "ap\<lparr>ap_impl := FileAppender fa'\<rparr>"] Cons.prems(2) name
    show ?thesis
      by (auto simp: x step simp del: LogFormatter_format.simps split: if_splits)
  qed
qed

section \<open>Properties of the appenders\<close>

text \<open>
  C31: A file appender over any sequence of events implements \<open>file_spec\<close>: no call fails, and
  the file ends up with the texts of the events at or above the level, in order, that were
  logged since the stream was last reopened. Reopening happens when an event is three seconds
  or more past the last one that reopened, and truncates: what was logged before is lost.
\<close>

theorem file_appender_refines_spec:
  assumes "ap_impl ap = FileAppender fa" and "ap_formatter ap = Some f" and "file_at_end fa acc w"
  shows "\<exists>ap' w'. log_calls (LogAppender_log env) ap es w = Inr (ap', w') \<and>
    w_files w' (fa_filename fa) =
      Some (file_spec (LogFormatter_format env f) (ap_level ap) (fa_lastTime fa) acc es)"
  using assms by (intro file_run_spec)

definition example_world :: world where
  "example_world = \<lparr>w_cout = [], w_files = (\<lambda>_. None), w_openable = (\<lambda>_. True)\<rparr>"

definition example_event :: "string \<Rightarrow> u64 \<Rightarrow> log_event" where
  "example_event s t = event_stream s (LogEvent 0 INFO ''a.cc'' 1 0 1 0 t ''main'')"

theorem file_appender_refines_spec_witness:
  "\<exists>ap' w'. log_calls (LogAppender_log example_env)
      (LogAppender_setFormatter (Some (fst (LogFormatter ''%m'')))
         (fst (FileLogAppender ''log.txt'' example_world)))
      [(INFO, example_event ''a'' 10), (INFO, example_event ''b'' 12), (INFO, example_event ''c'' 13)]
      (snd (FileLogAppender ''log.txt'' example_world)) = Inr (ap', w') \<and>
    w_files w' ''log.txt'' = Some ''c''"
proof -
  let ?f = "fst (LogFormatter ''%m'')"
  let ?fa = "\<lparr>fa_filename = ''log.txt'', fa_filestream = \<lparr>os_file = Some ''log.txt'', os_pos = 0,
     os_fail = False\<rparr>, fa_lastTime = 0\<rparr>"
  let ?w = "example_world\<lparr>w_files := (w_files example_world)(''log.txt'' \<mapsto> [])\<rparr>"
  have new: "FileLogAppender ''log.txt'' example_world =
      (\<lparr>ap_level = DEBUG, ap_hasFormatter = False, ap_formatter = None,
        ap_impl = FileAppender ?fa\<rparr>, ?w)"
    by (simp add: FileLogAppender_def FileLogAppender_reopen_def ofstream_close_def
        ofstream_open_def ofstream_new_def example_world_def)
  have items: "fm_items ?f = [MessageFormatItem]"
    using LogFormatter_pieces [of "[Conv ''m'' None]"]
    by (simp add: isalpha_def piece_item_def s_format_items_def)
  let ?ap = "LogAppender_setFormatter (Some ?f) (fst (FileLogAppender ''log.txt'' example_world))"
  have "ap_impl ?ap = FileAppender ?fa" "ap_formatter ?ap = Some ?f" "ap_level ?ap = DEBUG"
    by (simp_all add: new LogAppender_setFormatter_def)
  moreover have "file_at_end ?fa [] ?w"
    by (simp add: file_at_end_def example_world_def)
  ultimately show ?thesis
    using file_appender_refines_spec [of ?ap ?fa ?f "[]" ?w example_env "[(INFO, example_event ''a'' 10),
        (INFO, example_event ''b'' 12), (INFO, example_event ''c'' 13)]"]
    by (simp add: new items less_eq_log_level_def example_event_def LogEvent_def event_stream_def)
qed

text \<open>
  Whatever the file held, the first event that is due for a reopening replaces it: after
  that one call the file contains the text of this event and nothing else.
\<close>

theorem due_event_truncates_file:
  assumes "ap_impl ap = FileAppender fa" and "ap_formatter ap = Some f" and "ap_level ap \<le> level"
    and "w_openable w (fa_filename fa)" and "fa_lastTime fa + 3 \<le> ev_time e"
    and "\<not> os_fail (fa_filestream fa)"
  shows "\<exists>ap' w'. LogAppender_log env ap level e w = Inr (ap', w') \<and>
    w_files w' (fa_filename fa) = Some (LogFormatter_format env f level e)"
  using assms
  by (auto simp: LogAppender_log.simps FileLogAppender_log_def FileLogAppender_reopen_def Let_def
      ofstream_close_def ofstream_open_def ofstream_write_def write_at_def cout_def
      simp del: LogFormatter_format.simps split: option.splits)

theorem due_event_truncates_file_witness:
  "\<exists>ap' w'. LogAppender_log example_env
      (LogAppender_setFormatter (Some \<lparr>fm_pattern = ''%m'', fm_items = [MessageFormatItem],
         fm_error = False\<rparr>) (fst (FileLogAppender ''log.txt'' example_world)))
      INFO (example_event ''new'' 100)
      (example_world\<lparr>w_files := [''log.txt'' \<mapsto> ''an hour of messages'']\<rparr>) = Inr (ap', w') \<and>
    w_files w' ''log.txt'' = Some ''new''"
  using due_event_truncates_file [of "LogAppender_setFormatter (Some \<lparr>fm_pattern = ''%m'',
      fm_items = [MessageFormatItem], fm_error = False\<rparr>)
      (fst (FileLogAppender ''log.txt'' example_world))"
      "\<lparr>fa_filename = ''log.txt'', fa_filestream = \<lparr>os_file = Some ''log.txt'', os_pos = 0,
         os_fail = False\<rparr>, fa_lastTime = 0\<rparr>"
      "\<lparr>fm_pattern = ''%m'', fm_items = [MessageFormatItem], fm_error = False\<rparr>" INFO
      "example_world\<lparr>w_files := [''log.txt'' \<mapsto> ''an hour of messages'']\<rparr>"
      "example_event ''new'' 100" example_env]
  by (simp add: FileLogAppender_def FileLogAppender_reopen_def ofstream_close_def
      ofstream_open_def ofstream_new_def example_world_def LogAppender_setFormatter_def
      less_eq_log_level_def example_event_def LogEvent_def event_stream_def)

end
