(* ===== verification/Std_Map.thy ===== *)
theory Std_Map
  imports Gwn_Prelude "HOL-Library.Char_ord" "HOL-Library.List_Lexorder"
begin

text \<open>
  The associative containers of the code: \<open>std::map\<close> as an association list in ascending key
  order (the order in which a range-for visits it), with the operations the code uses:
  \<open>find\<close>, assignment through \<open>operator[]\<close>, and \<open>erase\<close>. The interface is a locale; its
  clients are the logger manager, the listeners of a configuration variable and the registry
  of variables.
\<close>

type_synonym ('k, 'v) std_map = "('k \<times> 'v) list"

fun map_find :: "('k, 'v) std_map \<Rightarrow> 'k \<Rightarrow> 'v option" where
  "map_find [] k = None"
| "map_find ((k', v) # m) k = (if k = k' then Some v else map_find m k)"

fun map_assign :: "'k::linorder \<Rightarrow> 'v \<Rightarrow> ('k, 'v) std_map \<Rightarrow> ('k, 'v) std_map" where
  "map_assign k v [] = [(k, v)]"
| "map_assign k v ((k', v') # m) =
     (if k < k' then (k, v) # (k', v') # m
      else if k = k' then (k, v) # m
      else (k', v') # map_assign k v m)"

fun map_erase :: "'k \<Rightarrow> ('k, 'v) std_map \<Rightarrow> ('k, 'v) std_map" where
  "map_erase k [] = []"
| "map_erase k ((k', v') # m) = (if k = k' then m else (k', v') # map_erase k m)"

definition map_sorted :: "('k::linorder, 'v) std_map \<Rightarrow> bool" where
  "map_sorted m \<longleftrightarrow> sorted_wrt (<) (map fst m)"

lemma map_sorted_Nil [simp]: "map_sorted []"
  by (simp add: map_sorted_def)

lemma map_sorted_Cons [simp]:
  "map_sorted ((k, v) # m) \<longleftrightarrow> (\<forall>k' \<in> fst ` set m. k < k') \<and> map_sorted m"
  by (auto simp: map_sorted_def)

lemma map_find_keys: "map_find m k \<noteq> None \<longleftrightarrow> k \<in> fst ` set m"
  by (induction m k rule: map_find.induct) simp_all

lemma map_find_None: "k \<notin> fst ` set m \<Longrightarrow> map_find m k = None"
  by (induction m k rule: map_find.induct) auto

lemma map_find_below: "\<forall>k' \<in> fst ` set m. (k::'k::linorder) < k' \<Longrightarrow> map_find m k = None"
  by (rule map_find_None) blast

lemma map_find_in: "map_find m k = Some v \<Longrightarrow> (k, v) \<in> set m"
  by (induction m k rule: map_find.induct) (auto split: if_splits)

lemma map_assign_keys: "fst ` set (map_assign k v m) = insert k (fst ` set m)"
  by (induction k v m rule: map_assign.induct) auto

lemma map_erase_keys: "fst ` set (map_erase k m) \<subseteq> fst ` set m"
  by (induction k m rule: map_erase.induct) auto

section \<open>The interface\<close>

locale assoc_container =
  fixes empty :: "'m"
    and find :: "'m \<Rightarrow> 'k \<Rightarrow> 'v option"
    and assign :: "'k \<Rightarrow> 'v \<Rightarrow> 'm \<Rightarrow> 'm"
    and erase :: "'k \<Rightarrow> 'm \<Rightarrow> 'm"
    and invar :: "'m \<Rightarrow> bool"
  assumes find_empty: "find empty k = None"
    and find_assign: "invar m \<Longrightarrow> find (assign k v m) k' = (if k' = k then Some v else find m k')"
    and find_erase: "invar m \<Longrightarrow> find (erase k m) k' = (if k' = k then None else find m k')"
    and invar_empty: "invar empty"
    and invar_assign: "invar m \<Longrightarrow> invar (assign k v m)"
    and invar_erase: "invar m \<Longrightarrow> invar (erase k m)"
begin

lemma assign_same: "invar m \<Longrightarrow> find (assign k v m) k = Some v"
  by (simp add: find_assign)

lemma assign_other: "invar m \<Longrightarrow> k' \<noteq> k \<Longrightarrow> find (assign k v m) k' = find m k'"
  by (simp add: find_assign)

lemma erase_same: "invar m \<Longrightarrow> find (erase k m) k = None"
  by (simp add: find_erase)

lemma erase_other: "invar m \<Longrightarrow> k' \<noteq> k \<Longrightarrow> find (erase k m) k' = find m k'"
  by (simp add: find_erase)

text \<open>An insertion that is undone leaves every lookup as it was.\<close>

lemma erase_fresh_assign:
  "invar m \<Longrightarrow> find m k = None \<Longrightarrow> find (erase k (assign k v m)) k' = find m k'"
  by (simp add: find_assign find_erase invar_assign)

text \<open>A predicate of every value survives an assignment of a value that has it.\<close>

lemma values_assign:
  assumes "invar m" and "\<And>k v. find m k = Some v \<Longrightarrow> P k v" and "P k v"
  shows "find (assign k v m) k' = Some v' \<Longrightarrow> P k' v'"
  using assms by (auto simp: find_assign split: if_splits)

lemma values_erase:
  assumes "invar m" and "\<And>k v. find m k = Some v \<Longrightarrow> P k v"
  shows "find (erase k m) k' = Some v' \<Longrightarrow> P k' v'"
  using assms by (auto simp: find_erase split: if_splits)

end

lemma map_find_assign:
  "map_sorted m \<Longrightarrow> map_find (map_assign k v m) k' = (if k' = k then Some v else map_find m k')"
  by (induction k v m rule: map_assign.induct) auto

lemma map_find_erase:
  "map_sorted m \<Longrightarrow> map_find (map_erase k m) k' = (if k' = k then None else map_find m k')"
proof (induction k m rule: map_erase.induct)
  case (2 k k'' v' m)
  then show ?case by (cases "k = k''"; cases "k' = k") (simp_all add: map_find_below)
qed simp

lemma map_sorted_assign: "map_sorted m \<Longrightarrow> map_sorted (map_assign k v m)"
  by (induction k v m rule: map_assign.induct) (auto simp: map_assign_keys)

lemma map_sorted_erase: "map_sorted m \<Longrightarrow> map_sorted (map_erase k m)"
  by (induction k m rule: map_erase.induct) (use map_erase_keys in fastforce)+

interpretation std_map: assoc_container "[]" map_find map_assign map_erase map_sorted
  by unfold_locales
     (simp_all add: map_find_assign map_find_erase map_sorted_assign map_sorted_erase)

end
