(* ===== verification/Logger.thy ===== *)
theory Logger
  imports Log_Appender Std_Map
begin

text \<open>
  \<open>Logger\<close>, \<open>LoggerManager\<close> and the logging macros (gwn/log.h, gwn/log.cc). Loggers and
  appenders are shared objects reached through \<open>shared_ptr\<close>, so the state is a store: a list
  of appenders and a list of loggers, whose indices are the addresses. A spin lock matters
  only where one thread would take it twice; \<open>Logger::log\<close> carries the loggers whose lock it
  holds.
\<close>

section \<open>State\<close>

record logger =
  lg_name :: string
  lg_level :: log_level
  lg_appenders :: "nat list"
  lg_formatter :: "log_formatter option"
  lg_root :: "nat option"

record log_store =
  st_appenders :: "log_appender list"
  st_loggers :: "logger list"
  st_mgr_loggers :: "(string, nat) std_map"
  st_mgr_root :: nat
  st_world :: world

definition default_pattern :: string where
  "default_pattern = ''%d{%Y-%m-%d %H:%M:%S}%T%t%T%N%T%F%T[%p]%T[%c]%T%f:%l%T%m%n''"

text \<open>The constructor of \<open>Logger\<close>; scanning its pattern writes nothing to the console.\<close>

definition Logger_new :: "string \<Rightarrow> logger" where
  "Logger_new name =
     \<lparr>lg_name = name, lg_level = DEBUG, lg_appenders = [],
      lg_formatter = Some (fst (LogFormatter default_pattern)), lg_root = None\<rparr>"

definition alloc_logger :: "logger \<Rightarrow> log_store \<Rightarrow> nat \<times> log_store" where
  "alloc_logger l s = (length (st_loggers s), s\<lparr>st_loggers := st_loggers s @ [l]\<rparr>)"

definition alloc_appender :: "log_appender \<Rightarrow> log_store \<Rightarrow> nat \<times> log_store" where
  "alloc_appender ap s = (length (st_appenders s), s\<lparr>st_appenders := st_appenders s @ [ap]\<rparr>)"

definition update_logger :: "nat \<Rightarrow> (logger \<Rightarrow> logger) \<Rightarrow> log_store \<Rightarrow> log_store" where
  "update_logger a g s = s\<lparr>st_loggers := (st_loggers s)[a := g (st_loggers s ! a)]\<rparr>"

definition update_appender :: "nat \<Rightarrow> (log_appender \<Rightarrow> log_appender) \<Rightarrow> log_store \<Rightarrow> log_store" where
  "update_appender i g s = s\<lparr>st_appenders := (st_appenders s)[i := g (st_appenders s ! i)]\<rparr>"

definition print :: "string \<Rightarrow> log_store \<Rightarrow> log_store" where
  "print t s = s\<lparr>st_world := cout t (st_world s)\<rparr>"

section \<open>Operations of a logger\<close>

definition Logger_setLevel :: "nat \<Rightarrow> log_level \<Rightarrow> log_store \<Rightarrow> log_error + log_store" where
  "Logger_setLevel a l s =
     (if a < length (st_loggers s) then Inr (update_logger a (\<lambda>lg. lg\<lparr>lg_level := l\<rparr>) s)
      else Inl NullLogger)"

definition inherit_formatter :: "log_formatter option \<Rightarrow> log_appender list \<Rightarrow> nat \<Rightarrow> log_appender list" where
  "inherit_formatter val aps i =
     (if \<not> ap_hasFormatter (aps ! i) then aps[i := (aps ! i)\<lparr>ap_formatter := val\<rparr>] else aps)"

definition Logger_setFormatter ::
  "nat \<Rightarrow> log_formatter option \<Rightarrow> log_store \<Rightarrow> log_error + log_store"
where
  "Logger_setFormatter a val s =
     (if a < length (st_loggers s)
      then (let s1 = update_logger a (\<lambda>lg. lg\<lparr>lg_formatter := val\<rparr>) s
            in Inr (s1\<lparr>st_appenders :=
                 foldl (inherit_formatter val) (st_appenders s1) (lg_appenders (st_loggers s1 ! a))\<rparr>))
      else Inl NullLogger)"

definition Logger_getFormatter :: "nat \<Rightarrow> log_store \<Rightarrow> log_error + log_formatter option" where
  "Logger_getFormatter a s =
     (if a < length (st_loggers s) then Inr (lg_formatter (st_loggers s ! a)) else Inl NullLogger)"

definition Logger_setFormatter_str :: "nat \<Rightarrow> string \<Rightarrow> log_store \<Rightarrow> log_error + log_store" where
  "Logger_setFormatter_str a val s =
     (if a < length (st_loggers s)
      then (case LogFormatter val of (new_val, out) \<Rightarrow>
              (let s1 = print (''---'' @ val @ [newline] @ out) s
               in if fm_error new_val
                  then Inr (print (''Logger setFormatter name='' @ lg_name (st_loggers s ! a) @
                              '' value='' @ val @ '' invalid formatter'' @ [newline]) s1)
                  else Logger_setFormatter a (Some new_val) s1))
      else Inl NullLogger)"

definition Logger_addAppender :: "nat \<Rightarrow> nat \<Rightarrow> log_store \<Rightarrow> log_error + log_store" where
  "Logger_addAppender a i s =
     (if \<not> a < length (st_loggers s) then Inl NullLogger
      else if \<not> i < length (st_appenders s) then Inl NullAppender
      else
        (let s1 = (if LogAppender_getFormatter (st_appenders s ! i) = None
                   then update_appender i
                          (\<lambda>ap. ap\<lparr>ap_formatter := lg_formatter (st_loggers s ! a)\<rparr>) s
                   else s)
         in Inr (update_logger a (\<lambda>lg. lg\<lparr>lg_appenders := lg_appenders lg @ [i]\<rparr>) s1)))"

text \<open>The loop of \<open>delAppender\<close> erases the first pointer that is equal.\<close>

fun erase_first :: "nat \<Rightarrow> nat list \<Rightarrow> nat list" where
  "erase_first i [] = []"
| "erase_first i (j # js) = (if j = i then js else j # erase_first i js)"

definition Logger_delAppender :: "nat \<Rightarrow> nat \<Rightarrow> log_store \<Rightarrow> log_error + log_store" where
  "Logger_delAppender a i s =
     (if a < length (st_loggers s)
      then Inr (update_logger a (\<lambda>lg. lg\<lparr>lg_appenders := erase_first i (lg_appenders lg)\<rparr>) s)
      else Inl NullLogger)"

definition Logger_clearAppenders :: "nat \<Rightarrow> log_store \<Rightarrow> log_error + log_store" where
  "Logger_clearAppenders a s =
     (if a < length (st_loggers s)
      then Inr (update_logger a (\<lambda>lg. lg\<lparr>lg_appenders := []\<rparr>) s)
      else Inl NullLogger)"

text \<open>The loop of \<open>Logger::log\<close> over its appenders.\<close>

fun run_appenders ::
  "fmt_env \<Rightarrow> nat list \<Rightarrow> log_level \<Rightarrow> log_event \<Rightarrow> log_appender list \<Rightarrow> world \<Rightarrow>
     log_error + log_appender list \<times> world"
where
  "run_appenders env [] level e aps w = Inr (aps, w)"
| "run_appenders env (i # is) level e aps w =
     (if i < length aps
      then (case LogAppender_log env (aps ! i) level e w of
              Inl er \<Rightarrow> Inl er
            | Inr (ap, w') \<Rightarrow> run_appenders env is level e (aps[i := ap]) w')
      else Inl NullAppender)"

definition store_env :: "(string \<Rightarrow> u64 \<Rightarrow> string) \<Rightarrow> log_store \<Rightarrow> fmt_env" where
  "store_env strf s =
     \<lparr>logger_name = (\<lambda>a. if a < length (st_loggers s) then lg_name (st_loggers s ! a) else []),
      strftime64 = strf\<rparr>"

text \<open>
  \<open>Logger::log\<close>: the level gate, the lock, then the appenders or, when there are none, the
  root logger, called with the own lock held. \<open>strf\<close> is what \<open>strftime\<close> of the local time
  yields on the host.
\<close>

lemma card_held_less: "a < n \<Longrightarrow> a \<notin> H \<Longrightarrow> card ({..<n} - insert a H) < card ({..<n::nat} - H)"
  by (rule psubset_card_mono) auto

function Logger_log_held ::
  "(string \<Rightarrow> u64 \<Rightarrow> string) \<Rightarrow> nat list \<Rightarrow> nat \<Rightarrow> log_level \<Rightarrow> log_event \<Rightarrow> log_store \<Rightarrow>
     log_error + log_store"
where
  "Logger_log_held strf held a level e s =
     (if \<not> a < length (st_loggers s) then Inl NullLogger
      else if lg_level (st_loggers s ! a) \<le> level then
        (if a \<in> set held then Inl SelfDeadlock
         else if lg_appenders (st_loggers s ! a) \<noteq> [] then
           (case run_appenders (store_env strf s) (lg_appenders (st_loggers s ! a)) level e
                   (st_appenders s) (st_world s) of
              Inl er \<Rightarrow> Inl er
            | Inr (aps, w) \<Rightarrow> Inr (s\<lparr>st_appenders := aps, st_world := w\<rparr>))
         else
           (case lg_root (st_loggers s ! a) of
              None \<Rightarrow> Inr s
            | Some r \<Rightarrow> Logger_log_held strf (a # held) r level e s))
      else Inr s)"
  by pat_completeness auto
termination
  by (relation "measure (\<lambda>(strf, held, a, level, e, s). card ({..<length (st_loggers s)} - set held))")
     (simp_all add: card_held_less del: card_Diff_insert)

declare Logger_log_held.simps [simp del]

definition Logger_log ::
  "(string \<Rightarrow> u64 \<Rightarrow> string) \<Rightarrow> nat \<Rightarrow> log_level \<Rightarrow> log_event \<Rightarrow> log_store \<Rightarrow> log_error + log_store"
where
  "Logger_log strf a level e s = Logger_log_held strf [] a level e s"

definition Logger_debug where "Logger_debug strf a e s = Logger_log strf a DEBUG e s"
definition Logger_info where "Logger_info strf a e s = Logger_log strf a INFO e s"
definition Logger_warn where "Logger_warn strf a e s = Logger_log strf a WARN e s"
definition Logger_error where "Logger_error strf a e s = Logger_log strf a ERROR e s"
definition Logger_fatal where "Logger_fatal strf a e s = Logger_log strf a FATAL e s"

text \<open>\<open>~LogEventWrap\<close> hands the event to its logger.\<close>

definition LogEventWrap_destroy ::
  "(string \<Rightarrow> u64 \<Rightarrow> string) \<Rightarrow> log_event \<Rightarrow> log_store \<Rightarrow> log_error + log_store"
where
  "LogEventWrap_destroy strf e s = Logger_log strf (ev_logger e) (ev_level e) e s"

text \<open>The values the macros read from the running thread and the clock.\<close>

record log_context =
  cx_threadId :: u32
  cx_fiberId :: u32
  cx_time :: u64
  cx_threadName :: string

definition gwn_LOG_LEVEL ::
  "(string \<Rightarrow> u64 \<Rightarrow> string) \<Rightarrow> log_context \<Rightarrow> string \<Rightarrow> u32 \<Rightarrow> nat \<Rightarrow> log_level \<Rightarrow> string \<Rightarrow>
     log_store \<Rightarrow> log_error + log_store"
where
  "gwn_LOG_LEVEL strf cx file line a level text s =
     (if \<not> a < length (st_loggers s) then Inl NullLogger
      else if lg_level (st_loggers s ! a) \<le> level
      then LogEventWrap_destroy strf
             (event_stream text (LogEvent a level file line 0 (cx_threadId cx) (cx_fiberId cx)
                (cx_time cx) (cx_threadName cx))) s
      else Inr s)"

definition gwn_LOG_FMT_LEVEL ::
  "(string \<Rightarrow> u64 \<Rightarrow> string) \<Rightarrow> log_context \<Rightarrow> string \<Rightarrow> u32 \<Rightarrow> nat \<Rightarrow> log_level \<Rightarrow> string option \<Rightarrow>
     log_store \<Rightarrow> log_error + log_store"
where
  "gwn_LOG_FMT_LEVEL strf cx file line a level printed s =
     (if \<not> a < length (st_loggers s) then Inl NullLogger
      else if lg_level (st_loggers s ! a) \<le> level
      then LogEventWrap_destroy strf
             (LogEvent_format printed (LogEvent a level file line 0 (cx_threadId cx) (cx_fiberId cx)
                (cx_time cx) (cx_threadName cx))) s
      else Inr s)"

section \<open>The manager\<close>

text \<open>
  The constructor of the singleton: the root logger with a console appender, under its name.
\<close>

definition LoggerManager_new :: "world \<Rightarrow> log_error + log_store" where
  "LoggerManager_new w =
     (case Logger_addAppender 0 0
             \<lparr>st_appenders = [StdoutLogAppender], st_loggers = [Logger_new ''root''],
              st_mgr_loggers = [], st_mgr_root = 0, st_world = w\<rparr> of
        Inl er \<Rightarrow> Inl er
      | Inr s \<Rightarrow> Inr (s\<lparr>st_mgr_loggers :=
          map_assign (lg_name (st_loggers s ! st_mgr_root s)) (st_mgr_root s) (st_mgr_loggers s)\<rparr>))"

definition LoggerManager_getLogger :: "string \<Rightarrow> log_store \<Rightarrow> nat \<times> log_store" where
  "LoggerManager_getLogger name s =
     (case map_find (st_mgr_loggers s) name of
        Some a \<Rightarrow> (a, s)
      | None \<Rightarrow>
          (case alloc_logger ((Logger_new name)\<lparr>lg_root := Some (st_mgr_root s)\<rparr>) s of
             (a, s1) \<Rightarrow> (a, s1\<lparr>st_mgr_loggers := map_assign name a (st_mgr_loggers s1)\<rparr>)))"

definition LoggerManager_getRoot :: "log_store \<Rightarrow> nat" where
  "LoggerManager_getRoot s = st_mgr_root s"

end
