(* ===== verification/Logger_Facts.thy ===== *)
theory Logger_Facts
  imports Logger
begin

text \<open>
  The correctness of the logger component: a well-formedness invariant of the store that
  every operation keeps, the safety of logging in every state the operations can reach, and
  the functional behaviour of the level gates, of the fallback to the root logger and of the
  formatter that appenders inherit.
\<close>

section \<open>The invariant\<close>

definition logger_ok :: "log_store \<Rightarrow> logger \<Rightarrow> bool" where
  "logger_ok s l \<longleftrightarrow>
     lg_formatter l \<noteq> None \<and>
     (\<forall>i \<in> set (lg_appenders l). i < length (st_appenders s) \<and> ap_formatter (st_appenders s ! i) \<noteq> None) \<and>
     (\<forall>r. lg_root l = Some r \<longrightarrow> r = st_mgr_root s)"

definition mgr_ok :: "log_store \<Rightarrow> bool" where
  "mgr_ok s \<longleftrightarrow>
     st_mgr_root s < length (st_loggers s) \<and> lg_root (st_loggers s ! st_mgr_root s) = None \<and>
     map_sorted (st_mgr_loggers s) \<and>
     (\<forall>n a. map_find (st_mgr_loggers s) n = Some a \<longrightarrow>
        a < length (st_loggers s) \<and> lg_name (st_loggers s ! a) = n)"

definition store_ok :: "log_store \<Rightarrow> bool" where
  "store_ok s \<longleftrightarrow> (\<forall>l \<in> set (st_loggers s). logger_ok s l) \<and> mgr_ok s"

lemma store_okI:
  "(\<And>l. l \<in> set (st_loggers s) \<Longrightarrow> logger_ok s l) \<Longrightarrow> mgr_ok s \<Longrightarrow> store_ok s"
  by (simp add: store_ok_def)

lemma store_ok_logger: "store_ok s \<Longrightarrow> a < length (st_loggers s) \<Longrightarrow> logger_ok s (st_loggers s ! a)"
  by (simp add: store_ok_def)

lemma store_ok_mgr: "store_ok s \<Longrightarrow> mgr_ok s"
  by (simp add: store_ok_def)

text \<open>Changing the world, or appenders in a way that keeps formatters, keeps the invariant.\<close>

lemma store_ok_frame:
  assumes "store_ok s" and "st_loggers s' = st_loggers s" and "st_mgr_loggers s' = st_mgr_loggers s"
    and "st_mgr_root s' = st_mgr_root s" and "length (st_appenders s) \<le> length (st_appenders s')"
    and "\<And>i. i < length (st_appenders s) \<Longrightarrow> ap_formatter (st_appenders s ! i) \<noteq> None \<Longrightarrow>
      ap_formatter (st_appenders s' ! i) \<noteq> None"
  shows "store_ok s'"
  using assms by (fastforce simp: store_ok_def logger_ok_def mgr_ok_def)

lemma store_ok_print: "store_ok s \<Longrightarrow> store_ok (print t s)"
  by (rule store_ok_frame) (simp_all add: print_def)

text \<open>Changing one logger within its own well-formedness.\<close>

lemma store_ok_update_logger:
  assumes "store_ok s" and "a < length (st_loggers s)"
    and "logger_ok s (g (st_loggers s ! a))"
    and "lg_name (g (st_loggers s ! a)) = lg_name (st_loggers s ! a)"
    and "lg_root (g (st_loggers s ! a)) = lg_root (st_loggers s ! a)"
  shows "store_ok (update_logger a g s)"
proof (rule store_okI)
  fix l assume "l \<in> set (st_loggers (update_logger a g s))"
  then have "l = g (st_loggers s ! a) \<or> l \<in> set (st_loggers s)"
    using set_update_subset_insert by (fastforce simp: update_logger_def)
  then have "logger_ok s l" using assms(1,3) by (auto simp: store_ok_def)
  then show "logger_ok (update_logger a g s) l" by (simp add: logger_ok_def update_logger_def)
next
  show "mgr_ok (update_logger a g s)"
    using assms by (auto simp: store_ok_def mgr_ok_def update_logger_def nth_list_update)
qed

section \<open>Every operation keeps the invariant\<close>

lemma setLevel_ok:
  "store_ok s \<Longrightarrow> a < length (st_loggers s) \<Longrightarrow> \<exists>s'. Logger_setLevel a l s = Inr s' \<and> store_ok s'"
  using store_ok_logger [of s a]
  by (auto simp: Logger_setLevel_def logger_ok_def intro!: store_ok_update_logger)

lemma clearAppenders_ok:
  "store_ok s \<Longrightarrow> a < length (st_loggers s) \<Longrightarrow> \<exists>s'. Logger_clearAppenders a s = Inr s' \<and> store_ok s'"
  using store_ok_logger [of s a]
  by (auto simp: Logger_clearAppenders_def logger_ok_def intro!: store_ok_update_logger)

lemma erase_first_subset: "set (erase_first i js) \<subseteq> set js"
  by (induction i js rule: erase_first.induct) auto

lemma delAppender_ok:
  "store_ok s \<Longrightarrow> a < length (st_loggers s) \<Longrightarrow> \<exists>s'. Logger_delAppender a i s = Inr s' \<and> store_ok s'"
  using store_ok_logger [of s a] erase_first_subset [of i]
  by (fastforce simp: Logger_delAppender_def logger_ok_def intro!: store_ok_update_logger)

lemma addAppender_ok:
  assumes "store_ok s" and a: "a < length (st_loggers s)" and i: "i < length (st_appenders s)"
  shows "\<exists>s'. Logger_addAppender a i s = Inr s' \<and> store_ok s'"
proof -
  obtain f where f: "lg_formatter (st_loggers s ! a) = Some f"
    using store_ok_logger [OF assms(1) a] by (auto simp: logger_ok_def)
  define s1 where "s1 = (if LogAppender_getFormatter (st_appenders s ! i) = None
      then update_appender i (\<lambda>ap. ap\<lparr>ap_formatter := lg_formatter (st_loggers s ! a)\<rparr>) s else s)"
  have ok1: "store_ok s1"
    by (rule store_ok_frame [OF assms(1)])
       (auto simp: s1_def update_appender_def nth_update f)
  have "ap_formatter (st_appenders s1 ! i) \<noteq> None" "st_loggers s1 = st_loggers s"
    "i < length (st_appenders s1)"
    using i f by (auto simp: s1_def update_appender_def LogAppender_getFormatter_def)
  then have "store_ok (update_logger a (\<lambda>lg. lg\<lparr>lg_appenders := lg_appenders lg @ [i]\<rparr>) s1)"
    using ok1 a store_ok_logger [OF ok1, of a]
    by (intro store_ok_update_logger) (auto simp: logger_ok_def)
  then show ?thesis using a i by (simp add: Logger_addAppender_def s1_def Let_def)
qed

lemma inherit_formatter_length [simp]: "length (inherit_formatter val aps i) = length aps"
  by (simp add: inherit_formatter_def)

lemma foldl_inherit_length [simp]:
  "length (foldl (inherit_formatter val) aps is) = length aps"
  by (induction "is" arbitrary: aps) simp_all

lemma foldl_inherit_nth:
  assumes "i < length aps"
  shows "foldl (inherit_formatter val) aps is ! i =
    (if i \<in> set is \<and> \<not> ap_hasFormatter (aps ! i) then (aps ! i)\<lparr>ap_formatter := val\<rparr> else aps ! i)"
  using assms
proof (induction "is" arbitrary: aps)
  case Nil
  then show ?case by simp
next
  case (Cons j js)
  have "inherit_formatter val aps j ! i =
      (if i = j \<and> \<not> ap_hasFormatter (aps ! i) then (aps ! i)\<lparr>ap_formatter := val\<rparr> else aps ! i)"
    using Cons.prems by (auto simp: inherit_formatter_def nth_update)
  then show ?case using Cons.IH [of "inherit_formatter val aps j"] Cons.prems by auto
qed

lemma setFormatter_ok:
  assumes "store_ok s" and a: "a < length (st_loggers s)"
  shows "\<exists>s'. Logger_setFormatter a (Some f) s = Inr s' \<and> store_ok s'"
proof -
  let ?s1 = "update_logger a (\<lambda>lg. lg\<lparr>lg_formatter := Some f\<rparr>) s"
  have ok1: "store_ok ?s1"
    using assms store_ok_logger [OF assms]
    by (intro store_ok_update_logger) (simp_all add: logger_ok_def)
  have "store_ok (?s1\<lparr>st_appenders := foldl (inherit_formatter (Some f)) (st_appenders ?s1)
      (lg_appenders (st_loggers ?s1 ! a))\<rparr>)"
    by (rule store_ok_frame [OF ok1]) (auto simp: foldl_inherit_nth)
  then show ?thesis using a by (simp add: Logger_setFormatter_def Let_def)
qed

lemma setFormatter_str_ok:
  assumes "store_ok s" and a: "a < length (st_loggers s)"
  shows "\<exists>s'. Logger_setFormatter_str a val s = Inr s' \<and> store_ok s'"
proof -
  obtain f out where f: "LogFormatter val = (f, out)" by force
  let ?s1 = "print (''---'' @ val @ [newline] @ out) s"
  have ok: "store_ok ?s1" "a < length (st_loggers ?s1)"
    using assms store_ok_print by (simp_all add: print_def)
  show ?thesis
  proof (cases "fm_error f")
    case True
    then show ?thesis
      using a ok(1) store_ok_print by (simp add: Logger_setFormatter_str_def f Let_def)
  next
    case False
    then show ?thesis
      using a setFormatter_ok [OF ok] by (simp add: Logger_setFormatter_str_def f Let_def)
  qed
qed

lemma alloc_logger_ok:
  assumes "store_ok s" and "logger_ok s l"
  shows "store_ok (snd (alloc_logger l s))"
proof (rule store_okI)
  fix k assume "k \<in> set (st_loggers (snd (alloc_logger l s)))"
  then have "logger_ok s k" using assms by (auto simp: alloc_logger_def store_ok_def)
  then show "logger_ok (snd (alloc_logger l s)) k" by (simp add: alloc_logger_def logger_ok_def)
next
  show "mgr_ok (snd (alloc_logger l s))"
    using store_ok_mgr [OF assms(1)]
    by (auto simp: alloc_logger_def mgr_ok_def nth_append less_Suc_eq)
qed

lemma getLogger_ok:
  assumes "store_ok s"
  shows "store_ok (snd (LoggerManager_getLogger name s))"
proof (cases "map_find (st_mgr_loggers s) name")
  case (Some a)
  then show ?thesis using assms by (simp add: LoggerManager_getLogger_def)
next
  case None
  let ?l = "(Logger_new name)\<lparr>lg_root := Some (st_mgr_root s)\<rparr>"
  let ?s1 = "snd (alloc_logger ?l s)"
  have ok1: "store_ok ?s1"
    by (rule alloc_logger_ok [OF assms]) (simp add: logger_ok_def Logger_new_def)
  have "mgr_ok (?s1\<lparr>st_mgr_loggers := map_assign name (length (st_loggers s)) (st_mgr_loggers ?s1)\<rparr>)"
    using store_ok_mgr [OF assms]
    by (auto simp: mgr_ok_def alloc_logger_def nth_append std_map.find_assign std_map.invar_assign
        Logger_new_def less_Suc_eq split: if_splits)
  then show ?thesis
    using ok1 None
    by (simp add: LoggerManager_getLogger_def alloc_logger_def store_ok_def logger_ok_def)
qed

lemma alloc_appender_ok: "store_ok s \<Longrightarrow> store_ok (snd (alloc_appender ap s))"
  by (rule store_ok_frame) (auto simp: alloc_appender_def nth_append)

lemma update_appender_ok:
  assumes "store_ok s" and "ap_formatter (st_appenders s ! i) \<noteq> None \<Longrightarrow>
    ap_formatter (g (st_appenders s ! i)) \<noteq> None"
  shows "store_ok (update_appender i g s)"
  by (rule store_ok_frame [OF assms(1)])
     (use assms(2) in \<open>auto simp: update_appender_def nth_update\<close>)

lemma LoggerManager_new_eq:
  "LoggerManager_new w = Inr
     \<lparr>st_appenders = [StdoutLogAppender\<lparr>ap_formatter := Some (fst (LogFormatter default_pattern))\<rparr>],
      st_loggers = [(Logger_new ''root'')\<lparr>lg_appenders := [0]\<rparr>],
      st_mgr_loggers = [(''root'', 0)], st_mgr_root = 0, st_world = w\<rparr>"
  by (simp add: LoggerManager_new_def Logger_addAppender_def Logger_new_def update_logger_def
      update_appender_def LogAppender_getFormatter_def StdoutLogAppender_def)

lemma LoggerManager_new_ok: "LoggerManager_new w = Inr s \<Longrightarrow> store_ok s"
  by (auto simp: LoggerManager_new_eq store_ok_def logger_ok_def mgr_ok_def Logger_new_def
      split: if_splits)

section \<open>Logging never fails\<close>

definition same_config :: "log_appender list \<Rightarrow> log_appender list \<Rightarrow> bool" where
  "same_config aps aps' \<longleftrightarrow> length aps' = length aps \<and>
     (\<forall>i < length aps. ap_formatter (aps' ! i) = ap_formatter (aps ! i) \<and>
        ap_level (aps' ! i) = ap_level (aps ! i) \<and>
        ap_hasFormatter (aps' ! i) = ap_hasFormatter (aps ! i))"

lemma run_appenders_total:
  assumes "\<forall>i \<in> set is. i < length aps \<and> ap_formatter (aps ! i) \<noteq> None"
  shows "\<exists>aps' w'. run_appenders env is level e aps w = Inr (aps', w') \<and> same_config aps aps'"
  using assms
proof (induction "is" arbitrary: aps w)
  case Nil
  then show ?case by (simp add: same_config_def)
next
  case (Cons i js)
  then have i: "i < length aps" "ap_formatter (aps ! i) \<noteq> None" by simp_all
  from any_log.total [OF i(2)] obtain ap w1 where
    1: "LogAppender_log env (aps ! i) level e w = Inr (ap, w1)" by blast
  note frame = any_log.frame [OF 1]
  have "same_config aps (aps[i := ap])"
    using frame i(1) by (simp add: same_config_def nth_update)
  moreover have "\<forall>j \<in> set js. j < length (aps[i := ap]) \<and> ap_formatter (aps[i := ap] ! j) \<noteq> None"
    using Cons.prems frame i by (auto simp: nth_update)
  from Cons.IH [OF this] obtain aps' w' where
    "run_appenders env js level e (aps[i := ap]) w1 = Inr (aps', w')"
    "same_config (aps[i := ap]) aps'" by blast
  ultimately show ?case using i(1) 1 by (auto simp: same_config_def)
qed

text \<open>The outcome of a call that finds appenders to write to.\<close>

lemma Logger_log_held_direct:
  assumes "store_ok s" and "a < length (st_loggers s)" and "a \<notin> set held"
    and "lg_appenders (st_loggers s ! a) \<noteq> []"
  shows "\<exists>s'. Logger_log_held strf held a level e s = Inr s' \<and> store_ok s' \<and>
    st_loggers s' = st_loggers s \<and> st_mgr_loggers s' = st_mgr_loggers s"
proof (cases "lg_level (st_loggers s ! a) \<le> level")
  case False
  then show ?thesis using assms by (subst Logger_log_held.simps) simp
next
  case True
  have "\<forall>i \<in> set (lg_appenders (st_loggers s ! a)).
      i < length (st_appenders s) \<and> ap_formatter (st_appenders s ! i) \<noteq> None"
    using store_ok_logger [OF assms(1,2)] by (simp add: logger_ok_def)
  from run_appenders_total [OF this] obtain aps w where
    r: "run_appenders (store_env strf s) (lg_appenders (st_loggers s ! a)) level e
          (st_appenders s) (st_world s) = Inr (aps, w)" "same_config (st_appenders s) aps" by blast
  moreover have "store_ok (s\<lparr>st_appenders := aps, st_world := w\<rparr>)"
    by (rule store_ok_frame [OF assms(1)]) (use r(2) in \<open>simp_all add: same_config_def\<close>)
  ultimately show ?thesis
    using assms True by (subst Logger_log_held.simps) simp
qed

text \<open>The macros hand an event to the logger, or do nothing.\<close>

lemma gwn_LOG_LEVEL_cases:
  assumes "a < length (st_loggers s)"
  shows "gwn_LOG_LEVEL strf cx src line a level msg s = Inr s \<or>
    (\<exists>e. gwn_LOG_LEVEL strf cx src line a level msg s = Logger_log strf a level e s)"
  using assms by (auto simp: gwn_LOG_LEVEL_def LogEventWrap_destroy_def event_stream_def LogEvent_def)

lemma Logger_log_ok:
  assumes "store_ok s" and a: "a < length (st_loggers s)"
  shows "\<exists>s'. Logger_log strf a level e s = Inr s' \<and> store_ok s' \<and>
    st_loggers s' = st_loggers s \<and> st_mgr_loggers s' = st_mgr_loggers s"
proof (cases "lg_level (st_loggers s ! a) \<le> level \<and> lg_appenders (st_loggers s ! a) = [] \<and>
    lg_root (st_loggers s ! a) \<noteq> None")
  case False
  show ?thesis
  proof (cases "lg_appenders (st_loggers s ! a) = []")
    case True
    with False assms show ?thesis
      by (auto simp: Logger_log_def Logger_log_held.simps [of strf "[]" a])
  next
    case False
    then show ?thesis
      unfolding Logger_log_def by (intro Logger_log_held_direct [OF assms]) simp_all
  qed
next
  case True
  let ?r = "st_mgr_root s"
  have r: "lg_root (st_loggers s ! a) = Some ?r" "?r < length (st_loggers s)"
    "lg_root (st_loggers s ! ?r) = None"
    using True store_ok_logger [OF assms] store_ok_mgr [OF assms(1)]
    by (auto simp: logger_ok_def mgr_ok_def)
  then have "?r \<notin> set [a]" by auto
  have "Logger_log strf a level e s = Logger_log_held strf [a] ?r level e s"
    using True r a by (simp add: Logger_log_def Logger_log_held.simps [of strf "[]" a])
  moreover have "\<exists>s'. Logger_log_held strf [a] ?r level e s = Inr s' \<and> store_ok s' \<and>
    st_loggers s' = st_loggers s \<and> st_mgr_loggers s' = st_mgr_loggers s"
  proof (cases "lg_appenders (st_loggers s ! ?r) = []")
    case True
    then show ?thesis
      using assms r \<open>?r \<notin> set [a]\<close> by (subst Logger_log_held.simps) auto
  next
    case False
    show ?thesis
      by (rule Logger_log_held_direct [OF assms(1) r(2) \<open>?r \<notin> set [a]\<close> False])
  qed
  ultimately show ?thesis by simp
qed

section \<open>Reachable stores\<close>

text \<open>
  The calls a program can make, with non-null pointers to loggers and appenders that exist. A
  formatter pointer that is passed may be null; the stores that calls reach which pass none are
  \<open>log_reach\<close>, those that all calls reach are \<open>call_reach\<close>.
\<close>

datatype log_op =
    GetLogger string
  | NewLogger string
  | NewStdoutAppender
  | NewFileAppender string
  | AddAppender nat nat
  | DelAppender nat nat
  | ClearAppenders nat
  | SetFormatter nat "log_formatter option"
  | SetFormatterStr nat string
  | SetLevel nat log_level
  | SetAppenderFormatter nat "log_formatter option"
  | SetAppenderLevel nat log_level
  | Log nat log_level log_event

fun op_ok :: "log_store \<Rightarrow> log_op \<Rightarrow> bool" where
  "op_ok s (AddAppender a i) \<longleftrightarrow> a < length (st_loggers s) \<and> i < length (st_appenders s)"
| "op_ok s (DelAppender a i) \<longleftrightarrow> a < length (st_loggers s)"
| "op_ok s (ClearAppenders a) \<longleftrightarrow> a < length (st_loggers s)"
| "op_ok s (SetFormatter a f) \<longleftrightarrow> a < length (st_loggers s)"
| "op_ok s (SetFormatterStr a p) \<longleftrightarrow> a < length (st_loggers s)"
| "op_ok s (SetLevel a l) \<longleftrightarrow> a < length (st_loggers s)"
| "op_ok s (SetAppenderFormatter i f) \<longleftrightarrow> i < length (st_appenders s)"
| "op_ok s (SetAppenderLevel i l) \<longleftrightarrow> i < length (st_appenders s)"
| "op_ok s (Log a l e) \<longleftrightarrow> a < length (st_loggers s)"
| "op_ok s _ \<longleftrightarrow> True"

fun run_op :: "(string \<Rightarrow> u64 \<Rightarrow> string) \<Rightarrow> log_op \<Rightarrow> log_store \<Rightarrow> log_error + log_store" where
  "run_op strf (GetLogger name) s = Inr (snd (LoggerManager_getLogger name s))"
| "run_op strf (NewLogger name) s = Inr (snd (alloc_logger (Logger_new name) s))"
| "run_op strf NewStdoutAppender s = Inr (snd (alloc_appender StdoutLogAppender s))"
| "run_op strf (NewFileAppender f) s =
     (case FileLogAppender f (st_world s) of
        (ap, w) \<Rightarrow> Inr (snd (alloc_appender ap (s\<lparr>st_world := w\<rparr>))))"
| "run_op strf (AddAppender a i) s = Logger_addAppender a i s"
| "run_op strf (DelAppender a i) s = Logger_delAppender a i s"
| "run_op strf (ClearAppenders a) s = Logger_clearAppenders a s"
| "run_op strf (SetFormatter a f) s = Logger_setFormatter a f s"
| "run_op strf (SetFormatterStr a p) s = Logger_setFormatter_str a p s"
| "run_op strf (SetLevel a l) s = Logger_setLevel a l s"
| "run_op strf (SetAppenderFormatter i f) s =
     Inr (update_appender i (LogAppender_setFormatter f) s)"
| "run_op strf (SetAppenderLevel i l) s = Inr (update_appender i (LogAppender_setLevel l) s)"
| "run_op strf (Log a l e) s = Logger_log strf a l e s"

fun passes_formatter :: "log_op \<Rightarrow> bool" where
  "passes_formatter (SetFormatter a f) \<longleftrightarrow> f \<noteq> None"
| "passes_formatter (SetAppenderFormatter i f) \<longleftrightarrow> f \<noteq> None"
| "passes_formatter _ \<longleftrightarrow> True"

lemma run_op_ok:
  assumes "store_ok s" and "op_ok s op" and "passes_formatter op"
  shows "\<exists>s'. run_op strf op s = Inr s' \<and> store_ok s'"
proof (cases op)
  case (NewFileAppender f)
  obtain ap w where f: "FileLogAppender f (st_world s) = (ap, w)" by force
  have "store_ok (s\<lparr>st_world := w\<rparr>)" by (rule store_ok_frame [OF assms(1)]) simp_all
  then show ?thesis using alloc_appender_ok by (simp add: NewFileAppender f)
next
  case (NewLogger n)
  have "logger_ok s (Logger_new n)" by (simp add: logger_ok_def Logger_new_def)
  then show ?thesis using alloc_logger_ok [OF assms(1)] by (simp add: NewLogger)
next
  case (Log a l e)
  then show ?thesis using Logger_log_ok [OF assms(1), of a strf l e] assms(2) by auto
next
  case (SetAppenderFormatter i f)
  then show ?thesis using update_appender_ok [OF assms(1), of i "LogAppender_setFormatter f"] assms(3)
    by (simp add: LogAppender_setFormatter_def)
next
  case (SetFormatter a f)
  with assms setFormatter_ok [OF assms(1), of a] show ?thesis by auto
next
  case (SetAppenderLevel i l)
  then show ?thesis using update_appender_ok [OF assms(1), of i "LogAppender_setLevel l"]
    by (simp add: LogAppender_setLevel_def)
qed (use assms in \<open>simp_all add: getLogger_ok alloc_appender_ok addAppender_ok delAppender_ok
       clearAppenders_ok setFormatter_str_ok setLevel_ok\<close>)

inductive log_reach :: "(string \<Rightarrow> u64 \<Rightarrow> string) \<Rightarrow> log_store \<Rightarrow> bool" for strf where
  start: "LoggerManager_new w = Inr s \<Longrightarrow> log_reach strf s"
| step: "log_reach strf s \<Longrightarrow> op_ok s op \<Longrightarrow> passes_formatter op \<Longrightarrow> run_op strf op s = Inr s' \<Longrightarrow>
    log_reach strf s'"

inductive call_reach :: "(string \<Rightarrow> u64 \<Rightarrow> string) \<Rightarrow> log_store \<Rightarrow> bool" for strf where
  start: "LoggerManager_new w = Inr s \<Longrightarrow> call_reach strf s"
| step: "call_reach strf s \<Longrightarrow> op_ok s op \<Longrightarrow> run_op strf op s = Inr s' \<Longrightarrow> call_reach strf s'"

lemma log_reach_ok: "log_reach strf s \<Longrightarrow> store_ok s"
proof (induction rule: log_reach.induct)
  case (start w s)
  then show ?case by (rule LoggerManager_new_ok)
next
  case (step s op s')
  then show ?case using run_op_ok [OF step.IH step.hyps(2,3), of strf] by auto
qed

section \<open>Null formatters\<close>

text \<open>
  A null formatter is dereferenced by an event that passes the gates of the logger, of the root
  logger when that is asked, and of an appender without a formatter.
\<close>

definition writes_null :: "log_store \<Rightarrow> nat list \<Rightarrow> log_level \<Rightarrow> bool" where
  "writes_null s is level \<longleftrightarrow>
     (\<exists>i \<in> set is. ap_level (st_appenders s ! i) \<le> level \<and> ap_formatter (st_appenders s ! i) = None)"

definition logs_null :: "log_store \<Rightarrow> nat \<Rightarrow> log_level \<Rightarrow> bool" where
  "logs_null s a level \<longleftrightarrow> lg_level (st_loggers s ! a) \<le> level \<and>
     (if lg_appenders (st_loggers s ! a) \<noteq> [] then writes_null s (lg_appenders (st_loggers s ! a)) level
      else case lg_root (st_loggers s ! a) of
          None \<Rightarrow> False
        | Some r \<Rightarrow> lg_level (st_loggers s ! r) \<le> level \<and> writes_null s (lg_appenders (st_loggers s ! r)) level)"

fun meets_null :: "log_store \<Rightarrow> log_op \<Rightarrow> bool" where
  "meets_null s (Log a level e) \<longleftrightarrow> logs_null s a level"
| "meets_null s _ \<longleftrightarrow> False"

text \<open>What the invariant says without the formatters, which all calls keep.\<close>

definition logger_linked :: "log_store \<Rightarrow> logger \<Rightarrow> bool" where
  "logger_linked s l \<longleftrightarrow> (\<forall>i \<in> set (lg_appenders l). i < length (st_appenders s)) \<and>
     (\<forall>r. lg_root l = Some r \<longrightarrow> r = st_mgr_root s)"

definition links_ok :: "log_store \<Rightarrow> bool" where
  "links_ok s \<longleftrightarrow> (\<forall>l \<in> set (st_loggers s). logger_linked s l) \<and> mgr_ok s"

lemma store_ok_links: "store_ok s \<Longrightarrow> links_ok s"
  by (auto simp: store_ok_def links_ok_def logger_ok_def logger_linked_def)

lemma links_ok_logger: "links_ok s \<Longrightarrow> a < length (st_loggers s) \<Longrightarrow> logger_linked s (st_loggers s ! a)"
  by (simp add: links_ok_def)

lemma links_ok_frame:
  assumes "links_ok s" and "st_loggers s' = st_loggers s" and "st_mgr_loggers s' = st_mgr_loggers s"
    and "st_mgr_root s' = st_mgr_root s" and "length (st_appenders s) \<le> length (st_appenders s')"
  shows "links_ok s'"
  using assms by (fastforce simp: links_ok_def logger_linked_def mgr_ok_def)

lemma links_ok_update_logger:
  assumes "links_ok s" and "a < length (st_loggers s)"
    and "set (lg_appenders (g (st_loggers s ! a))) \<subseteq> {..< length (st_appenders s)}"
    and "lg_name (g (st_loggers s ! a)) = lg_name (st_loggers s ! a)"
    and "lg_root (g (st_loggers s ! a)) = lg_root (st_loggers s ! a)"
  shows "links_ok (update_logger a g s)"
  unfolding links_ok_def
proof
  have "logger_linked s (g (st_loggers s ! a))"
    using links_ok_logger [OF assms(1,2)] assms(3,5) by (auto simp: logger_linked_def)
  moreover have "l = g (st_loggers s ! a) \<or> l \<in> set (st_loggers s)" if "l \<in> set (st_loggers (update_logger a g s))" for l
    using that set_update_subset_insert by (fastforce simp: update_logger_def)
  ultimately show "\<forall>l \<in> set (st_loggers (update_logger a g s)). logger_linked (update_logger a g s) l"
    using assms(1) by (fastforce simp: links_ok_def logger_linked_def update_logger_def)
  show "mgr_ok (update_logger a g s)"
    using assms by (auto simp: links_ok_def mgr_ok_def update_logger_def nth_list_update)
qed

lemma links_ok_alloc: "links_ok s \<Longrightarrow> logger_linked s l \<Longrightarrow> links_ok (snd (alloc_logger l s))"
  by (auto simp: links_ok_def alloc_logger_def logger_linked_def mgr_ok_def nth_append less_Suc_eq)

lemma links_ok_getLogger:
  assumes "links_ok s"
  shows "links_ok (snd (LoggerManager_getLogger name s))"
proof (cases "map_find (st_mgr_loggers s) name")
  case None
  let ?l = "(Logger_new name)\<lparr>lg_root := Some (st_mgr_root s)\<rparr>"
  let ?s1 = "snd (alloc_logger ?l s)"
  have "links_ok ?s1" by (rule links_ok_alloc [OF assms]) (simp add: logger_linked_def Logger_new_def)
  moreover have "mgr_ok (?s1\<lparr>st_mgr_loggers := map_assign name (length (st_loggers s)) (st_mgr_loggers ?s1)\<rparr>)"
    using assms
    by (auto simp: links_ok_def mgr_ok_def alloc_logger_def nth_append std_map.find_assign std_map.invar_assign
        Logger_new_def less_Suc_eq split: if_splits)
  ultimately show ?thesis
    using None by (simp add: LoggerManager_getLogger_def alloc_logger_def links_ok_def logger_linked_def)
qed (use assms in \<open>simp add: LoggerManager_getLogger_def\<close>)

lemma null_appender_log:
  "ap_formatter ap = None \<Longrightarrow> ap_level ap \<le> level \<Longrightarrow> LogAppender_log env ap level e w = Inl NullFormatter"
  by (simp add: LogAppender_log.simps StdoutLogAppender_log_def FileLogAppender_log_def Let_def
      split: appender_impl.splits prod.splits)

lemma run_appenders_exact:
  assumes "\<forall>i \<in> set is. i < length aps"
  shows "case run_appenders env is level e aps w of
      Inl er \<Rightarrow> er = NullFormatter \<and> (\<exists>i \<in> set is. ap_level (aps ! i) \<le> level \<and> ap_formatter (aps ! i) = None)
    | Inr (aps', w') \<Rightarrow> same_config aps aps' \<and>
        \<not> (\<exists>i \<in> set is. ap_level (aps ! i) \<le> level \<and> ap_formatter (aps ! i) = None)"
  using assms
proof (induction "is" arbitrary: aps w)
  case (Cons i js)
  then have i: "i < length aps" by simp
  show ?case
  proof (cases rule: any_log.result_cases [of env "aps ! i" level e w])
    case (ok ap w1)
    have same: "ap_level (aps[i := ap] ! j) = ap_level (aps ! j) \<and> ap_formatter (aps[i := ap] ! j) = ap_formatter (aps ! j) \<and>
        ap_hasFormatter (aps[i := ap] ! j) = ap_hasFormatter (aps ! j)" for j
      using ok(2-4) i by (cases "j = i") simp_all
    have "\<not> (ap_level (aps ! i) \<le> level \<and> ap_formatter (aps ! i) = None)"
      using null_appender_log [of "aps ! i" level env e w] ok(1) by auto
    moreover have "\<forall>j \<in> set js. j < length (aps[i := ap])" using Cons.prems by simp
    note Cons.IH [OF this, of w1]
    ultimately show ?thesis using i ok(1) same
      by (auto simp: same_config_def split: sum.splits)
  next
    case null
    with i show ?thesis by auto
  qed
qed (simp add: same_config_def)

lemma Logger_log_held_exact:
  assumes "links_ok s" and "a < length (st_loggers s)" and "a \<notin> set held"
    and "lg_appenders (st_loggers s ! a) \<noteq> []" and "lg_level (st_loggers s ! a) \<le> level"
  shows "case Logger_log_held strf held a level e s of
      Inl er \<Rightarrow> er = NullFormatter \<and> writes_null s (lg_appenders (st_loggers s ! a)) level
    | Inr s' \<Rightarrow> links_ok s' \<and> \<not> writes_null s (lg_appenders (st_loggers s ! a)) level"
proof -
  have "\<forall>i \<in> set (lg_appenders (st_loggers s ! a)). i < length (st_appenders s)"
    using links_ok_logger [OF assms(1,2)] by (simp add: logger_linked_def)
  note run = run_appenders_exact [OF this, where env = "store_env strf s" and level = level and e = e and w = "st_world s"]
  have "links_ok (s\<lparr>st_appenders := aps, st_world := w\<rparr>)" if "same_config (st_appenders s) aps" for aps w
    by (rule links_ok_frame [OF assms(1)]) (use that in \<open>simp_all add: same_config_def\<close>)
  with run assms(2-5) show ?thesis
    by (subst Logger_log_held.simps) (auto simp: writes_null_def split: sum.splits prod.splits)
qed

lemma Logger_log_exact:
  assumes ok: "links_ok s" and a: "a < length (st_loggers s)"
  shows "case Logger_log strf a level e s of
      Inl er \<Rightarrow> er = NullFormatter \<and> logs_null s a level
    | Inr s' \<Rightarrow> links_ok s' \<and> \<not> logs_null s a level"
proof (cases "lg_level (st_loggers s ! a) \<le> level")
  case False
  with assms show ?thesis by (simp add: Logger_log_def Logger_log_held.simps logs_null_def)
next
  case pass: True
  show ?thesis
  proof (cases "lg_appenders (st_loggers s ! a) = []")
    case False
    with Logger_log_held_exact [OF ok a _ False pass, where held = "[]" and strf = strf and e = e] pass show ?thesis
      by (simp add: Logger_log_def logs_null_def cong: sum.case_cong)
  next
    case empty: True
    show ?thesis
    proof (cases "lg_root (st_loggers s ! a)")
      case None
      with empty pass ok a show ?thesis by (simp add: Logger_log_def Logger_log_held.simps logs_null_def)
    next
      case (Some r)
      then have r: "r < length (st_loggers s)" "lg_root (st_loggers s ! r) = None" "r \<noteq> a"
        using links_ok_logger [OF ok a] ok by (auto simp: logger_linked_def links_ok_def mgr_ok_def)
      have run: "Logger_log strf a level e s = Logger_log_held strf [a] r level e s"
        using empty pass a Some by (simp add: Logger_log_def Logger_log_held.simps [of strf "[]" a])
      have null: "logs_null s a level \<longleftrightarrow> lg_level (st_loggers s ! r) \<le> level \<and>
          writes_null s (lg_appenders (st_loggers s ! r)) level"
        using empty pass Some by (simp add: logs_null_def)
      show ?thesis
      proof (cases "lg_appenders (st_loggers s ! r) \<noteq> [] \<and> lg_level (st_loggers s ! r) \<le> level")
        case True
        with Logger_log_held_exact [OF ok r(1), where held = "[a]" and level = level and strf = strf and e = e] r(3)
        show ?thesis unfolding run null by (simp cong: sum.case_cong)
      next
        case False
        then show ?thesis
          unfolding run null using ok r by (auto simp: Logger_log_held.simps writes_null_def)
      qed
    qed
  qed
qed

lemma run_op_exact:
  assumes ok: "links_ok s" and op: "op_ok s op"
  shows "case run_op strf op s of
      Inl er \<Rightarrow> er = NullFormatter \<and> meets_null s op
    | Inr s' \<Rightarrow> links_ok s' \<and> \<not> meets_null s op"
proof -
  have frame: "links_ok s'" if "st_loggers s' = st_loggers s" "st_mgr_loggers s' = st_mgr_loggers s"
    "st_mgr_root s' = st_mgr_root s" "length (st_appenders s) \<le> length (st_appenders s')" for s'
    using links_ok_frame [OF ok that] .
  have upd: "links_ok (update_logger a g s)" if "a < length (st_loggers s)"
    "set (lg_appenders (g (st_loggers s ! a))) \<subseteq> {..< length (st_appenders s)}"
    "lg_name (g (st_loggers s ! a)) = lg_name (st_loggers s ! a)"
    "lg_root (g (st_loggers s ! a)) = lg_root (st_loggers s ! a)" for a g
    by (rule links_ok_update_logger [OF ok]) (fact that)+
  have own: "set (lg_appenders (st_loggers s ! a)) \<subseteq> {..< length (st_appenders s)}" if "a < length (st_loggers s)" for a
    using links_ok_logger [OF ok that] by (auto simp: logger_linked_def)
  have set: "\<exists>s'. Logger_setFormatter a f s1 = Inr s' \<and> links_ok s'"
    if "links_ok s1" "a < length (st_loggers s1)" for a f s1
  proof -
    have "links_ok (update_logger a (\<lambda>lg. lg\<lparr>lg_formatter := f\<rparr>) s1)"
      using that links_ok_logger [OF that] by (intro links_ok_update_logger) (auto simp: logger_linked_def)
    then show ?thesis using that(2)
      by (auto simp: Logger_setFormatter_def Let_def intro: links_ok_frame)
  qed
  show ?thesis
  proof (cases op)
    case (GetLogger name)
    then show ?thesis using links_ok_getLogger [OF ok, of name] by simp
  next
    case (NewLogger name)
    then show ?thesis using links_ok_alloc [OF ok, of "Logger_new name"] by (simp add: logger_linked_def Logger_new_def)
  next
    case (AddAppender a i)
    let ?s1 = "if LogAppender_getFormatter (st_appenders s ! i) = None
      then update_appender i (\<lambda>ap. ap\<lparr>ap_formatter := lg_formatter (st_loggers s ! a)\<rparr>) s else s"
    have "links_ok ?s1" by (rule frame) (simp_all add: update_appender_def)
    then have "links_ok (update_logger a (\<lambda>lg. lg\<lparr>lg_appenders := lg_appenders lg @ [i]\<rparr>) ?s1)"
      using op own [of a] AddAppender by (intro links_ok_update_logger) (auto simp: update_appender_def)
    with op AddAppender show ?thesis by (simp add: Logger_addAppender_def Let_def)
  next
    case (DelAppender a i)
    with op upd [of a "\<lambda>lg. lg\<lparr>lg_appenders := erase_first i (lg_appenders lg)\<rparr>"] own [of a] erase_first_subset [of i]
    show ?thesis by (fastforce simp: Logger_delAppender_def)
  next
    case (ClearAppenders a)
    with op upd [of a "\<lambda>lg. lg\<lparr>lg_appenders := []\<rparr>"] show ?thesis by (simp add: Logger_clearAppenders_def)
  next
    case (SetFormatter a f)
    with op set [OF ok, of a f] show ?thesis by auto
  next
    case (SetFormatterStr a p)
    obtain f out where f: "LogFormatter p = (f, out)" by force
    let ?s1 = "print (''---'' @ p @ [newline] @ out) s"
    have "links_ok ?s1" "links_ok (print t ?s1)" for t by (rule frame; simp add: print_def)+
    moreover have "a < length (st_loggers ?s1)" using op SetFormatterStr by (simp add: print_def)
    ultimately show ?thesis using op SetFormatterStr set [of ?s1 a "Some f"]
      by (auto simp: Logger_setFormatter_str_def f Let_def)
  next
    case (SetLevel a l)
    with op upd [of a "\<lambda>lg. lg\<lparr>lg_level := l\<rparr>"] own [of a] show ?thesis by (simp add: Logger_setLevel_def)
  next
    case (Log a l e)
    with op Logger_log_exact [OF ok, where a = a and strf = strf and level = l and e = e] show ?thesis
      by (simp cong: sum.case_cong)
  qed (auto intro!: frame simp: alloc_appender_def update_appender_def split: prod.splits)
qed

lemma call_reach_links: "call_reach strf s \<Longrightarrow> links_ok s"
proof (induction rule: call_reach.induct)
  case (start w s)
  then show ?case by (intro store_ok_links LoggerManager_new_ok)
next
  case (step s op s')
  with run_op_exact [OF step.IH step.hyps(2), of strf] show ?case by simp
qed

lemma log_reach_calls: "log_reach strf s \<Longrightarrow> call_reach strf s"
  by (induction rule: log_reach.induct) (auto intro: call_reach.intros)

lemma store_ok_no_null: "store_ok s \<Longrightarrow> op_ok s op \<Longrightarrow> \<not> meets_null s op"
proof (cases op)
  case (Log a l e)
  assume ok: "store_ok s" and "op_ok s op"
  with Log Logger_log_ok [OF ok, where a = a and strf = "\<lambda>f t. f" and level = l and e = e]
    Logger_log_exact [OF store_ok_links [OF ok], where a = a and strf = "\<lambda>f t. f" and level = l and e = e]
  show ?thesis by auto
qed simp_all

section \<open>Properties of the loggers\<close>

text \<open>
  C2: In every store that calls of the logging interface can produce, with pointers to existing
  loggers and appenders and formatter pointers that may be null, every further call either
  succeeds or dereferences a null formatter, and the latter exactly when it logs an event that
  passes the gates of the logger (and of the root logger, when the logger has no appender) and
  of an appender without a formatter; no call fails in another way, and no logger takes its own
  spin lock twice. If no null formatter was passed before, every call succeeds.
\<close>

theorem logging_is_safe:
  assumes "call_reach strf s" and "op_ok s op"
  shows "(case run_op strf op s of
        Inl er \<Rightarrow> er = NullFormatter \<and> meets_null s op
      | Inr s' \<Rightarrow> \<not> meets_null s op) \<and>
    (log_reach strf s \<longrightarrow> (\<exists>s'. run_op strf op s = Inr s'))"
proof
  note exact = run_op_exact [OF call_reach_links [OF assms(1)] assms(2), of strf]
  then show "case run_op strf op s of
        Inl er \<Rightarrow> er = NullFormatter \<and> meets_null s op
      | Inr s' \<Rightarrow> \<not> meets_null s op" by (auto split: sum.splits)
  show "log_reach strf s \<longrightarrow> (\<exists>s'. run_op strf op s = Inr s')"
  proof
    assume "log_reach strf s"
    then have "\<not> meets_null s op" using store_ok_no_null [OF log_reach_ok assms(2)] by blast
    with exact show "\<exists>s'. run_op strf op s = Inr s'" by (auto split: sum.splits)
  qed
qed

theorem logging_is_safe_witness:
  "\<exists>s s1. LoggerManager_new example_world = Inr s \<and>
     (\<exists>s'. run_op (\<lambda>f t. ''now'') (Log 0 ERROR (example_event ''x'' 5)) s = Inr s') \<and>
     run_op (\<lambda>f t. ''now'') (SetFormatter 0 None) s = Inr s1 \<and>
     run_op (\<lambda>f t. ''now'') (Log 0 ERROR (example_event ''x'' 5)) s1 = Inl NullFormatter"
proof -
  let ?f = "\<lambda>f t. ''now''" and ?log = "Log 0 ERROR (example_event ''x'' 5)"
  obtain s where s: "LoggerManager_new example_world = Inr s" by (simp add: LoggerManager_new_eq)
  then have r: "log_reach ?f s" and c: "call_reach ?f s" by (rule log_reach.start, rule call_reach.start)
  have op: "op_ok s ?log" "op_ok s (SetFormatter 0 None)" using s by (auto simp: LoggerManager_new_eq)
  obtain s1 where s1: "run_op ?f (SetFormatter 0 None) s = Inr s1"
    using logging_is_safe [OF c op(2)] r by blast
  have c1: "call_reach ?f s1" by (rule call_reach.step [OF c op(2) s1])
  have "op_ok s1 ?log \<and> meets_null s1 ?log"
    using s s1 by (auto simp: LoggerManager_new_eq Logger_setFormatter_def Let_def update_logger_def inherit_formatter_def
        StdoutLogAppender_def Logger_new_def logs_null_def writes_null_def less_eq_log_level_def)
  with logging_is_safe [OF c1] have "run_op ?f ?log s1 = Inl NullFormatter" by (fastforce split: sum.splits)
  with logging_is_safe [OF c op(1)] r s s1 show ?thesis by blast
qed

text \<open>
  A logger that is asked for by name is found again: the second request returns the same
  logger and leaves the store as it is, the logger has that name, and no other name's entry
  changes.
\<close>

theorem getLogger_idempotent:
  assumes "store_ok s" and "LoggerManager_getLogger name s = (a, s')"
  shows "LoggerManager_getLogger name s' = (a, s') \<and> lg_name (st_loggers s' ! a) = name \<and>
    (\<forall>n. n \<noteq> name \<longrightarrow> map_find (st_mgr_loggers s') n = map_find (st_mgr_loggers s) n)"
proof -
  have sorted: "map_sorted (st_mgr_loggers s)" using store_ok_mgr [OF assms(1)] by (simp add: mgr_ok_def)
  then have found: "map_find (st_mgr_loggers s') name = Some a"
    using assms(2)
    by (auto simp: LoggerManager_getLogger_def alloc_logger_def std_map.assign_same split: option.splits)
  moreover have "mgr_ok s'"
    using getLogger_ok [OF assms(1), of name] assms(2) store_ok_mgr by simp
  moreover have "\<forall>n. n \<noteq> name \<longrightarrow> map_find (st_mgr_loggers s') n = map_find (st_mgr_loggers s) n"
    using assms(2) sorted
    by (auto simp: LoggerManager_getLogger_def alloc_logger_def std_map.assign_other split: option.splits)
  ultimately show ?thesis by (auto simp: LoggerManager_getLogger_def mgr_ok_def)
qed

theorem getLogger_idempotent_witness:
  "\<exists>s a s'. LoggerManager_new example_world = Inr s \<and>
     LoggerManager_getLogger ''system'' s = (a, s') \<and> LoggerManager_getLogger ''system'' s' = (a, s') \<and>
     lg_name (st_loggers s' ! a) = ''system''"
proof -
  obtain s where s: "LoggerManager_new example_world = Inr s" by (simp add: LoggerManager_new_eq)
  obtain a s' where "LoggerManager_getLogger ''system'' s = (a, s')" by force
  with s getLogger_idempotent [OF LoggerManager_new_ok [OF s] this] show ?thesis by blast
qed

text \<open>
  An event at a level below the logger's own has no effect at all, whether it is handed
  to \<open>Logger::log\<close> or produced by the streaming and formatting macros.
\<close>

theorem level_gate:
  assumes "a < length (st_loggers s)" and "level < lg_level (st_loggers s ! a)"
  shows "Logger_log strf a level e s = Inr s \<and>
    gwn_LOG_LEVEL strf cx file line a level text s = Inr s \<and>
    gwn_LOG_FMT_LEVEL strf cx file line a level printed s = Inr s"
proof -
  have "\<not> lg_level (st_loggers s ! a) \<le> level" using assms(2) by simp
  then show ?thesis
    using assms(1)
    by (simp add: Logger_log_def Logger_log_held.simps gwn_LOG_LEVEL_def gwn_LOG_FMT_LEVEL_def)
qed

definition example_context :: log_context where
  "example_context = \<lparr>cx_threadId = 1, cx_fiberId = 0, cx_time = 5, cx_threadName = ''main''\<rparr>"

theorem level_gate_witness:
  "\<exists>s s1. LoggerManager_new example_world = Inr s \<and> Logger_setLevel 0 WARN s = Inr s1 \<and>
     gwn_LOG_LEVEL (\<lambda>f t. f) example_context ''a.cc'' 3 0 INFO ''quiet'' s1 = Inr s1"
proof -
  obtain s where s: "LoggerManager_new example_world = Inr s" by (simp add: LoggerManager_new_eq)
  let ?s1 = "update_logger 0 (\<lambda>lg. lg\<lparr>lg_level := WARN\<rparr>) s"
  have "0 < length (st_loggers ?s1)" "INFO < lg_level (st_loggers ?s1 ! 0)"
    using s by (auto simp: LoggerManager_new_eq update_logger_def less_log_level_def)
  from level_gate [OF this] have
    "gwn_LOG_LEVEL (\<lambda>f t. f) example_context ''a.cc'' 3 0 INFO ''quiet'' ?s1 = Inr ?s1" by blast
  moreover have "Logger_setLevel 0 WARN s = Inr ?s1"
    using s by (auto simp: LoggerManager_new_eq Logger_setLevel_def)
  ultimately show ?thesis using s by blast
qed

text \<open>
  A logger without appenders logs through the root logger of the manager: an event that
  passes its level gate has exactly the effect of handing it to the root logger.
\<close>

theorem fallback_to_root:
  assumes "store_ok s" and "a < length (st_loggers s)" and "lg_level (st_loggers s ! a) \<le> level"
    and "lg_appenders (st_loggers s ! a) = []" and "lg_root (st_loggers s ! a) = Some r"
  shows "Logger_log strf a level e s = Logger_log strf r level e s"
proof -
  have r: "r < length (st_loggers s)" "lg_root (st_loggers s ! r) = None"
    using assms(5) store_ok_logger [OF assms(1,2)] store_ok_mgr [OF assms(1)]
    by (auto simp: logger_ok_def mgr_ok_def)
  then have "r \<noteq> a" using assms(5) by auto
  have "Logger_log strf a level e s = Logger_log_held strf [a] r level e s"
    using assms by (simp add: Logger_log_def Logger_log_held.simps [of strf "[]" a])
  also have "\<dots> = Logger_log_held strf [] r level e s"
    using r \<open>r \<noteq> a\<close>
    by (simp add: Logger_log_held.simps [of strf "[a]" r] Logger_log_held.simps [of strf "[]" r])
  finally show ?thesis by (simp add: Logger_log_def)
qed

theorem fallback_to_root_witness:
  "\<exists>s a s'. LoggerManager_new example_world = Inr s \<and> LoggerManager_getLogger ''net'' s = (a, s') \<and>
     a \<noteq> 0 \<and> Logger_log (\<lambda>f t. f) a INFO (example_event ''x'' 5) s' =
       Logger_log (\<lambda>f t. f) 0 INFO (example_event ''x'' 5) s'"
proof -
  obtain s where s: "LoggerManager_new example_world = Inr s" by (simp add: LoggerManager_new_eq)
  obtain a s' where g: "LoggerManager_getLogger ''net'' s = (a, s')" by force
  have ok: "store_ok s'"
    using getLogger_ok [OF LoggerManager_new_ok [OF s], of "''net''"] g by simp
  have "a = 1" "length (st_loggers s') = 2" "st_loggers s' ! 1 = (Logger_new ''net'')\<lparr>lg_root := Some 0\<rparr>"
    using s g by (auto simp: LoggerManager_new_eq LoggerManager_getLogger_def alloc_logger_def)
  with fallback_to_root [OF ok, of 1 INFO 0 "\<lambda>f t. f" "example_event ''x'' 5"] s g show ?thesis
    by (auto simp: Logger_new_def less_eq_log_level_def)
qed

text \<open>
  Replacing the formatter of a logger reaches exactly its appenders without a formatter
  of their own: those get the new one, every other appender of the program keeps its own.
\<close>

theorem setFormatter_inherited:
  assumes "Logger_setFormatter a val s = Inr s'" and "i < length (st_appenders s)"
  shows "ap_formatter (st_appenders s' ! i) =
    (if i \<in> set (lg_appenders (st_loggers s ! a)) \<and> \<not> ap_hasFormatter (st_appenders s ! i)
     then val else ap_formatter (st_appenders s ! i))"
  using assms
  by (auto simp: Logger_setFormatter_def update_logger_def Let_def foldl_inherit_nth
      split: if_splits)

theorem setFormatter_inherited_witness:
  "\<exists>s s'. LoggerManager_new example_world = Inr s \<and>
     Logger_setFormatter 0 (Some (fst (LogFormatter ''%m''))) s = Inr s' \<and>
     ap_formatter (st_appenders s' ! 0) = Some (fst (LogFormatter ''%m''))"
proof -
  let ?f = "fst (LogFormatter ''%m'')"
  obtain s where s: "LoggerManager_new example_world = Inr s" by (simp add: LoggerManager_new_eq)
  obtain s' where s': "Logger_setFormatter 0 (Some ?f) s = Inr s'"
    using s by (auto simp: LoggerManager_new_eq Logger_setFormatter_def Let_def)
  have "0 < length (st_appenders s)" "0 \<in> set (lg_appenders (st_loggers s ! 0))"
    "\<not> ap_hasFormatter (st_appenders s ! 0)"
    using s by (auto simp: LoggerManager_new_eq StdoutLogAppender_def)
  with setFormatter_inherited [OF s' this(1)] s s' show ?thesis by auto
qed

text \<open>
  Taking the formatter of an attached appender away breaks logging: after
  \<open>LogAppender::setFormatter(nullptr)\<close> the next event that passes both level gates
  dereferences a null formatter, although the logger has one to inherit.
\<close>

theorem null_appender_formatter_crashes:
  assumes "a < length (st_loggers s)" and "lg_level (st_loggers s ! a) \<le> level"
    and "lg_appenders (st_loggers s ! a) = i # js" and "i < length (st_appenders s)"
    and "ap_level (st_appenders s ! i) \<le> level"
  shows "Logger_log strf a level e (update_appender i (LogAppender_setFormatter None) s) =
    Inl NullFormatter"
proof -
  let ?ap = "LogAppender_setFormatter None (st_appenders s ! i)"
  have ap: "ap_formatter ?ap = None" "ap_level ?ap \<le> level"
    using assms(5) by (simp_all add: LogAppender_setFormatter_def)
  then have "LogAppender_log env ?ap level e w = Inl NullFormatter" for env w
    by (rule null_appender_log)
  then show ?thesis
    using assms by (simp add: Logger_log_def Logger_log_held.simps update_appender_def)
qed

theorem null_appender_formatter_crashes_witness:
  "\<exists>s. LoggerManager_new example_world = Inr s \<and> lg_formatter (st_loggers s ! 0) \<noteq> None \<and>
     Logger_log (\<lambda>f t. f) 0 INFO (example_event ''x'' 5) (update_appender 0 (LogAppender_setFormatter None) s) =
       Inl NullFormatter"
proof -
  obtain s where s: "LoggerManager_new example_world = Inr s" by (simp add: LoggerManager_new_eq)
  have "0 < length (st_loggers s)" "lg_level (st_loggers s ! 0) \<le> INFO"
    "lg_appenders (st_loggers s ! 0) = 0 # []" "0 < length (st_appenders s)"
    "ap_level (st_appenders s ! 0) \<le> INFO" "lg_formatter (st_loggers s ! 0) \<noteq> None"
    using s by (auto simp: LoggerManager_new_eq Logger_new_def StdoutLogAppender_def
        less_eq_log_level_def)
  with null_appender_formatter_crashes [OF this(1-5), of "\<lambda>f t. f" "example_event ''x'' 5"] s show ?thesis by blast
qed

end
