(* ===== verification/Logger_Threads.thy ===== *)
theory Logger_Threads
  imports Guarded_Serial Logger_Facts
begin

text \<open>
  A logger (\<open>Logger\<close>, gwn/log.cc) and the manager of the loggers as threads call them: sections on
  their spin locks. The loops over the appenders take a step per appender; a call of an appender,
  which has a lock of its own, and the call of the root logger are one step. \<open>getLogger\<close> searches,
  creates and registers. The level is read in front of the lock and \<open>setLevel\<close> takes none, so the
  level of the logger is a constant here.
\<close>

section \<open>The sections of a logger\<close>

datatype logger_work =
    Logging log_level log_event
  | Delivering log_level log_event "nat list"
  | Setting_formatter log_formatter
  | Handing_down "nat list"
  | Getting_formatter
  | Adding nat
  | Adopting nat
  | Pushing nat
  | Deleting nat
  | Clearing

datatype logger_answer = Completed | Formatter "log_formatter option" | Crashed log_error

definition outcome :: "log_store \<Rightarrow> log_error + log_store \<Rightarrow> log_store \<times> logger_answer" where
  "outcome s x = (case x of Inl er \<Rightarrow> (s, Crashed er) | Inr s' \<Rightarrow> (s', Completed))"

abbreviation ended :: "log_store \<times> logger_answer \<Rightarrow> log_store \<times> (logger_work + (logger_answer + logger_work))" where
  "ended x \<equiv> (fst x, Inr (Inl (snd x)))"

fun logger_body :: "(string \<Rightarrow> u64 \<Rightarrow> string) \<Rightarrow> nat \<Rightarrow> (logger_work, logger_answer, log_store) section_body" where
  "logger_body strf a (Logging level e) s =
     (if lg_appenders (st_loggers s ! a) \<noteq> [] then (s, Inl (Delivering level e (lg_appenders (st_loggers s ! a))))
      else (case lg_root (st_loggers s ! a) of
              None \<Rightarrow> (s, Inr (Inl Completed))
            | Some r \<Rightarrow> ended (outcome s (Logger_log_held strf [a] r level e s))))"
| "logger_body strf a (Delivering level e []) s = (s, Inr (Inl Completed))"
| "logger_body strf a (Delivering level e (i # is)) s =
     (if i < length (st_appenders s)
      then (case LogAppender_log (store_env strf s) (st_appenders s ! i) level e (st_world s) of
              Inl er \<Rightarrow> (s, Inr (Inl (Crashed er)))
            | Inr (ap, w) \<Rightarrow>
                (s\<lparr>st_appenders := (st_appenders s)[i := ap], st_world := w\<rparr>, Inl (Delivering level e is)))
      else (s, Inr (Inl (Crashed NullAppender))))"
| "logger_body strf a (Setting_formatter f) s =
     (update_logger a (\<lambda>lg. lg\<lparr>lg_formatter := Some f\<rparr>) s, Inl (Handing_down (lg_appenders (st_loggers s ! a))))"
| "logger_body strf a (Handing_down []) s = (s, Inr (Inl Completed))"
| "logger_body strf a (Handing_down (i # is)) s =
     (s\<lparr>st_appenders := inherit_formatter (lg_formatter (st_loggers s ! a)) (st_appenders s) i\<rparr>, Inl (Handing_down is))"
| "logger_body strf a Getting_formatter s = (s, Inr (Inl (Formatter (lg_formatter (st_loggers s ! a)))))"
| "logger_body strf a (Adding i) s =
     (s, Inl (if LogAppender_getFormatter (st_appenders s ! i) = None then Adopting i else Pushing i))"
| "logger_body strf a (Adopting i) s =
     (update_appender i (\<lambda>ap. ap\<lparr>ap_formatter := lg_formatter (st_loggers s ! a)\<rparr>) s, Inl (Pushing i))"
| "logger_body strf a (Pushing i) s =
     (update_logger a (\<lambda>lg. lg\<lparr>lg_appenders := lg_appenders lg @ [i]\<rparr>) s, Inr (Inl Completed))"
| "logger_body strf a (Deleting i) s = ended (outcome s (Logger_delAppender a i s))"
| "logger_body strf a Clearing s = ended (outcome s (Logger_clearAppenders a s))"

text \<open>The calls of a logger of level \<open>lim\<close> that get to its lock, with the first \<open>n\<close> appenders.\<close>

fun logger_call :: "log_level \<Rightarrow> nat \<Rightarrow> logger_work \<Rightarrow> bool" where
  "logger_call lim n (Logging level e) \<longleftrightarrow> lim \<le> level"
| "logger_call lim n (Delivering level e is) \<longleftrightarrow> False"
| "logger_call lim n (Handing_down is) \<longleftrightarrow> False"
| "logger_call lim n (Adding i) \<longleftrightarrow> i < n"
| "logger_call lim n (Adopting i) \<longleftrightarrow> False"
| "logger_call lim n (Pushing i) \<longleftrightarrow> False"
| "logger_call lim n _ \<longleftrightarrow> True"

fun logger_early :: "logger_work \<Rightarrow> nat" where
  "logger_early (Logging level e) = 1"
| "logger_early (Setting_formatter f) = 1"
| "logger_early _ = 0"

fun logger_late :: "logger_work \<Rightarrow> nat" where
  "logger_late (Delivering level e is) = length is"
| "logger_late (Handing_down is) = length is"
| "logger_late (Adding i) = 2"
| "logger_late (Adopting i) = 1"
| "logger_late _ = 0"

text \<open>The operations of the sequential model, and what is left of them inside a section.\<close>

fun logger_op :: "(string \<Rightarrow> u64 \<Rightarrow> string) \<Rightarrow> nat \<Rightarrow> logger_work \<Rightarrow> log_store \<Rightarrow> log_store \<times> logger_answer" where
  "logger_op strf a (Logging level e) s = outcome s (Logger_log strf a level e s)"
| "logger_op strf a (Delivering level e is) s =
     outcome s (case run_appenders (store_env strf s) is level e (st_appenders s) (st_world s) of
        Inl er \<Rightarrow> Inl er
      | Inr (aps, w) \<Rightarrow> Inr (s\<lparr>st_appenders := aps, st_world := w\<rparr>))"
| "logger_op strf a (Setting_formatter f) s = outcome s (Logger_setFormatter a (Some f) s)"
| "logger_op strf a (Handing_down is) s =
     (s\<lparr>st_appenders := foldl (inherit_formatter (lg_formatter (st_loggers s ! a))) (st_appenders s) is\<rparr>, Completed)"
| "logger_op strf a Getting_formatter s =
     (case Logger_getFormatter a s of Inl er \<Rightarrow> (s, Crashed er) | Inr f \<Rightarrow> (s, Formatter f))"
| "logger_op strf a (Adding i) s = outcome s (Logger_addAppender a i s)"
| "logger_op strf a (Adopting i) s =
     (update_logger a (\<lambda>lg. lg\<lparr>lg_appenders := lg_appenders lg @ [i]\<rparr>)
        (update_appender i (\<lambda>ap. ap\<lparr>ap_formatter := lg_formatter (st_loggers s ! a)\<rparr>) s), Completed)"
| "logger_op strf a (Pushing i) s =
     (update_logger a (\<lambda>lg. lg\<lparr>lg_appenders := lg_appenders lg @ [i]\<rparr>) s, Completed)"
| "logger_op strf a (Deleting i) s = outcome s (Logger_delAppender a i s)"
| "logger_op strf a Clearing s = outcome s (Logger_clearAppenders a s)"

section \<open>The contract of a serial object\<close>

definition logger_inv :: "nat \<Rightarrow> log_level \<Rightarrow> nat \<Rightarrow> log_store \<Rightarrow> bool" where
  "logger_inv a lim n s \<longleftrightarrow> store_ok s \<and> a < length (st_loggers s) \<and> lg_level (st_loggers s ! a) = lim \<and>
     length (st_appenders s) = n"

definition logger_knows :: "nat \<Rightarrow> log_level \<Rightarrow> nat \<Rightarrow> logger_work \<Rightarrow> log_store \<Rightarrow> bool" where
  "logger_knows a lim n w s \<longleftrightarrow> logger_inv a lim n s \<and> (case w of
     Logging level e \<Rightarrow> lim \<le> level
   | Delivering level e is \<Rightarrow> set is \<subseteq> set (lg_appenders (st_loggers s ! a))
   | Handing_down is \<Rightarrow> True
   | Adding i \<Rightarrow> i < n
   | Adopting i \<Rightarrow> i < n
   | Pushing i \<Rightarrow> i < n \<and> ap_formatter (st_appenders s ! i) \<noteq> None
   | _ \<Rightarrow> True)"

lemma store_env_same: "st_loggers s' = st_loggers s \<Longrightarrow> store_env strf s' = store_env strf s"
  by (simp add: store_env_def fun_eq_iff)

text \<open>An appender logs, and the invariant stays.\<close>

lemma deliver_inv:
  assumes "logger_inv a lim n s" and "LogAppender_log env (st_appenders s ! i) level e w = Inr (ap, w')"
  shows "logger_inv a lim n (s\<lparr>st_appenders := (st_appenders s)[i := ap], st_world := w'\<rparr>)"
proof -
  have "store_ok (s\<lparr>st_appenders := (st_appenders s)[i := ap], st_world := w'\<rparr>)"
    by (rule store_ok_frame [of s])
      (use assms(1) any_log.frame [OF assms(2)] in \<open>auto simp: logger_inv_def nth_update\<close>)
  with assms(1) show ?thesis by (simp add: logger_inv_def)
qed

lemma inherit_inv:
  assumes "logger_inv a lim n s"
  shows "logger_inv a lim n (s\<lparr>st_appenders := inherit_formatter (lg_formatter (st_loggers s ! a)) (st_appenders s) i\<rparr>)"
proof -
  have "lg_formatter (st_loggers s ! a) \<noteq> None"
    using assms store_ok_logger by (auto simp: logger_inv_def logger_ok_def)
  then have "store_ok (s\<lparr>st_appenders := inherit_formatter (lg_formatter (st_loggers s ! a)) (st_appenders s) i\<rparr>)"
    by - (rule store_ok_frame [of s], use assms in \<open>auto simp: logger_inv_def inherit_formatter_def nth_update\<close>)
  with assms show ?thesis by (simp add: logger_inv_def)
qed

lemma adopt_inv:
  assumes "logger_inv a lim n s"
  shows "logger_inv a lim n (update_appender i (\<lambda>ap. ap\<lparr>ap_formatter := lg_formatter (st_loggers s ! a)\<rparr>) s)"
proof -
  have "lg_formatter (st_loggers s ! a) \<noteq> None"
    using assms store_ok_logger by (auto simp: logger_inv_def logger_ok_def)
  then have "store_ok (update_appender i (\<lambda>ap. ap\<lparr>ap_formatter := lg_formatter (st_loggers s ! a)\<rparr>) s)"
    by - (rule store_ok_frame [of s], use assms in \<open>auto simp: logger_inv_def update_appender_def nth_update\<close>)
  with assms show ?thesis by (simp add: logger_inv_def update_appender_def)
qed

lemma formatter_inv:
  assumes "logger_inv a lim n s"
  shows "logger_inv a lim n (update_logger a (\<lambda>lg. lg\<lparr>lg_formatter := Some f\<rparr>) s)"
proof -
  have "store_ok (update_logger a (\<lambda>lg. lg\<lparr>lg_formatter := Some f\<rparr>) s)"
    using assms store_ok_logger by (intro store_ok_update_logger) (auto simp: logger_inv_def logger_ok_def)
  with assms show ?thesis by (simp add: logger_inv_def update_logger_def)
qed

lemma run_appenders_length: "run_appenders env is level e aps w = Inr (aps', w') \<Longrightarrow> length aps' = length aps"
  by (induction env "is" level e aps w rule: run_appenders.induct) (auto split: if_splits sum.splits prod.splits)

lemma Logger_log_held_length:
  "Logger_log_held strf hs a level e s = Inr s' \<Longrightarrow> length (st_appenders s') = length (st_appenders s)"
proof (induction strf hs a level e s rule: Logger_log_held.induct)
  case (1 strf hs a level e s)
  then show ?case
    by (auto simp: Logger_log_held.simps [of strf hs a level e s] split: if_splits sum.splits option.splits
        dest: run_appenders_length)
qed

lemma Logger_log_inv:
  assumes "logger_inv a lim n s"
  obtains s' where "Logger_log strf a level e s = Inr s'" and "logger_inv a lim n s'"
proof -
  obtain s' where "Logger_log strf a level e s = Inr s'" "store_ok s'" "st_loggers s' = st_loggers s"
    using assms Logger_log_ok [of s a strf level e] by (auto simp: logger_inv_def)
  moreover then have "length (st_appenders s') = length (st_appenders s)"
    by (auto simp: Logger_log_def dest: Logger_log_held_length)
  ultimately show thesis using assms that by (simp add: logger_inv_def)
qed

lemma delivers:
  assumes "logger_knows a lim n (Delivering level e is) s"
  obtains aps w where "run_appenders (store_env strf s) is level e (st_appenders s) (st_world s) = Inr (aps, w)"
proof -
  have "\<forall>i \<in> set is. i < length (st_appenders s) \<and> ap_formatter (st_appenders s ! i) \<noteq> None"
    using assms store_ok_logger [of s a] by (auto simp: logger_knows_def logger_inv_def logger_ok_def)
  from run_appenders_total [OF this, of "store_env strf s" level e "st_world s"] that show thesis by blast
qed

lemma logger_more:
  assumes "logger_knows a lim n w s" and "logger_body strf a w s = (s1, Inl w1)"
  shows "logger_knows a lim n w1 s1 \<and> logger_op strf a w s = logger_op strf a w1 s1"
proof (cases w)
  case (Logging level e)
  with assms show ?thesis
    by (auto simp: logger_knows_def logger_inv_def Logger_log_def Logger_log_held.simps [of strf "[]" a]
        split: if_splits option.splits)
next
  case (Delivering level e todo)
  with assms(2) obtain i js where w: "w = Delivering level e (i # js)" and i: "i < length (st_appenders s)"
    by (cases todo) (auto split: if_splits)
  obtain ap w' where log: "LogAppender_log (store_env strf s) (st_appenders s ! i) level e (st_world s) = Inr (ap, w')"
    and s1: "s1 = s\<lparr>st_appenders := (st_appenders s)[i := ap], st_world := w'\<rparr>" "w1 = Delivering level e js"
    using assms(2) w i by (auto split: sum.splits)
  have "logger_inv a lim n s1"
    using deliver_inv [OF _ log] assms(1) by (simp add: logger_knows_def s1)
  then have k: "logger_knows a lim n w1 s1" using assms(1) w by (simp add: logger_knows_def s1)
  have env: "store_env strf s1 = store_env strf s" by (rule store_env_same) (simp add: s1)
  obtain aps w2 where d: "run_appenders (store_env strf s1) js level e (st_appenders s1) (st_world s1) = Inr (aps, w2)"
    using delivers k s1(2) by metis
  have "run_appenders (store_env strf s) (i # js) level e (st_appenders s) (st_world s) = Inr (aps, w2)"
    using d by (simp add: i log env) (simp add: s1(1))
  then have "logger_op strf a w s = (s\<lparr>st_appenders := aps, st_world := w2\<rparr>, Completed)"
    by (simp add: w outcome_def del: run_appenders.simps)
  moreover have "logger_op strf a w1 s1 = (s1\<lparr>st_appenders := aps, st_world := w2\<rparr>, Completed)"
    using d by (simp add: s1(2) outcome_def)
  ultimately show ?thesis using k by (simp add: s1(1))
next
  case (Setting_formatter f)
  with assms formatter_inv [of a lim n s f] show ?thesis
    by (auto simp: logger_knows_def logger_inv_def Logger_setFormatter_def outcome_def update_logger_def)
next
  case (Handing_down todo)
  with assms(2) obtain i js where w: "w = Handing_down (i # js)" by (cases todo) auto
  with assms inherit_inv [of a lim n s i] show ?thesis by (auto simp: logger_knows_def)
next
  case (Adding i)
  with assms show ?thesis
    by (auto simp: logger_knows_def logger_inv_def Logger_addAppender_def LogAppender_getFormatter_def outcome_def Let_def)
next
  case (Adopting i)
  with assms have 1: "i < n" "logger_inv a lim n s" and
    s1: "s1 = update_appender i (\<lambda>ap. ap\<lparr>ap_formatter := lg_formatter (st_loggers s ! a)\<rparr>) s" "w1 = Pushing i"
    by (auto simp: logger_knows_def)
  from 1(2) have "lg_formatter (st_loggers s ! a) \<noteq> None"
    using store_ok_logger by (simp add: logger_inv_def logger_ok_def)
  with 1 have "ap_formatter (st_appenders s1 ! i) \<noteq> None" by (simp add: s1 update_appender_def logger_inv_def)
  with adopt_inv [OF 1(2)] 1(1) have "logger_knows a lim n w1 s1" by (simp add: logger_knows_def s1)
  with Adopting s1 show ?thesis by simp
qed (use assms in auto)

lemma logger_last:
  assumes "logger_knows a lim n w s" and "logger_body strf a w s = (s1, Inr (Inl r))"
  shows "logger_op strf a w s = (s1, r)"
proof (cases w)
  case (Logging level e)
  with assms show ?thesis
    by (auto simp: logger_knows_def logger_inv_def Logger_log_def Logger_log_held.simps [of strf "[]" a] outcome_def
        split: if_splits option.splits)
next
  case (Delivering level e todo)
  with assms have "\<exists>aps w. run_appenders (store_env strf s) todo level e (st_appenders s) (st_world s) = Inr (aps, w)"
    by (metis delivers)
  with assms(2) Delivering show ?thesis
    by (cases todo) (auto simp: outcome_def split: if_splits sum.splits)
next
  case (Handing_down todo)
  with assms(2) show ?thesis by (cases todo) auto
next
  case Getting_formatter
  with assms show ?thesis by (auto simp: logger_knows_def logger_inv_def Logger_getFormatter_def)
next
  case (Adding i)
  with assms(2) show ?thesis by (auto split: if_splits)
qed (use assms(2) in \<open>auto simp: prod_eq_iff\<close>)

lemma outcome_inv:
  assumes "\<exists>s'. x = Inr s' \<and> logger_inv a lim n s'" and "outcome s x = (s', r)"
  shows "logger_inv a lim n s' \<and> r = Completed"
  using assms by (auto simp: outcome_def)

lemma addAppender_inv:
  assumes "logger_inv a lim n s" and "i < n"
  shows "\<exists>s'. Logger_addAppender a i s = Inr s' \<and> logger_inv a lim n s'"
proof -
  obtain s' where s': "Logger_addAppender a i s = Inr s'" "store_ok s'"
    using assms addAppender_ok [of s a i] by (auto simp: logger_inv_def)
  then have "length (st_loggers s') = length (st_loggers s)" "length (st_appenders s') = length (st_appenders s)"
    "lg_level (st_loggers s' ! a) = lg_level (st_loggers s ! a)"
    using assms(1)
    by (auto simp: logger_inv_def Logger_addAppender_def Let_def update_logger_def update_appender_def nth_list_update
        split: if_split_asm)
  with s' assms(1) show ?thesis by (simp add: logger_inv_def)
qed

lemma logger_op_inv:
  assumes "logger_call lim n w" and "logger_inv a lim n s" and "logger_op strf a w s = (s', r)"
  shows "logger_inv a lim n s' \<and> (\<forall>er. r \<noteq> Crashed er)"
proof (cases w)
  case (Logging level e)
  have "\<exists>s'. Logger_log strf a level e s = Inr s' \<and> logger_inv a lim n s'"
    using Logger_log_inv [OF assms(2)] by metis
  with outcome_inv assms(3) Logging show ?thesis by fastforce
next
  case (Setting_formatter f)
  have "\<exists>s'. Logger_setFormatter a (Some f) s = Inr s' \<and> logger_inv a lim n s'"
    using assms(2) setFormatter_ok [of s a f]
    by (auto simp: logger_inv_def Logger_setFormatter_def Let_def update_logger_def)
  with outcome_inv assms(3) Setting_formatter show ?thesis by fastforce
next
  case Getting_formatter
  with assms(2,3) show ?thesis by (auto simp: Logger_getFormatter_def logger_inv_def)
next
  case (Adding i)
  with assms outcome_inv [OF addAppender_inv [OF assms(2), of i]] show ?thesis by auto
next
  case (Deleting i)
  have "\<exists>s'. Logger_delAppender a i s = Inr s' \<and> logger_inv a lim n s'"
    using assms(2) delAppender_ok [of s a i]
    by (auto simp: logger_inv_def Logger_delAppender_def update_logger_def)
  with outcome_inv assms(3) Deleting show ?thesis by fastforce
next
  case Clearing
  have "\<exists>s'. Logger_clearAppenders a s = Inr s' \<and> logger_inv a lim n s'"
    using assms(2) clearAppenders_ok [of s a]
    by (auto simp: logger_inv_def Logger_clearAppenders_def update_logger_def)
  with outcome_inv assms(3) Clearing show ?thesis by fastforce
qed (use assms(1) in simp_all)

interpretation logger_section:
  guarded_object spinlock_guards mutex_holds "\<lambda>w. Exclusive" "logger_body strf a" "\<lambda>s. ()" logger_early logger_late
proof unfold_locales
  show "logger_early w' < logger_early w \<or> logger_early w' = logger_early w \<and> logger_late w' < logger_late w"
    if "logger_body strf a w s = (s', Inl w') \<or> logger_body strf a w s = (s', Inr (Inr w'))" for w w' s s'
    using that by (cases "(strf, a, w, s)" rule: logger_body.cases) (auto split: option.splits sum.splits if_splits)
qed (auto intro: spinlock_new)

interpretation logger: serial_object spinlock_guards mutex_holds "\<lambda>w. Exclusive" "logger_body strf a" "\<lambda>s. ()"
  logger_early logger_late "logger_call lim n" "logger_op strf a" "logger_inv a lim n"
proof unfold_locales
  show "logger_body strf a w s \<noteq> (s', Inr (Inr w'))" for w s s' w'
    by (cases "(strf, a, w, s)" rule: logger_body.cases) (auto split: option.splits sum.splits)
  show "logger_op strf a w s = (s', r)"
    if "logger_call lim n w" "logger_inv a lim n s" "body_run (logger_body strf a) w s s' (Inl r)" for w s s' r
  proof (rule body_run_op [OF that(3) HOL.refl, where I = "logger_knows a lim n"])
    show "logger_knows a lim n w s" using that(1,2) by (cases w) (simp_all add: logger_knows_def)
  qed (auto dest: logger_more logger_last)
qed (auto dest: logger_op_inv)

section \<open>Loggers shared by threads\<close>

text \<open>A call is one of the operations of the sequential model.\<close>

lemma logger_op_reach:
  assumes "logger_call lim n w" and "logger_inv a lim n s" and "logger_op strf a w s = (s', r)" and "log_reach strf s"
  shows "log_reach strf s'"
proof -
  have "log_reach strf s'" if "x = run_op strf q s" "op_ok s q" "passes_formatter q" "outcome s x = (s', r)" for q x
    using that assms(4) by (auto simp: outcome_def split: sum.splits intro: log_reach.step)
  note ops = this [OF run_op.simps(13) [symmetric]] this [OF run_op.simps(10) [symmetric]]
    this [OF run_op.simps(5) [symmetric]] this [OF run_op.simps(6) [symmetric]] this [OF run_op.simps(7) [symmetric]]
    this [OF run_op.simps(8) [of _ _ "Some f" for f, symmetric]]
  show ?thesis
    using assms ops by (cases w) (auto simp: logger_inv_def Logger_getFormatter_def split: if_splits)
qed

lemma logger_replay:
  assumes "replay (logger_op strf a) s h = Some s'" and "\<forall>c \<in> set h. logger_call lim n (fst (snd c))"
    and "logger_inv a lim n s" and "log_reach strf s"
  shows "log_reach strf s' \<and> (\<forall>c \<in> set h. \<forall>er. snd (snd c) \<noteq> Crashed er)"
  using assms
proof (induction h arbitrary: s)
  case (Cons c h)
  obtain i w r where c: "c = (i, w, r)" by (cases c)
  obtain s1 where s1: "logger_op strf a w s = (s1, r)" "replay (logger_op strf a) s1 h = Some s'"
    using Cons.prems(1) c by (auto split: prod.splits if_splits)
  have w: "logger_call lim n w" using Cons.prems(2) c by simp
  from logger_op_inv [OF w Cons.prems(3) s1(1)] logger_op_reach [OF w Cons.prems(3) s1(1) Cons.prems(4)]
    Cons.IH [OF s1(2)] Cons.prems(2) show ?case by (simp add: c)
qed simp

text \<open>
  C16: Threads that log through one logger at the same time, add and remove its appenders and change
  its formatter meanwhile, leave all loggers and appenders as they are after the same calls one
  after the other, in an order that is the order of each thread, with the same answers; the state
  is one that a program with a single thread reaches, and no call dereferences null.
\<close>

theorem logger_calls_serial:
  assumes "section_moves spinlock_guards (\<lambda>w. Exclusive) (logger_body strf a)
      (logger_call (lg_level (st_loggers s0 ! a)) (length (st_appenders s0))) as
      (None, s0, replicate k (Outside None)) = Some (m, s, pcs)"
    and "log_reach strf s0" and "a < length (st_loggers s0)" and "\<forall>pc \<in> set pcs. \<exists>r. pc = Outside r"
  shows "log_reach strf s \<and>
    (\<exists>h. replay (logger_op strf a) s0 h = Some s \<and> (\<forall>c \<in> set h. \<forall>er. snd (snd c) \<noteq> Crashed er) \<and>
      (\<forall>i < length pcs. calls_of i h = begun i as \<and> pcs ! i = Outside (latest (answers_of i h))))"
proof -
  let ?lim = "lg_level (st_loggers s0 ! a)" and ?n = "length (st_appenders s0)"
  have inv: "logger_inv a ?lim ?n s0" using assms(2,3) log_reach_ok by (simp add: logger_inv_def)
  from logger.linearizable [OF assms(1) mutex_free inv assms(4)] obtain h where
    h: "replay (logger_op strf a) s0 h = Some s" "\<forall>c \<in> set h. fst c < length pcs"
      "\<forall>i < length pcs. calls_of i h = begun i as \<and> pcs ! i = Outside (latest (answers_of i h))"
    by blast
  have "\<forall>c \<in> set h. logger_call ?lim ?n (fst (snd c))"
  proof
    fix c assume "c \<in> set h"
    with h(2,3) have "Begin (fst c) (fst (snd c)) \<in> set as" by (auto intro!: begun_in in_calls_of)
    with assms(1) show "logger_call ?lim ?n (fst (snd c))" by (rule moves_call)
  qed
  from logger_replay [OF h(1) this inv assms(2)] h(1,3) show ?thesis by blast
qed

text \<open>One thread logs through the new root logger, another reads the formatter.\<close>

definition logger_moves :: "logger_work move list" where
  "logger_moves = [Begin 0 (Logging INFO (example_event ''hello'' 1)), Begin 1 Getting_formatter,
     Go 0, Go 0, Go 0, Go 0, Go 0, Go 1, Go 1, Go 1]"

theorem logger_calls_serial_witness:
  "\<exists>s0 m s. log_reach (\<lambda>f t. f) s0 \<and> st_world s0 = example_world \<and>
     section_moves spinlock_guards (\<lambda>w. Exclusive) (logger_body (\<lambda>f t. f) 0) (logger_call DEBUG 1) logger_moves
       (None, s0, replicate 2 (Outside None)) =
       Some (m, s, [Outside (Some Completed), Outside (Some (Formatter (Some (fst (LogFormatter default_pattern)))))]) \<and>
     log_reach (\<lambda>f t. f) s"
proof -
  obtain s0 where s0: "LoggerManager_new example_world = Inr s0" by (simp add: LoggerManager_new_eq)
  then have r: "log_reach (\<lambda>f t. f) s0" by (rule log_reach.start)
  have lim: "lg_level (st_loggers s0 ! 0) = DEBUG" "length (st_appenders s0) = 1" "0 < length (st_loggers s0)"
    "st_world s0 = example_world"
    using s0 by (auto simp: LoggerManager_new_eq Logger_new_def)
  have "\<exists>m s. section_moves spinlock_guards (\<lambda>w. Exclusive) (logger_body (\<lambda>f t. f) 0) (logger_call DEBUG 1) logger_moves
       (None, s0, replicate 2 (Outside None)) =
       Some (m, s, [Outside (Some Completed), Outside (Some (Formatter (Some (fst (LogFormatter default_pattern)))))])"
    using s0
    by (auto simp: logger_moves_def LoggerManager_new_eq Logger_new_def numeral_2_eq_2 section_thread_def
        spinlock_guards_def guard_defs Spinlock_lock_def Spinlock_unlock_def less_eq_log_level_def
        LogAppender_log.simps StdoutLogAppender_log_def StdoutLogAppender_def)
  then obtain m s where run: "section_moves spinlock_guards (\<lambda>w. Exclusive) (logger_body (\<lambda>f t. f) 0) (logger_call DEBUG 1)
       logger_moves (None, s0, replicate 2 (Outside None)) =
       Some (m, s, [Outside (Some Completed), Outside (Some (Formatter (Some (fst (LogFormatter default_pattern)))))])"
    by blast
  with logger_calls_serial [of "\<lambda>f t. f" 0 s0 logger_moves 2 m s] lim r show ?thesis by auto
qed

section \<open>The manager\<close>

text \<open>The sections of \<open>getLogger\<close>.\<close>

datatype manager_work = Looking string | Creating string | Registering string nat

fun manager_body :: "(manager_work, nat, log_store) section_body" where
  "manager_body (Looking name) s =
     (case map_find (st_mgr_loggers s) name of
        Some a \<Rightarrow> (s, Inr (Inl a))
      | None \<Rightarrow> (s, Inl (Creating name)))"
| "manager_body (Creating name) s =
     (case alloc_logger ((Logger_new name)\<lparr>lg_root := Some (st_mgr_root s)\<rparr>) s of
        (a, s') \<Rightarrow> (s', Inl (Registering name a)))"
| "manager_body (Registering name a) s =
     (s\<lparr>st_mgr_loggers := map_assign name a (st_mgr_loggers s)\<rparr>, Inr (Inl a))"

fun manager_call :: "manager_work \<Rightarrow> bool" where
  "manager_call (Looking name) \<longleftrightarrow> True"
| "manager_call _ \<longleftrightarrow> False"

fun manager_late :: "manager_work \<Rightarrow> nat" where
  "manager_late (Looking name) = 2"
| "manager_late (Creating name) = 1"
| "manager_late (Registering name a) = 0"

fun manager_op :: "manager_work \<Rightarrow> log_store \<Rightarrow> log_store \<times> nat" where
  "manager_op (Looking name) s = (case LoggerManager_getLogger name s of (a, s') \<Rightarrow> (s', a))"
| "manager_op (Creating name) s =
     (case alloc_logger ((Logger_new name)\<lparr>lg_root := Some (st_mgr_root s)\<rparr>) s of
        (a, s') \<Rightarrow> (s'\<lparr>st_mgr_loggers := map_assign name a (st_mgr_loggers s')\<rparr>, a))"
| "manager_op (Registering name a) s = (s\<lparr>st_mgr_loggers := map_assign name a (st_mgr_loggers s)\<rparr>, a)"

interpretation manager_section:
  guarded_object spinlock_guards mutex_holds "\<lambda>w. Exclusive" manager_body "\<lambda>s. ()" "\<lambda>w. 0" manager_late
proof unfold_locales
  show "(0::nat) < 0 \<or> (0::nat) = 0 \<and> manager_late w' < manager_late w"
    if "manager_body w s = (s', Inl w') \<or> manager_body w s = (s', Inr (Inr w'))" for w w' s s'
    using that by (cases "(w, s)" rule: manager_body.cases) (auto split: option.splits prod.splits)
qed (auto intro: spinlock_new)

interpretation manager: serial_object spinlock_guards mutex_holds "\<lambda>w. Exclusive" manager_body "\<lambda>s. ()"
  "\<lambda>w. 0" manager_late manager_call manager_op store_ok
proof unfold_locales
  show "manager_body w s \<noteq> (s', Inr (Inr w'))" for w s s' w'
    by (cases w) (auto split: option.splits prod.splits)
  show "manager_op w s = (s', r)"
    if "body_run manager_body w s s' (Inl r)" for w s s' r
  proof (rule body_run_op [OF that HOL.refl, where I = "\<lambda>w s. True"])
    show "True \<and> manager_op w s = manager_op w1 s1" if "manager_body w s = (s1, Inl w1)" for w s s1 w1
      using that by (cases w) (auto simp: LoggerManager_getLogger_def split: option.splits prod.splits)
    show "manager_op w s = (s1, r)" if "manager_body w s = (s1, Inr (Inl r))" for w s s1 r
      using that by (cases w) (auto simp: LoggerManager_getLogger_def split: option.splits prod.splits)
  qed simp
  show "store_ok s'" if "manager_call w" "store_ok s" "manager_op w s = (s', r)" for w s s' r
    using that getLogger_ok by (cases w) (auto split: prod.splits, metis snd_conv)
qed simp

lemma manager_replay:
  assumes "replay manager_op s h = Some s'" and "\<forall>c \<in> set h. manager_call (fst (snd c))" and "log_reach strf s"
  shows "log_reach strf s' \<and> (\<forall>x a. map_find (st_mgr_loggers s) x = Some a \<longrightarrow> map_find (st_mgr_loggers s') x = Some a) \<and>
    (\<forall>i x a. (i, Looking x, a) \<in> set h \<longrightarrow> map_find (st_mgr_loggers s') x = Some a)"
  using assms
proof (induction h arbitrary: s)
  case (Cons c h)
  obtain i x a where c: "c = (i, Looking x, a)" using Cons.prems(2) by (cases c; cases "fst (snd c)") auto
  obtain s1 where s1: "LoggerManager_getLogger x s = (a, s1)" "replay manager_op s1 h = Some s'"
    using Cons.prems(1) c by (auto split: prod.splits if_splits)
  have r: "log_reach strf s1"
    using log_reach.step [OF Cons.prems(3), of "GetLogger x"] s1(1) by simp
  have "map_sorted (st_mgr_loggers s)" using log_reach_ok [OF Cons.prems(3)] by (simp add: store_ok_def mgr_ok_def)
  then have "map_find (st_mgr_loggers s1) x = Some a"
    "\<And>y b. map_find (st_mgr_loggers s) y = Some b \<Longrightarrow> map_find (st_mgr_loggers s1) y = Some b"
    using s1(1) by (auto simp: LoggerManager_getLogger_def alloc_logger_def map_find_assign split: option.splits)
  with Cons.IH [OF s1(2) _ r] Cons.prems(2) show ?case by (auto simp: c)
qed simp

text \<open>
  C18: Threads that ask the manager for loggers at the same time get what the same calls one after
  the other give: every answer is the registered logger of its name, so threads that ask for one
  name, new or not, get one logger, and a logger that was registered stays.
\<close>

theorem get_logger_agrees:
  assumes "section_moves spinlock_guards (\<lambda>w. Exclusive) manager_body manager_call as
      (None, s0, replicate k (Outside None)) = Some (m, s, pcs)"
    and "log_reach strf s0" and "\<forall>pc \<in> set pcs. \<exists>r. pc = Outside r"
  shows "log_reach strf s \<and>
    (\<forall>x a. map_find (st_mgr_loggers s0) x = Some a \<longrightarrow> map_find (st_mgr_loggers s) x = Some a) \<and>
    (\<exists>h. replay manager_op s0 h = Some s \<and>
      (\<forall>i < length pcs. calls_of i h = begun i as \<and> pcs ! i = Outside (latest (answers_of i h))) \<and>
      (\<forall>i x a. (i, Looking x, a) \<in> set h \<longrightarrow> map_find (st_mgr_loggers s) x = Some a))"
proof -
  from manager.linearizable [OF assms(1) mutex_free log_reach_ok [OF assms(2)] assms(3)] obtain h where
    h: "replay manager_op s0 h = Some s" "\<forall>c \<in> set h. fst c < length pcs"
      "\<forall>i < length pcs. calls_of i h = begun i as \<and> pcs ! i = Outside (latest (answers_of i h))"
    by blast
  have "\<forall>c \<in> set h. manager_call (fst (snd c))"
  proof
    fix c assume "c \<in> set h"
    with h(2,3) have "Begin (fst c) (fst (snd c)) \<in> set as" by (auto intro!: begun_in in_calls_of)
    with assms(1) show "manager_call (fst (snd c))" by (rule moves_call)
  qed
  from manager_replay [OF h(1) this assms(2)] h(1,3) show ?thesis by blast
qed

definition manager_moves :: "manager_work move list" where
  "manager_moves = [Begin 0 (Looking ''net''), Begin 1 (Looking ''net''), Go 0, Go 0, Go 0, Go 0, Go 0, Go 1, Go 1, Go 1]"

theorem get_logger_agrees_witness:
  "\<exists>s0 m s. section_moves spinlock_guards (\<lambda>w. Exclusive) manager_body manager_call manager_moves
       (None, s0, replicate 2 (Outside None)) = Some (m, s, replicate 2 (Outside (Some 1))) \<and>
     log_reach (\<lambda>f t. f) s \<and> map_find (st_mgr_loggers s) ''net'' = Some 1"
proof -
  obtain s0 where s0: "LoggerManager_new example_world = Inr s0" by (simp add: LoggerManager_new_eq)
  then have r: "log_reach (\<lambda>f t. f) s0" by (rule log_reach.start)
  have "\<exists>m s. section_moves spinlock_guards (\<lambda>w. Exclusive) manager_body manager_call manager_moves
       (None, s0, replicate 2 (Outside None)) = Some (m, s, replicate 2 (Outside (Some 1))) \<and>
     map_find (st_mgr_loggers s) ''net'' = Some 1"
    using s0
    by (auto simp: manager_moves_def LoggerManager_new_eq Logger_new_def numeral_2_eq_2 section_thread_def
        spinlock_guards_def guard_defs Spinlock_lock_def Spinlock_unlock_def alloc_logger_def)
  with get_logger_agrees [OF _ r] show ?thesis by fastforce
qed

end
