(* ===== verification/Console_Threads.thy ===== *)
theory Console_Threads
  imports Guarded_Serial Log_Appender
begin

text \<open>
  A console appender (\<open>StdoutLogAppender\<close>, gwn/log.cc) that several loggers share, as threads call
  it: sections on its spin lock. \<open>log\<close> writes the items of its format to \<open>std::cout\<close> one by one
  under the lock. The level is read in front of the lock; \<open>setLevel\<close> takes no lock at all, so the
  level is a constant here.
\<close>

section \<open>The sections\<close>

record console =
  cs_appender :: log_appender
  cs_world :: world

text \<open>
  \<open>Inheriting\<close> is what \<open>Logger::setFormatter\<close> does under the lock of each of its appenders,
  \<open>Adopting\<close> what \<open>Logger::addAppender\<close> does once \<open>getFormatter\<close> has returned null.
\<close>

datatype console_work =
    Formatting log_level log_event
  | Printing log_level log_event "format_item list"
  | Setting_formatter "log_formatter option"
  | Getting_formatter
  | Inheriting "log_formatter option"
  | Adopting "log_formatter option"

datatype console_answer = Logged | Formatter "log_formatter option" | Crashed log_error

definition change_appender :: "(log_appender \<Rightarrow> log_appender) \<Rightarrow> console \<Rightarrow> console" where
  "change_appender g s = s\<lparr>cs_appender := g (cs_appender s)\<rparr>"

definition inherit_one :: "log_formatter option \<Rightarrow> log_appender \<Rightarrow> log_appender" where
  "inherit_one val ap = (if \<not> ap_hasFormatter ap then ap\<lparr>ap_formatter := val\<rparr> else ap)"

fun console_body :: "fmt_env \<Rightarrow> (console_work, console_answer, console) section_body" where
  "console_body env (Formatting level e) s =
     (case ap_formatter (cs_appender s) of
        None \<Rightarrow> (s, Inr (Inl (Crashed NullFormatter)))
      | Some f \<Rightarrow> (s, Inl (Printing level e (fm_items f))))"
| "console_body env (Printing level e []) s = (s, Inr (Inl Logged))"
| "console_body env (Printing level e (it # its)) s =
     (s\<lparr>cs_world := cout (item_format env it level e) (cs_world s)\<rparr>, Inl (Printing level e its))"
| "console_body env (Setting_formatter val) s =
     (change_appender (LogAppender_setFormatter val) s, Inr (Inl Logged))"
| "console_body env Getting_formatter s =
     (s, Inr (Inl (Formatter (LogAppender_getFormatter (cs_appender s)))))"
| "console_body env (Inheriting val) s = (change_appender (inherit_one val) s, Inr (Inl Logged))"
| "console_body env (Adopting val) s =
     (change_appender (\<lambda>ap. ap\<lparr>ap_formatter := val\<rparr>) s, Inr (Inl Logged))"

text \<open>The calls that get to the lock of an appender of the given level.\<close>

fun console_call :: "log_level \<Rightarrow> console_work \<Rightarrow> bool" where
  "console_call lim (Formatting level e) \<longleftrightarrow> lim \<le> level"
| "console_call lim (Printing level e its) \<longleftrightarrow> False"
| "console_call lim _ \<longleftrightarrow> True"

fun console_early :: "console_work \<Rightarrow> nat" where
  "console_early (Formatting level e) = 1"
| "console_early _ = 0"

fun console_late :: "console_work \<Rightarrow> nat" where
  "console_late (Printing level e its) = length its"
| "console_late _ = 0"

text \<open>The operations in one piece; for a logging call this is \<open>StdoutLogAppender_log\<close>.\<close>

fun console_op :: "fmt_env \<Rightarrow> console_work \<Rightarrow> console \<Rightarrow> console \<times> console_answer" where
  "console_op env (Formatting level e) s =
     (case StdoutLogAppender_log env (cs_appender s) level e (cs_world s) of
        Inl er \<Rightarrow> (s, Crashed er)
      | Inr (ap, w) \<Rightarrow> (s\<lparr>cs_appender := ap, cs_world := w\<rparr>, Logged))"
| "console_op env (Printing level e its) s =
     (s\<lparr>cs_world := cout (concat (map (\<lambda>it. item_format env it level e) its)) (cs_world s)\<rparr>, Logged)"
| "console_op env (Setting_formatter val) s = (change_appender (LogAppender_setFormatter val) s, Logged)"
| "console_op env Getting_formatter s = (s, Formatter (LogAppender_getFormatter (cs_appender s)))"
| "console_op env (Inheriting val) s = (change_appender (inherit_one val) s, Logged)"
| "console_op env (Adopting val) s = (change_appender (\<lambda>ap. ap\<lparr>ap_formatter := val\<rparr>) s, Logged)"

section \<open>The contract of a serial object\<close>

definition console_level :: "log_level \<Rightarrow> console \<Rightarrow> bool" where
  "console_level lim s \<longleftrightarrow> ap_level (cs_appender s) = lim"

definition console_knows :: "log_level \<Rightarrow> console_work \<Rightarrow> console \<Rightarrow> bool" where
  "console_knows lim w s \<longleftrightarrow> console_level lim s \<and>
     (case w of Formatting level e \<Rightarrow> lim \<le> level | _ \<Rightarrow> True)"

lemma cout_cout: "cout t (cout s w) = cout (s @ t) w"
  by (simp add: cout_def)

lemma cout_nothing: "cout [] w = w"
  by (simp add: cout_def)

lemma console_more:
  assumes "console_knows lim w s" and "console_body env w s = (s1, Inl w1)"
  shows "console_knows lim w1 s1 \<and> console_op env w s = console_op env w1 s1"
  using assms
  by (cases "(env, w, s)" rule: console_body.cases)
    (auto simp: console_knows_def console_level_def StdoutLogAppender_log_def cout_cout split: option.splits)

lemma console_last:
  assumes "console_knows lim w s" and "console_body env w s = (s1, Inr (Inl r))"
  shows "console_op env w s = (s1, r)"
  using assms
  by (cases "(env, w, s)" rule: console_body.cases)
    (auto simp: console_knows_def console_level_def StdoutLogAppender_log_def cout_nothing split: option.splits)

lemma console_op_level: "console_level lim s \<Longrightarrow> console_op env w s = (s', r) \<Longrightarrow> console_level lim s'"
  by (cases "(env, w, s)" rule: console_op.cases)
    (auto simp: console_level_def StdoutLogAppender_log_def change_appender_def inherit_one_def
      LogAppender_setFormatter_def split: sum.splits if_splits option.splits)

interpretation console_section:
  guarded_object spinlock_guards mutex_holds "\<lambda>w. Exclusive" "console_body env" "\<lambda>s. ()" console_early console_late
proof unfold_locales
  show "console_early w' < console_early w \<or> console_early w' = console_early w \<and> console_late w' < console_late w"
    if "console_body env w s = (s', Inl w') \<or> console_body env w s = (s', Inr (Inr w'))" for w w' s s'
    using that by (cases "(env, w, s)" rule: console_body.cases) (auto split: option.splits)
qed (auto intro: spinlock_new)

interpretation console: serial_object spinlock_guards mutex_holds "\<lambda>w. Exclusive" "console_body env" "\<lambda>s. ()"
  console_early console_late "console_call lim" "console_op env" "console_level lim"
proof unfold_locales
  show "console_body env w s \<noteq> (s', Inr (Inr w'))" for w s s' w'
    by (cases "(env, w, s)" rule: console_body.cases) (auto split: option.splits)
  show "console_op env w s = (s', r)"
    if "console_call lim w" "console_level lim s" "body_run (console_body env) w s s' (Inl r)" for w s s' r
  proof (rule body_run_op [OF that(3) HOL.refl, where I = "console_knows lim"])
    show "console_knows lim w s" using that by (cases w) (simp_all add: console_knows_def)
  qed (auto dest: console_more console_last)
qed (auto dest: console_op_level)

section \<open>Whole lines\<close>

definition line :: "fmt_env \<Rightarrow> log_formatter \<Rightarrow> console_work \<Rightarrow> string" where
  "line env f w = (case w of Formatting level e \<Rightarrow> LogFormatter_format env f level e | _ \<Rightarrow> [])"

lemma replay_lines:
  assumes "replay (console_op env) s h = Some s'" and "console_level lim s" and "ap_formatter (cs_appender s) = Some f"
    and "\<forall>c \<in> set h. \<exists>level e. fst (snd c) = Formatting level e \<and> lim \<le> level"
  shows "w_cout (cs_world s') = w_cout (cs_world s) @ concat (map (\<lambda>c. line env f (fst (snd c))) h)"
  using assms
proof (induction h arbitrary: s)
  case (Cons c h)
  obtain i level e r where c: "c = (i, Formatting level e, r)" "lim \<le> level" using Cons.prems(4) by (cases c) fastforce
  let ?s1 = "s\<lparr>cs_world := cout (LogFormatter_format env f level e) (cs_world s)\<rparr>"
  have "console_op env (Formatting level e) s = (?s1, Logged)"
    using c(2) Cons.prems(2,3) by (simp add: StdoutLogAppender_log_def console_level_def del: LogFormatter_format.simps)
  with Cons.prems c have "replay (console_op env) ?s1 h = Some s'"
    by (auto simp del: LogFormatter_format.simps console_op.simps split: if_splits)
  from Cons.IH [OF this] Cons.prems(2-4) show ?case
    by (simp add: c(1) console_level_def line_def cout_def del: LogFormatter_format.simps)
qed simp

text \<open>
  C17: Threads that log through one console appender at the same time, and change or read its
  formatter meanwhile, leave the appender and the console as they are after the same calls one
  after the other, in an order that is the order of each thread; every call has its answer in that
  order. When all calls log, what is added to the console is the sequence of the complete
  formatted lines: no line is torn by another.
\<close>

theorem console_lines_whole:
  assumes "section_moves spinlock_guards (\<lambda>w. Exclusive) (console_body env) (console_call lim) as
      (None, s0, replicate n (Outside None)) = Some (m, s, pcs)"
    and "ap_level (cs_appender s0) = lim" and "\<forall>pc \<in> set pcs. \<exists>r. pc = Outside r"
  shows "\<exists>h. replay (console_op env) s0 h = Some s \<and>
    (\<forall>i < length pcs. calls_of i h = begun i as \<and> pcs ! i = Outside (latest (answers_of i h))) \<and>
    (\<forall>f. ap_formatter (cs_appender s0) = Some f \<longrightarrow>
       (\<forall>i w. Begin i w \<in> set as \<longrightarrow> (\<exists>level e. w = Formatting level e)) \<longrightarrow>
       w_cout (cs_world s) = w_cout (cs_world s0) @ concat (map (\<lambda>c. line env f (fst (snd c))) h))"
proof -
  have lim: "console_level lim s0" using assms(2) by (simp add: console_level_def)
  from console.linearizable [OF assms(1) mutex_free lim assms(3)] obtain h where
    h: "replay (console_op env) s0 h = Some s" "\<forall>c \<in> set h. fst c < length pcs"
      "\<forall>i < length pcs. calls_of i h = begun i as \<and> pcs ! i = Outside (latest (answers_of i h))"
    by blast
  have began: "Begin (fst c) (fst (snd c)) \<in> set as" if "c \<in> set h" for c
    using h(2,3) that by (auto intro!: begun_in in_calls_of)
  have "w_cout (cs_world s) = w_cout (cs_world s0) @ concat (map (\<lambda>c. line env f (fst (snd c))) h)"
    if f: "ap_formatter (cs_appender s0) = Some f"
      and only: "\<forall>i w. Begin i w \<in> set as \<longrightarrow> (\<exists>level e. w = Formatting level e)" for f
    using moves_call [OF assms(1) began] only began by (intro replay_lines [OF h(1) lim f]) (metis console_call.simps(1))
  with h show ?thesis by blast
qed

text \<open>Two threads log a message each; the second comes to the lock while the first prints.\<close>

definition console_example :: "console" where
  "console_example =
     \<lparr>cs_appender = \<lparr>ap_level = DEBUG, ap_hasFormatter = False,
        ap_formatter = Some \<lparr>fm_pattern = ''%m%n'', fm_items = [MessageFormatItem, NewLineFormatItem], fm_error = False\<rparr>,
        ap_impl = StdoutAppender\<rparr>,
      cs_world = \<lparr>w_cout = [], w_files = Map.empty, w_openable = (\<lambda>_. True)\<rparr>\<rparr>"

definition console_moves :: "console_work move list" where
  "console_moves = [Begin 1 (Formatting INFO (example_event ''two'' 1)), Begin 0 (Formatting WARN (example_event ''one'' 1)),
     Go 0, Go 0, Go 0, Go 0, Go 0, Go 0, Go 1, Go 1, Go 1, Go 1, Go 1, Go 1]"

theorem console_lines_whole_witness:
  "\<exists>m s h. section_moves spinlock_guards (\<lambda>w. Exclusive) (console_body example_env) (console_call DEBUG) console_moves
      (None, console_example, replicate 2 (Outside None)) = Some (m, s, replicate 2 (Outside (Some Logged))) \<and>
    w_cout (cs_world s) = ''one'' @ [newline] @ ''two'' @ [newline] \<and>
    calls_of 0 h = [Formatting WARN (example_event ''one'' 1)] \<and> replay (console_op example_env) console_example h = Some s"
proof -
  have "\<exists>m s. section_moves spinlock_guards (\<lambda>w. Exclusive) (console_body example_env) (console_call DEBUG) console_moves
      (None, console_example, replicate 2 (Outside None)) = Some (m, s, replicate 2 (Outside (Some Logged))) \<and>
    w_cout (cs_world s) = ''one'' @ [newline] @ ''two'' @ [newline]"
    by (simp add: console_moves_def console_example_def numeral_2_eq_2 section_thread_def spinlock_guards_def guard_defs
        Spinlock_lock_def Spinlock_unlock_def less_eq_log_level_def cout_def example_event_def LogEvent_def event_stream_def)
  then obtain m s where run: "section_moves spinlock_guards (\<lambda>w. Exclusive) (console_body example_env) (console_call DEBUG)
      console_moves (None, console_example, replicate 2 (Outside None)) = Some (m, s, replicate 2 (Outside (Some Logged)))"
    and said: "w_cout (cs_world s) = ''one'' @ [newline] @ ''two'' @ [newline]" by blast
  have "begun 0 console_moves = [Formatting WARN (example_event ''one'' 1)]" by (simp add: console_moves_def)
  moreover have "ap_level (cs_appender console_example) = DEBUG" by (simp add: console_example_def)
  with console_lines_whole [OF run] obtain h where "replay (console_op example_env) console_example h = Some s"
    and "\<forall>i < 2. calls_of i h = begun i console_moves" by auto
  ultimately have "calls_of 0 h = [Formatting WARN (example_event ''one'' 1)] \<and>
      replay (console_op example_env) console_example h = Some s" by simp
  with run said show ?thesis by blast
qed

end
