(* ===== verification/File_Threads.thy ===== *)
theory File_Threads
  imports Log_Appender
begin

text \<open>
  A file appender (\<open>FileLogAppender\<close>, gwn/log.cc) that threads reach through different loggers.
  \<open>log\<close> reads \<open>m_lastTime\<close> and assigns it without a lock, and takes the lock of the appender twice,
  in \<open>reopen\<close> and for the formatting: between these steps other threads may act.
\<close>

section \<open>The steps of \<open>log\<close>\<close>

datatype file_pc = Checking | Reopening | Noting | Writing | Left

text \<open>The level and the formatter of the appender are constants here.\<close>

fun file_thread :: "fmt_env \<Rightarrow> log_level \<Rightarrow> log_formatter option \<Rightarrow> log_level \<Rightarrow> log_event \<Rightarrow> file_pc \<Rightarrow>
    file_state \<Rightarrow> world \<Rightarrow> log_error + file_pc \<times> file_state \<times> world"
where
  "file_thread env lim fmt level e Checking fa w =
     Inr (if lim \<le> level then (if fa_lastTime fa + 3 \<le> ev_time e then Reopening else Writing) else Left, fa, w)"
| "file_thread env lim fmt level e Reopening fa w =
     (case FileLogAppender_reopen fa w of (_, fa', w') \<Rightarrow> Inr (Noting, fa', w'))"
| "file_thread env lim fmt level e Noting fa w = Inr (Writing, fa\<lparr>fa_lastTime := ev_time e\<rparr>, w)"
| "file_thread env lim fmt level e Writing fa w =
     (case fmt of
        None \<Rightarrow> Inl NullFormatter
      | Some f \<Rightarrow>
          (case ofstream_write (LogFormatter_format env f level e) (fa_filestream fa) w of
             (os, w') \<Rightarrow> Inr (Left, fa\<lparr>fa_filestream := os\<rparr>,
                if os_fail os then cout (''error'' @ [newline]) w' else w')))"
| "file_thread env lim fmt level e Left fa w = Inr (Left, fa, w)"

type_synonym file_threads = "file_state \<times> world \<times> (log_level \<times> log_event \<times> file_pc) list"

fun file_moves :: "fmt_env \<Rightarrow> log_level \<Rightarrow> log_formatter option \<Rightarrow> nat list \<Rightarrow> file_threads \<Rightarrow> log_error + file_threads" where
  "file_moves env lim fmt [] x = Inr x"
| "file_moves env lim fmt (i # is) (fa, w, ths) =
     (case ths ! i of (level, e, pc) \<Rightarrow>
        (case file_thread env lim fmt level e pc fa w of
           Inl er \<Rightarrow> Inl er
         | Inr (pc', fa', w') \<Rightarrow> file_moves env lim fmt is (fa', w', ths[i := (level, e, pc')])))"

text \<open>A thread that nobody disturbs does what one call of \<open>log\<close> does.\<close>

lemma file_thread_alone:
  assumes "ap_impl ap = FileAppender fa"
  shows "FileLogAppender_log env ap fa level e w =
    (case file_moves env (ap_level ap) (ap_formatter ap) [0, 0, 0, 0] (fa, w, [(level, e, Checking)]) of
       Inl er \<Rightarrow> Inl er
     | Inr (fa', w', _) \<Rightarrow> Inr (ap\<lparr>ap_impl := FileAppender fa'\<rparr>, w'))"
  using assms
  by (simp add: FileLogAppender_log_def Let_def del: LogFormatter_format.simps split: option.split prod.split)

text \<open>
  Two events that both come when the file is due for a reopening, within three seconds of each
  other: logged one after the other both are in the file, in either order; with the steps of the
  two threads interleaved the file may end up with the second one only, as its thread reopens
  the file that the first has written.
\<close>

theorem shared_file_loses_event:
  fixes env :: fmt_env
  assumes "ap_impl ap = FileAppender fa" and "ap_formatter ap = Some f" and "file_at_end fa acc w"
    and "ap_level ap \<le> l1" and "ap_level ap \<le> l2"
    and "fa_lastTime fa + 3 \<le> ev_time e1" and "fa_lastTime fa + 3 \<le> ev_time e2"
    and "\<not> ev_time e1 + 3 \<le> ev_time e2" and "\<not> ev_time e2 + 3 \<le> ev_time e1"
  defines "text1 \<equiv> LogFormatter_format env f l1 e1" and "text2 \<equiv> LogFormatter_format env f l2 e2"
  shows "(\<exists>ap' w'. log_calls (LogAppender_log env) ap [(l1, e1), (l2, e2)] w = Inr (ap', w') \<and>
      w_files w' (fa_filename fa) = Some (text1 @ text2)) \<and>
    (\<exists>ap' w'. log_calls (LogAppender_log env) ap [(l2, e2), (l1, e1)] w = Inr (ap', w') \<and>
      w_files w' (fa_filename fa) = Some (text2 @ text1)) \<and>
    (\<exists>fa' w'. file_moves env (ap_level ap) (ap_formatter ap) [0, 1, 0, 0, 0, 1, 1, 1]
        (fa, w, [(l1, e1, Checking), (l2, e2, Checking)]) = Inr (fa', w', [(l1, e1, Left), (l2, e2, Left)]) \<and>
      w_files w' (fa_filename fa) = Some text2)"
proof (intro conjI)
  show "\<exists>ap' w'. log_calls (LogAppender_log env) ap [(l1, e1), (l2, e2)] w = Inr (ap', w') \<and>
      w_files w' (fa_filename fa) = Some (text1 @ text2)"
    using file_run_spec [OF assms(3,2,1), of env "[(l1, e1), (l2, e2)]"] assms(4-9)
    by (simp add: text1_def text2_def del: LogFormatter_format.simps log_calls.simps)
  show "\<exists>ap' w'. log_calls (LogAppender_log env) ap [(l2, e2), (l1, e1)] w = Inr (ap', w') \<and>
      w_files w' (fa_filename fa) = Some (text2 @ text1)"
    using file_run_spec [OF assms(3,2,1), of env "[(l2, e2), (l1, e1)]"] assms(4-9)
    by (simp add: text1_def text2_def del: LogFormatter_format.simps log_calls.simps)
  obtain fa1 w1 where 1: "FileLogAppender_reopen fa w = (True, fa1, w1)" "file_at_end fa1 [] w1"
    "fa_filename fa1 = fa_filename fa" by (rule reopen_at_end [OF assms(3)])
  define fa2 where "fa2 = fa1\<lparr>fa_lastTime := ev_time e1\<rparr>"
  obtain os3 w3 where 3: "ofstream_write text1 (fa_filestream fa2) w1 = (os3, w3)" "\<not> os_fail os3"
    "file_at_end (fa2\<lparr>fa_filestream := os3\<rparr>) ([] @ text1) w3"
    by (rule write_file_at_end [of fa2 "[]" w1 text1]) (simp add: fa2_def 1)
  obtain fa4 w4 where 4: "FileLogAppender_reopen (fa2\<lparr>fa_filestream := os3\<rparr>) w3 = (True, fa4, w4)" "file_at_end fa4 [] w4"
    "fa_filename fa4 = fa_filename (fa2\<lparr>fa_filestream := os3\<rparr>)" by (rule reopen_at_end [OF 3(3)])
  define fa5 where "fa5 = fa4\<lparr>fa_lastTime := ev_time e2\<rparr>"
  obtain os6 w6 where 6: "ofstream_write text2 (fa_filestream fa5) w4 = (os6, w6)" "\<not> os_fail os6"
    "file_at_end (fa5\<lparr>fa_filestream := os6\<rparr>) ([] @ text2) w6"
    by (rule write_file_at_end [of fa5 "[]" w4 text2]) (simp add: fa5_def 4)
  have name: "fa_filename fa5 = fa_filename fa" by (simp add: fa5_def 4(3) fa2_def 1(3))
  have "file_moves env (ap_level ap) (ap_formatter ap) [0, 1, 0, 0, 0, 1, 1, 1]
      (fa, w, [(l1, e1, Checking), (l2, e2, Checking)]) =
    Inr (fa5\<lparr>fa_filestream := os6\<rparr>, w6, [(l1, e1, Left), (l2, e2, Left)])"
    using assms(2,4-7) 1(1) 3(1,2) 4(1) 6(1,2)
    by (simp add: text1_def [symmetric] text2_def [symmetric] fa2_def fa5_def del: LogFormatter_format.simps)
  with 6(3) name show "\<exists>fa' w'. file_moves env (ap_level ap) (ap_formatter ap) [0, 1, 0, 0, 0, 1, 1, 1]
      (fa, w, [(l1, e1, Checking), (l2, e2, Checking)]) = Inr (fa', w', [(l1, e1, Left), (l2, e2, Left)]) \<and>
      w_files w' (fa_filename fa) = Some text2"
    by (auto simp: file_at_end_def)
qed

end
