(* ===== verification/Config.thy ===== *)
theory Config
  imports Std_Map Log_Level
begin

text \<open>
  Configuration variables and their registry (gwn/config.h, gwn/config.cc). The values of all
  variables come from one type \<open>'v\<close>; what the code takes from the template argument \<open>T\<close> (the
  name of the type, \<open>operator==\<close>, the two conversions) is the record \<open>value_type\<close>, so the
  \<open>dynamic_pointer_cast\<close> is a comparison of type names. Listeners act on a state \<open>'w\<close> of
  the program. Errors that the code logs are collected in \<open>cf_log\<close>. YAML documents are a
  datatype; yaml-cpp's printing of a node is a parameter.
\<close>

section \<open>Variables\<close>

text \<open>
  A listener gets the old and the new value; it returns the new state of the program and the
  text of the exception it left with, if any. A conversion gives the text of an exception or
  the result.
\<close>

type_synonym ('v, 'w) listener = "'v \<Rightarrow> 'v \<Rightarrow> 'w \<Rightarrow> 'w \<times> string option"

record 'v value_type =
  vt_name :: string
  vt_eq :: "'v \<Rightarrow> 'v \<Rightarrow> bool"
  vt_from :: "string \<Rightarrow> string + 'v"
  vt_to :: "'v \<Rightarrow> string + string"

record ('v, 'w) config_var =
  cv_name :: string
  cv_description :: string
  cv_type :: "'v value_type"
  cv_val :: 'v
  cv_cbs :: "(u64, ('v, 'w) listener option) std_map"

type_synonym messages = "(log_level \<times> string) list"

definition ConfigVar :: "'v value_type \<Rightarrow> string \<Rightarrow> 'v \<Rightarrow> string \<Rightarrow> ('v, 'w) config_var" where
  "ConfigVar ty name default_value description =
     \<lparr>cv_name = map tolower name, cv_description = description, cv_type = ty,
      cv_val = default_value, cv_cbs = []\<rparr>"

definition ConfigVar_toString :: "('v, 'w) config_var \<Rightarrow> string \<times> messages" where
  "ConfigVar_toString cv =
     (case vt_to (cv_type cv) (cv_val cv) of
        Inr s \<Rightarrow> (s, [])
      | Inl what \<Rightarrow> ([], [(ERROR, ''ConfigVar::toString exception '' @ what @ '' convert: '' @
          vt_name (cv_type cv) @ '' to string'' @ '' name='' @ cv_name cv)]))"

definition ConfigVar_getName :: "('v, 'w) config_var \<Rightarrow> string" where
  "ConfigVar_getName cv = cv_name cv"

definition ConfigVar_getDescription :: "('v, 'w) config_var \<Rightarrow> string" where
  "ConfigVar_getDescription cv = cv_description cv"

definition ConfigVar_getTypeName :: "('v, 'w) config_var \<Rightarrow> string" where
  "ConfigVar_getTypeName cv = vt_name (cv_type cv)"

definition ConfigVar_getValue :: "('v, 'w) config_var \<Rightarrow> 'v" where
  "ConfigVar_getValue cv = cv_val cv"

text \<open>The loop over the listeners; a null function throws when it is called.\<close>

fun notify :: "('v, 'w) listener option list \<Rightarrow> 'v \<Rightarrow> 'v \<Rightarrow> 'w \<Rightarrow> 'w \<times> string option" where
  "notify [] old new w = (w, None)"
| "notify (None # cbs) old new w = (w, Some ''bad_function_call'')"
| "notify (Some cb # cbs) old new w =
     (case cb old new w of
        (w', Some what) \<Rightarrow> (w', Some what)
      | (w', None) \<Rightarrow> notify cbs old new w')"

text \<open>
  \<open>setValue\<close> has two critical sections: the comparison and the listeners under the read lock,
  then the assignment under the write lock. \<open>None\<close> in the first means that nothing changes.
\<close>

definition setValue_notify ::
  "'v \<Rightarrow> ('v, 'w) config_var \<Rightarrow> 'w \<Rightarrow> ('w \<times> string option) option"
where
  "setValue_notify v cv w =
     (if vt_eq (cv_type cv) v (cv_val cv) then None
      else Some (notify (map snd (cv_cbs cv)) (cv_val cv) v w))"

definition setValue_store :: "'v \<Rightarrow> ('v, 'w) config_var \<Rightarrow> ('v, 'w) config_var" where
  "setValue_store v cv = cv\<lparr>cv_val := v\<rparr>"

definition ConfigVar_setValue ::
  "'v \<Rightarrow> ('v, 'w) config_var \<Rightarrow> 'w \<Rightarrow> ('v, 'w) config_var \<times> 'w \<times> string option"
where
  "ConfigVar_setValue v cv w =
     (case setValue_notify v cv w of
        None \<Rightarrow> (cv, w, None)
      | Some (w', Some what) \<Rightarrow> (cv, w', Some what)
      | Some (w', None) \<Rightarrow> (setValue_store v cv, w', None))"

definition ConfigVar_fromString ::
  "string \<Rightarrow> ('v, 'w) config_var \<Rightarrow> 'w \<Rightarrow> bool \<times> ('v, 'w) config_var \<times> 'w \<times> messages"
where
  "ConfigVar_fromString val cv w =
     (let r = (case vt_from (cv_type cv) val of
                 Inl what \<Rightarrow> (cv, w, Some what)
               | Inr v \<Rightarrow> ConfigVar_setValue v cv w)
      in case r of
           (cv', w', None) \<Rightarrow> (True, cv', w', [])
         | (cv', w', Some what) \<Rightarrow>
             (False, cv', w', [(ERROR, ''ConfigVar::fromString exception '' @ what @
                '' convert: string to '' @ vt_name (cv_type cv) @ '' name='' @ cv_name cv @ '' - '' @ val)]))"

text \<open>
  \<open>s_fun_id\<close> is one counter per type of variable, since it is static in a member of a template;
  it is passed and returned.
\<close>

definition ConfigVar_addListener ::
  "('v, 'w) listener option \<Rightarrow> u64 \<Rightarrow> ('v, 'w) config_var \<Rightarrow> u64 \<times> u64 \<times> ('v, 'w) config_var"
where
  "ConfigVar_addListener cb s_fun_id cv =
     (let ident = s_fun_id + 1 in (ident, ident, cv\<lparr>cv_cbs := map_assign ident cb (cv_cbs cv)\<rparr>))"

definition ConfigVar_delListener :: "u64 \<Rightarrow> ('v, 'w) config_var \<Rightarrow> ('v, 'w) config_var" where
  "ConfigVar_delListener key cv = cv\<lparr>cv_cbs := map_erase key (cv_cbs cv)\<rparr>"

definition ConfigVar_getListener :: "u64 \<Rightarrow> ('v, 'w) config_var \<Rightarrow> ('v, 'w) listener option" where
  "ConfigVar_getListener key cv = (case map_find (cv_cbs cv) key of None \<Rightarrow> None | Some cb \<Rightarrow> cb)"

definition ConfigVar_clearListener :: "('v, 'w) config_var \<Rightarrow> ('v, 'w) config_var" where
  "ConfigVar_clearListener cv = cv\<lparr>cv_cbs := []\<rparr>"

section \<open>The registry\<close>

text \<open>
  Variables are shared: the registry \<open>s_datas\<close> maps names to addresses, indices of \<open>cf_vars\<close>.
\<close>

record ('v, 'w) config =
  cf_vars :: "('v, 'w) config_var list"
  cf_datas :: "(string, nat) std_map"
  cf_log :: messages

definition config_empty :: "('v, 'w) config" where
  "config_empty = \<lparr>cf_vars = [], cf_datas = [], cf_log = []\<rparr>"

definition name_chars :: string where
  "name_chars = ''abcdefghikjlmnopqrstuvwxyz._012345678''"

definition valid_name :: "string \<Rightarrow> bool" where
  "valid_name name \<longleftrightarrow> all_in name_chars name"

definition say :: "messages \<Rightarrow> ('v, 'w) config \<Rightarrow> ('v, 'w) config" where
  "say ms c = c\<lparr>cf_log := cf_log c @ ms\<rparr>"

definition same_type :: "'v value_type \<Rightarrow> 'v value_type \<Rightarrow> bool" where
  "same_type ty ty' \<longleftrightarrow> vt_name ty = vt_name ty'"

text \<open>What \<open>LookUp\<close> with a default value can do: return a pointer, null, or throw.\<close>

datatype lookup_result = FoundVar nat | NullVar | InvalidArgument string

definition Config_LookUp_default ::
  "'v value_type \<Rightarrow> string \<Rightarrow> 'v \<Rightarrow> string \<Rightarrow> ('v, 'w) config \<Rightarrow> lookup_result \<times> ('v, 'w) config"
where
  "Config_LookUp_default ty name default_value description c =
     (case map_find (cf_datas c) name of
        Some a \<Rightarrow>
          (let cv = cf_vars c ! a
           in if same_type ty (cv_type cv) then
                (FoundVar a, say [(INFO, ''Lookup name='' @ name @ '' exists'')] c)
              else (case ConfigVar_toString cv of
                (text, ms) \<Rightarrow>
                  (NullVar, say (ms @ [(ERROR, ''Lookup name='' @ name @ '' exists but type not '' @
                     vt_name ty @ '' real_type='' @ ConfigVar_getTypeName cv @ '' '' @ text)]) c)))
      | None \<Rightarrow>
          (if \<not> valid_name name then
             (InvalidArgument name, say [(ERROR, ''Lookup name invalid '' @ name)] c)
           else (FoundVar (length (cf_vars c)),
                 c\<lparr>cf_vars := cf_vars c @ [ConfigVar ty name default_value description],
                   cf_datas := map_assign name (length (cf_vars c)) (cf_datas c)\<rparr>)))"

definition Config_LookUp :: "'v value_type \<Rightarrow> string \<Rightarrow> ('v, 'w) config \<Rightarrow> nat option" where
  "Config_LookUp ty name c =
     (case map_find (cf_datas c) name of
        None \<Rightarrow> None
      | Some a \<Rightarrow> (if same_type ty (cv_type (cf_vars c ! a)) then Some a else None))"

definition Config_LookupBase :: "string \<Rightarrow> ('v, 'w) config \<Rightarrow> nat option" where
  "Config_LookupBase name c = map_find (cf_datas c) name"

section \<open>Loading a document\<close>

datatype yaml = YNull | YScalar string | YSeq "yaml list" | YMap "(yaml \<times> yaml) list"

text \<open>\<open>Node::Scalar\<close>: the text of a scalar, and the empty text otherwise.\<close>

primrec yaml_scalar :: "yaml \<Rightarrow> string" where
  "yaml_scalar (YScalar s) = s"
| "yaml_scalar YNull = []"
| "yaml_scalar (YSeq ns) = []"
| "yaml_scalar (YMap kvs) = []"

definition member_name :: "string \<Rightarrow> yaml \<Rightarrow> string" where
  "member_name prefix k = (if prefix = [] then yaml_scalar k else prefix @ ''.'' @ yaml_scalar k)"

text \<open>
  \<open>ListAllMember\<close> and its loop over the pairs of a map; the entries are listed in the order in
  which the code appends them. \<open>emit_yaml\<close> is \<open>operator<<\<close> of yaml-cpp.
\<close>

fun ListAllMember :: "(yaml \<Rightarrow> string) \<Rightarrow> string \<Rightarrow> yaml \<Rightarrow> (string \<times> yaml) list \<times> messages"
  and list_members :: "(yaml \<Rightarrow> string) \<Rightarrow> string \<Rightarrow> (yaml \<times> yaml) list \<Rightarrow> (string \<times> yaml) list \<times> messages"
where
  "ListAllMember emit_yaml prefix node =
     (if \<not> valid_name prefix then
        ([], [(ERROR, ''Config invalid name: '' @ prefix @ '' : '' @ emit_yaml node)])
      else (case node of
              YMap kvs \<Rightarrow> (case list_members emit_yaml prefix kvs of (out, ms) \<Rightarrow> ((prefix, node) # out, ms))
            | _ \<Rightarrow> ([(prefix, node)], [])))"
| "list_members emit_yaml prefix [] = ([], [])"
| "list_members emit_yaml prefix ((k, v) # kvs) =
     (case ListAllMember emit_yaml (member_name prefix k) v of
        (out, ms) \<Rightarrow> (case list_members emit_yaml prefix kvs of (out', ms') \<Rightarrow> (out @ out', ms @ ms')))"

definition node_text :: "(yaml \<Rightarrow> string) \<Rightarrow> yaml \<Rightarrow> string" where
  "node_text emit_yaml node = (case node of YScalar s \<Rightarrow> s | _ \<Rightarrow> emit_yaml node)"

text \<open>The body of the loop of \<open>LoadFromYaml\<close>.\<close>

definition load_member ::
  "(yaml \<Rightarrow> string) \<Rightarrow> ('v, 'w) config \<times> 'w \<Rightarrow> string \<times> yaml \<Rightarrow> ('v, 'w) config \<times> 'w"
where
  "load_member emit_yaml cw i =
     (case (cw, i) of ((c, w), (name, node)) \<Rightarrow>
       (if name = [] then (c, w)
        else (case Config_LookupBase (map tolower name) c of
                None \<Rightarrow> (c, w)
              | Some a \<Rightarrow>
                  (case ConfigVar_fromString (node_text emit_yaml node) (cf_vars c ! a) w of
                     (ok, cv, w', ms) \<Rightarrow> (say ms (c\<lparr>cf_vars := (cf_vars c)[a := cv]\<rparr>), w')))))"

definition Config_LoadFromYaml ::
  "(yaml \<Rightarrow> string) \<Rightarrow> yaml \<Rightarrow> ('v, 'w) config \<Rightarrow> 'w \<Rightarrow> ('v, 'w) config \<times> 'w"
where
  "Config_LoadFromYaml emit_yaml root c w =
     (case ListAllMember emit_yaml [] root of
        (all_nodes, ms) \<Rightarrow> foldl (load_member emit_yaml) (say ms c, w) all_nodes)"

end
