(* ===== verification/Lexical_Cast.thy ===== *)
theory Lexical_Cast
  imports Config
begin

text \<open>
  \<open>LexicalCast\<close> for containers (gwn/config.h): the conversions between a container and YAML text,
  over conversions of its elements. yaml-cpp is the parameter \<open>yaml_lib\<close>; what is assumed of it is
  \<open>yaml_lib_ok\<close>. A conversion may write to the console and may throw. The generic conversion by
  \<open>boost::lexical_cast\<close> is an argument like those of the elements.
\<close>

section \<open>yaml-cpp\<close>

text \<open>
  \<open>YAML::Load\<close>, \<open>operator<<\<close>, the elements (\<open>size\<close> and \<open>operator[]\<close> with a number), the pairs
  (the iterators), \<open>operator[]\<close> with a key (\<open>None\<close>: not defined), and \<open>as<std::string>\<close>. \<open>Inl\<close>
  is the text of an exception.
\<close>

record yaml_lib =
  yl_load :: "string \<Rightarrow> string + yaml"
  yl_emit :: "yaml \<Rightarrow> string"
  yl_items :: "yaml \<Rightarrow> string + yaml list"
  yl_pairs :: "yaml \<Rightarrow> string + (yaml \<times> yaml) list"
  yl_index :: "yaml \<Rightarrow> string \<Rightarrow> string + yaml option"
  yl_as_string :: "yaml \<Rightarrow> string + string"

fun yaml_find :: "(yaml \<times> yaml) list \<Rightarrow> string \<Rightarrow> yaml option" where
  "yaml_find [] k = None"
| "yaml_find ((YScalar k', v) # kvs) k = (if k' = k then Some v else yaml_find kvs k)"
| "yaml_find (kv # kvs) k = yaml_find kvs k"

definition yaml_lib_ok :: "yaml_lib \<Rightarrow> bool" where
  "yaml_lib_ok lib \<longleftrightarrow>
     (\<forall>ns. yl_items lib (YSeq ns) = Inr ns) \<and>
     (\<forall>kvs. yl_pairs lib (YMap kvs) = Inr kvs) \<and>
     (\<forall>kvs k. yl_index lib (YMap kvs) k = Inr (yaml_find kvs k)) \<and>
     (\<forall>s. yl_as_string lib (YScalar s) = Inr s)"

text \<open>Computations that write to the console and may throw.\<close>

type_synonym 'a parse = "string \<times> (string + 'a)"

definition bind_parse :: "'a parse \<Rightarrow> ('a \<Rightarrow> 'b parse) \<Rightarrow> 'b parse" where
  "bind_parse p f = (case p of
     (out, Inl e) \<Rightarrow> (out, Inl e)
   | (out, Inr x) \<Rightarrow> (case f x of (out', r) \<Rightarrow> (out @ out', r)))"

definition lift_parse :: "string + 'a \<Rightarrow> 'a parse" where
  "lift_parse r = ([], r)"

text \<open>A loop of computations that may throw: the first exception ends it.\<close>

fun all_results :: "(string + 'a) list \<Rightarrow> string + 'a list" where
  "all_results [] = Inr []"
| "all_results (Inl e # rs) = Inl e"
| "all_results (Inr x # rs) = (case all_results rs of Inl e \<Rightarrow> Inl e | Inr xs \<Rightarrow> Inr (x # xs))"

definition map_result :: "('a \<Rightarrow> 'b) \<Rightarrow> string + 'a \<Rightarrow> string + 'b" where
  "map_result f r = (case r of Inl e \<Rightarrow> Inl e | Inr x \<Rightarrow> Inr (f x))"

lemma map_result_simps [simp]: "map_result f (Inr x) = Inr (f x)" "map_result f (Inl e) = Inl e"
  by (simp_all add: map_result_def)

lemma bind_parse_simps [simp]:
  "bind_parse ([], Inr x) f = f x" "bind_parse (out, Inl e) f = (out, Inl e)"
  by (simp_all add: bind_parse_def split: prod.split)

section \<open>Containers\<close>

text \<open>
  \<open>std::set\<close> with an order: a list ascending by it; \<open>find\<close> and \<open>insert\<close> see elements as equal
  when neither is less than the other; \<open>operator==\<close> compares element by element.
\<close>

type_synonym 'a std_set = "'a list"

fun set_insert :: "('a \<Rightarrow> 'a \<Rightarrow> bool) \<Rightarrow> 'a \<Rightarrow> 'a std_set \<Rightarrow> 'a std_set" where
  "set_insert lt x [] = [x]"
| "set_insert lt x (y # ys) =
     (if lt x y then x # y # ys else if lt y x then y # set_insert lt x ys else y # ys)"

fun set_find :: "('a \<Rightarrow> 'a \<Rightarrow> bool) \<Rightarrow> 'a std_set \<Rightarrow> 'a \<Rightarrow> 'a option" where
  "set_find lt [] x = None"
| "set_find lt (y # ys) x = (if \<not> lt x y \<and> \<not> lt y x then Some y else set_find lt ys x)"

definition set_eq :: "('a \<Rightarrow> 'a \<Rightarrow> bool) \<Rightarrow> 'a std_set \<Rightarrow> 'a std_set \<Rightarrow> bool" where
  "set_eq eq xs ys \<longleftrightarrow> length xs = length ys \<and> list_all2 eq xs ys"

text \<open>
  \<open>std::map::insert\<close> keeps the value of a key that is there. The unordered containers are lists in
  the order in which they are visited; that order is up to the library, so \<open>arrange\<close> is the order
  after an insertion.
\<close>

definition push_back :: "'a \<Rightarrow> 'a list \<Rightarrow> 'a list" where
  "push_back x xs = xs @ [x]"

definition map_insert :: "'k::linorder \<Rightarrow> 'v \<Rightarrow> ('k, 'v) std_map \<Rightarrow> ('k, 'v) std_map" where
  "map_insert k v m = (case map_find m k of Some _ \<Rightarrow> m | None \<Rightarrow> map_assign k v m)"

definition unordered_set_insert :: "('a list \<Rightarrow> 'a list) \<Rightarrow> 'a \<Rightarrow> 'a list \<Rightarrow> 'a list" where
  "unordered_set_insert arrange x s = (if x \<in> set s then s else arrange (x # s))"

definition unordered_map_insert ::
  "(('k \<times> 'v) list \<Rightarrow> ('k \<times> 'v) list) \<Rightarrow> 'k \<Rightarrow> 'v \<Rightarrow> ('k \<times> 'v) list \<Rightarrow> ('k \<times> 'v) list"
where
  "unordered_map_insert arrange k v m =
     (case map_find m k of Some _ \<Rightarrow> m | None \<Rightarrow> arrange ((k, v) # m))"

section \<open>From YAML\<close>

text \<open>
  The loop over the elements of a node: each is printed, converted and inserted; the first
  exception ends it.
\<close>

fun from_each ::
  "yaml_lib \<Rightarrow> (string \<Rightarrow> 'a parse) \<Rightarrow> ('a \<Rightarrow> 'c \<Rightarrow> 'c) \<Rightarrow> yaml list \<Rightarrow> 'c \<Rightarrow> 'c parse"
where
  "from_each lib from ins [] c = ([], Inr c)"
| "from_each lib from ins (n # ns) c =
     bind_parse (from (yl_emit lib n)) (\<lambda>x. from_each lib from ins ns (ins x c))"

definition vector_from :: "yaml_lib \<Rightarrow> (string \<Rightarrow> 'a parse) \<Rightarrow> string \<Rightarrow> 'a list parse" where
  "vector_from lib from v =
     bind_parse (lift_parse (yl_load lib v)) (\<lambda>node.
       bind_parse (lift_parse (yl_items lib node)) (\<lambda>ns. from_each lib from push_back ns []))"

definition list_from :: "yaml_lib \<Rightarrow> (string \<Rightarrow> 'a parse) \<Rightarrow> string \<Rightarrow> 'a list parse" where
  "list_from lib from v =
     bind_parse (lift_parse (yl_load lib v)) (\<lambda>node.
       bind_parse (lift_parse (yl_items lib node)) (\<lambda>ns. from_each lib from push_back ns []))"

definition set_from ::
  "yaml_lib \<Rightarrow> ('a \<Rightarrow> 'a \<Rightarrow> bool) \<Rightarrow> (string \<Rightarrow> 'a parse) \<Rightarrow> string \<Rightarrow> 'a std_set parse"
where
  "set_from lib lt from v =
     bind_parse (lift_parse (yl_load lib v)) (\<lambda>node.
       bind_parse (lift_parse (yl_items lib node)) (\<lambda>ns. from_each lib from (set_insert lt) ns []))"

definition unordered_set_from ::
  "yaml_lib \<Rightarrow> ('a list \<Rightarrow> 'a list) \<Rightarrow> (string \<Rightarrow> 'a parse) \<Rightarrow> string \<Rightarrow> 'a list parse"
where
  "unordered_set_from lib arrange from v =
     bind_parse (lift_parse (yl_load lib v)) (\<lambda>node.
       bind_parse (lift_parse (yl_items lib node)) (\<lambda>ns.
         from_each lib from (unordered_set_insert arrange) ns []))"

text \<open>The loop over the pairs of a node.\<close>

fun from_pairs ::
  "yaml_lib \<Rightarrow> (string \<Rightarrow> 'a parse) \<Rightarrow> (string \<Rightarrow> 'a \<Rightarrow> 'c \<Rightarrow> 'c) \<Rightarrow> (yaml \<times> yaml) list \<Rightarrow> 'c \<Rightarrow> 'c parse"
where
  "from_pairs lib from ins [] c = ([], Inr c)"
| "from_pairs lib from ins ((k, v) # kvs) c =
     bind_parse (from (yl_emit lib v)) (\<lambda>x. from_pairs lib from ins kvs (ins (yaml_scalar k) x c))"

definition map_from :: "yaml_lib \<Rightarrow> (string \<Rightarrow> 'a parse) \<Rightarrow> string \<Rightarrow> (string, 'a) std_map parse" where
  "map_from lib from v =
     bind_parse (lift_parse (yl_load lib v)) (\<lambda>node.
       bind_parse (lift_parse (yl_pairs lib node)) (\<lambda>kvs. from_pairs lib from map_insert kvs []))"

definition unordered_map_from ::
  "yaml_lib \<Rightarrow> ((string \<times> 'a) list \<Rightarrow> (string \<times> 'a) list) \<Rightarrow> (string \<Rightarrow> 'a parse) \<Rightarrow> string \<Rightarrow>
     (string \<times> 'a) list parse"
where
  "unordered_map_from lib arrange from v =
     bind_parse (lift_parse (yl_load lib v)) (\<lambda>node.
       bind_parse (lift_parse (yl_pairs lib node)) (\<lambda>kvs.
         from_pairs lib from (unordered_map_insert arrange) kvs []))"

section \<open>To YAML\<close>

text \<open>The text of an element is loaded again, and the node it gives is put into the sequence.\<close>

fun to_each :: "yaml_lib \<Rightarrow> ('a \<Rightarrow> string + string) \<Rightarrow> 'a list \<Rightarrow> yaml list \<Rightarrow> string + yaml list" where
  "to_each lib to [] node = Inr node"
| "to_each lib to (i # is) node =
     (case to i of
        Inl e \<Rightarrow> Inl e
      | Inr s \<Rightarrow> (case yl_load lib s of Inl e \<Rightarrow> Inl e | Inr n \<Rightarrow> to_each lib to is (push_back n node)))"

definition vector_to :: "yaml_lib \<Rightarrow> ('a \<Rightarrow> string + string) \<Rightarrow> 'a list \<Rightarrow> string + string" where
  "vector_to lib to v = map_result (\<lambda>node. yl_emit lib (YSeq node)) (to_each lib to v [])"

definition list_to :: "yaml_lib \<Rightarrow> ('a \<Rightarrow> string + string) \<Rightarrow> 'a list \<Rightarrow> string + string" where
  "list_to lib to v = map_result (\<lambda>node. yl_emit lib (YSeq node)) (to_each lib to v [])"

definition set_to :: "yaml_lib \<Rightarrow> ('a \<Rightarrow> string + string) \<Rightarrow> 'a std_set \<Rightarrow> string + string" where
  "set_to lib to v = map_result (\<lambda>node. yl_emit lib (YSeq node)) (to_each lib to v [])"

definition unordered_set_to :: "yaml_lib \<Rightarrow> ('a \<Rightarrow> string + string) \<Rightarrow> 'a list \<Rightarrow> string + string" where
  "unordered_set_to lib to v = map_result (\<lambda>node. yl_emit lib (YSeq node)) (to_each lib to v [])"

text \<open>Assignment to a key of a map node: replaces the value of an equal scalar key.\<close>

fun node_assign :: "string \<Rightarrow> yaml \<Rightarrow> (yaml \<times> yaml) list \<Rightarrow> (yaml \<times> yaml) list" where
  "node_assign k v [] = [(YScalar k, v)]"
| "node_assign k v ((k', v') # kvs) =
     (if k' = YScalar k then (k', v) # kvs else (k', v') # node_assign k v kvs)"

fun to_pairs ::
  "yaml_lib \<Rightarrow> ('a \<Rightarrow> string + string) \<Rightarrow> (string \<times> 'a) list \<Rightarrow> (yaml \<times> yaml) list \<Rightarrow> string + (yaml \<times> yaml) list"
where
  "to_pairs lib to [] node = Inr node"
| "to_pairs lib to ((k, i) # is) node =
     (case to i of
        Inl e \<Rightarrow> Inl e
      | Inr s \<Rightarrow> (case yl_load lib s of Inl e \<Rightarrow> Inl e | Inr n \<Rightarrow> to_pairs lib to is (node_assign k n node)))"

definition map_to :: "yaml_lib \<Rightarrow> ('a \<Rightarrow> string + string) \<Rightarrow> (string, 'a) std_map \<Rightarrow> string + string" where
  "map_to lib to v = map_result (\<lambda>node. yl_emit lib (YMap node)) (to_pairs lib to v [])"

definition unordered_map_to :: "yaml_lib \<Rightarrow> ('a \<Rightarrow> string + string) \<Rightarrow> (string \<times> 'a) list \<Rightarrow> string + string" where
  "unordered_map_to lib to v = map_result (\<lambda>node. yl_emit lib (YMap node)) (to_pairs lib to v [])"

end
