(* ===== verification/Log_Conf.thy ===== *)
theory Log_Conf
  imports Logger_Facts Lexical_Cast
begin

text \<open>
  The configuration of the loggers (gwn/log.cc from \<open>LogAppenderDefine\<close> on, and the
  \<open>toYamlString\<close> functions): the definitions of loggers as values of a configuration variable,
  their conversions from and to YAML, and the listener that applies a changed configuration
  to the loggers. yaml-cpp is the parameter \<open>yaml_lib\<close> of the conversions, assumed to satisfy
  \<open>yaml_lib_ok\<close>. Text written to the console comes with the result.
\<close>

text \<open>\<open>Node\<close>s that are built by assigning to keys: nothing assigned is a null node.\<close>

definition build_map :: "(string \<times> yaml) list \<Rightarrow> yaml" where
  "build_map kvs = (if kvs = [] then YNull else YMap (map (\<lambda>(k, v). (YScalar k, v)) kvs))"

definition key_if :: "bool \<Rightarrow> string \<Rightarrow> yaml \<Rightarrow> (string \<times> yaml) list" where
  "key_if b k v = (if b then [(k, v)] else [])"

section \<open>Definitions of loggers\<close>

record log_appender_define =
  ad_type :: int
  ad_level :: log_level
  ad_formatter :: string
  ad_file :: string

record log_define =
  ld_name :: string
  ld_level :: log_level
  ld_formatter :: string
  ld_appenders :: "log_appender_define list"

definition LogAppenderDefine_eq :: "log_appender_define \<Rightarrow> log_appender_define \<Rightarrow> bool" where
  "LogAppenderDefine_eq a oth \<longleftrightarrow> ad_type a = ad_type oth \<and> ad_level a = ad_level oth \<and>
     ad_formatter a = ad_formatter oth \<and> ad_file a = ad_file oth"

text \<open>The last comparison of \<open>LogDefine::operator==\<close> compares \<open>appenders\<close> with itself.\<close>

definition LogDefine_eq :: "log_define \<Rightarrow> log_define \<Rightarrow> bool" where
  "LogDefine_eq d oth \<longleftrightarrow> ld_name d = ld_name oth \<and> ld_level d = ld_level oth \<and>
     ld_formatter d = ld_formatter oth \<and>
     list_all2 LogAppenderDefine_eq (ld_appenders d) (ld_appenders d)"

definition LogDefine_less :: "log_define \<Rightarrow> log_define \<Rightarrow> bool" where
  "LogDefine_less d oth \<longleftrightarrow> ld_name d < ld_name oth"

definition LogDefine_isValid :: "log_define \<Rightarrow> bool" where
  "LogDefine_isValid d \<longleftrightarrow> ld_name d \<noteq> []"

section \<open>Conversions\<close>

text \<open>The text of an optional key, or a default.\<close>

definition text_at :: "yaml_lib \<Rightarrow> yaml \<Rightarrow> string \<Rightarrow> string \<Rightarrow> string parse" where
  "text_at lib n k dflt =
     bind_parse (lift_parse (yl_index lib n k))
       (\<lambda>v. case v of None \<Rightarrow> ([], Inr dflt) | Some m \<Rightarrow> lift_parse (yl_as_string lib m))"

definition conf_error :: "yaml_lib \<Rightarrow> string \<Rightarrow> yaml \<Rightarrow> string" where
  "conf_error lib what n = ''log config error: '' @ what @ '', '' @ yl_emit lib n @ [newline]"

text \<open>The body of the loop over the appenders; \<open>None\<close> is \<open>continue\<close>.\<close>

definition appender_from :: "yaml_lib \<Rightarrow> yaml \<Rightarrow> log_appender_define option parse" where
  "appender_from lib a =
     bind_parse (lift_parse (yl_index lib a ''type'')) (\<lambda>t.
       case t of
         None \<Rightarrow> (conf_error lib ''appender type is null'' a, Inr None)
       | Some tn \<Rightarrow>
           bind_parse (lift_parse (yl_as_string lib tn)) (\<lambda>type.
             if type = ''FileLogAppender'' then
               bind_parse (lift_parse (yl_index lib a ''file'')) (\<lambda>f.
                 case f of
                   None \<Rightarrow> (conf_error lib ''fileappender file is null'' a, Inr None)
                 | Some fn \<Rightarrow>
                     bind_parse (lift_parse (yl_as_string lib fn)) (\<lambda>file.
                       bind_parse (text_at lib a ''formatter'' []) (\<lambda>fm.
                         ([], Inr (Some \<lparr>ad_type = 1, ad_level = UNKNOW, ad_formatter = fm, ad_file = file\<rparr>)))))
             else if type = ''StdoutLogAppender'' then
               bind_parse (text_at lib a ''formatter'' []) (\<lambda>fm.
                 ([], Inr (Some \<lparr>ad_type = 2, ad_level = UNKNOW, ad_formatter = fm, ad_file = []\<rparr>)))
             else (conf_error lib ''appender type is invalid'' a, Inr None)))"

fun appenders_from :: "yaml_lib \<Rightarrow> yaml list \<Rightarrow> log_appender_define list parse" where
  "appenders_from lib [] = ([], Inr [])"
| "appenders_from lib (a # as) =
     bind_parse (appender_from lib a) (\<lambda>lad.
       bind_parse (appenders_from lib as) (\<lambda>lads.
         ([], Inr (case lad of None \<Rightarrow> lads | Some d \<Rightarrow> d # lads))))"

definition LogDefine_from :: "yaml_lib \<Rightarrow> string \<Rightarrow> log_define parse" where
  "LogDefine_from lib v =
     bind_parse (lift_parse (yl_load lib v)) (\<lambda>n.
       bind_parse (lift_parse (yl_index lib n ''name'')) (\<lambda>nm.
         case nm of
           None \<Rightarrow> (conf_error lib ''name is null'' n, Inl ''log config name is null'')
         | Some nn \<Rightarrow>
             bind_parse (lift_parse (yl_as_string lib nn)) (\<lambda>name.
               bind_parse (text_at lib n ''level'' []) (\<lambda>level.
                 bind_parse (text_at lib n ''formatter'' []) (\<lambda>fm.
                   bind_parse (lift_parse (yl_index lib n ''appenders'')) (\<lambda>as.
                     bind_parse
                       (case as of None \<Rightarrow> ([], Inr [])
                        | Some ns \<Rightarrow> bind_parse (lift_parse (yl_items lib ns)) (appenders_from lib))
                       (\<lambda>lads. ([], Inr \<lparr>ld_name = name, ld_level = LogLevel_FromString level,
                          ld_formatter = fm, ld_appenders = lads\<rparr>))))))))"

definition appender_node :: "log_appender_define \<Rightarrow> yaml" where
  "appender_node a = build_map
     ((if ad_type a = 1 then [(''type'', YScalar ''FileLogAppender''), (''file'', YScalar (ad_file a))]
       else if ad_type a = 2 then [(''type'', YScalar ''StdoutLogAppender'')] else []) @
      key_if (ad_level a \<noteq> UNKNOW) ''level'' (YScalar (LogLevel_ToString (ad_level a))) @
      key_if (ad_formatter a \<noteq> []) ''formatter'' (YScalar (ad_formatter a)))"

definition LogDefine_node :: "log_define \<Rightarrow> yaml" where
  "LogDefine_node i = build_map
     ([(''name'', YScalar (ld_name i))] @
      key_if (ld_level i \<noteq> UNKNOW) ''level'' (YScalar (LogLevel_ToString (ld_level i))) @
      key_if (ld_formatter i \<noteq> []) ''formatter'' (YScalar (ld_formatter i)) @
      key_if (ld_appenders i \<noteq> []) ''appenders'' (YSeq (map appender_node (ld_appenders i))))"

definition LogDefine_to :: "yaml_lib \<Rightarrow> log_define \<Rightarrow> string" where
  "LogDefine_to lib i = yl_emit lib (LogDefine_node i)"

text \<open>The value type of the variable \<open>logs\<close>; \<open>tn\<close> is what \<open>typeid(...).name()\<close> gives.\<close>

definition log_defines_type :: "yaml_lib \<Rightarrow> string \<Rightarrow> log_define std_set value_type" where
  "log_defines_type lib tn =
     \<lparr>vt_name = tn, vt_eq = set_eq LogDefine_eq,
      vt_from = (\<lambda>s. snd (set_from lib LogDefine_less (LogDefine_from lib) s)),
      vt_to = set_to lib (\<lambda>i. Inr (LogDefine_to lib i))\<rparr>"

section \<open>Applying a configuration\<close>

definition bind_log :: "log_error + 'a \<Rightarrow> ('a \<Rightarrow> log_error + 'b) \<Rightarrow> log_error + 'b" where
  "bind_log r f = (case r of Inl e \<Rightarrow> Inl e | Inr x \<Rightarrow> f x)"

lemma bind_log_simps [simp]: "bind_log (Inr x) f = f x" "bind_log (Inl e) f = Inl e"
  by (simp_all add: bind_log_def)

text \<open>One appender of a definition: constructed, given its level and formatter, added.\<close>

definition make_appender ::
  "log_appender_define \<Rightarrow> log_store \<Rightarrow> log_error + log_appender \<times> log_store"
where
  "make_appender a s =
     (if ad_type a = 1 then
        (case FileLogAppender (ad_file a) (st_world s) of (ap, w) \<Rightarrow> Inr (ap, s\<lparr>st_world := w\<rparr>))
      else if ad_type a = 2 then Inr (StdoutLogAppender, s)
      else Inl NullAppender)"

definition format_appender ::
  "string \<Rightarrow> log_appender_define \<Rightarrow> log_appender \<Rightarrow> log_store \<Rightarrow> log_appender \<times> log_store"
where
  "format_appender name a ap s =
     (if ad_formatter a \<noteq> [] then
        (case LogFormatter (ad_formatter a) of
           (fmt, out) \<Rightarrow>
             (if \<not> fm_error fmt then (LogAppender_setFormatter (Some fmt) ap, print out s)
              else (ap, print (out @ ''log.name='' @ name @ '' appender type='' @ dec_int (ad_type a) @
                      '' formatter='' @ ad_formatter a @ '' is invalid'' @ [newline]) s)))
      else (ap, s))"

definition conf_appender ::
  "string \<Rightarrow> nat \<Rightarrow> log_appender_define \<Rightarrow> log_store \<Rightarrow> log_error + log_store"
where
  "conf_appender name logger a s =
     bind_log (make_appender a s) (\<lambda>(ap, s1).
       case format_appender name a (LogAppender_setLevel (ad_level a) ap) s1 of
         (ap2, s2) \<Rightarrow>
           (case alloc_appender ap2 s2 of (i, s3) \<Rightarrow> Logger_addAppender logger i s3))"

fun conf_appenders ::
  "string \<Rightarrow> nat \<Rightarrow> log_appender_define list \<Rightarrow> log_store \<Rightarrow> log_error + log_store"
where
  "conf_appenders name logger [] s = Inr s"
| "conf_appenders name logger (a # as) s =
     bind_log (conf_appender name logger a s) (conf_appenders name logger as)"

definition conf_logger :: "log_define \<Rightarrow> log_store \<Rightarrow> log_error + log_store" where
  "conf_logger i s =
     (case LoggerManager_getLogger (ld_name i) s of
        (logger, s1) \<Rightarrow>
          bind_log (Logger_setLevel logger (ld_level i) s1) (\<lambda>s2.
            bind_log (if ld_formatter i \<noteq> [] then Logger_setFormatter_str logger (ld_formatter i) s2 else Inr s2) (\<lambda>s3.
              bind_log (Logger_clearAppenders logger s3) (conf_appenders (ld_name i) logger (ld_appenders i)))))"

text \<open>The two loops of the listener: new or changed definitions, then removed ones.\<close>

fun conf_changed :: "log_define std_set \<Rightarrow> log_define list \<Rightarrow> log_store \<Rightarrow> log_error + log_store" where
  "conf_changed old_value [] s = Inr s"
| "conf_changed old_value (i # is) s =
     bind_log
       (case set_find LogDefine_less old_value i of
          None \<Rightarrow> conf_logger i s
        | Some it \<Rightarrow> (if \<not> LogDefine_eq i it then conf_logger i s else Inr s))
       (conf_changed old_value is)"

definition conf_delete :: "log_define \<Rightarrow> log_store \<Rightarrow> log_error + log_store" where
  "conf_delete i s =
     (case LoggerManager_getLogger (ld_name i) s of
        (logger, s1) \<Rightarrow> bind_log (Logger_setLevel logger UNKNOW s1) (Logger_clearAppenders logger))"

fun conf_removed :: "log_define std_set \<Rightarrow> log_define list \<Rightarrow> log_store \<Rightarrow> log_error + log_store" where
  "conf_removed new_value [] s = Inr s"
| "conf_removed new_value (i # is) s =
     bind_log
       (if set_find LogDefine_less new_value i = None then conf_delete i s else Inr s)
       (conf_removed new_value is)"

definition on_logger_conf_changed ::
  "(string \<Rightarrow> u64 \<Rightarrow> string) \<Rightarrow> log_context \<Rightarrow> string \<Rightarrow> log_define std_set \<Rightarrow> log_define std_set \<Rightarrow>
     log_store \<Rightarrow> log_error + log_store"
where
  "on_logger_conf_changed strf cx file old_value new_value s =
     bind_log (gwn_LOG_LEVEL strf cx file 699 (LoggerManager_getRoot s) INFO ''on_logger_conf_changed'' s)
       (\<lambda>s1. bind_log (conf_changed old_value new_value s1) (conf_removed new_value old_value))"

section \<open>Configuration of the running loggers as YAML\<close>

definition pattern_key :: "bool \<Rightarrow> log_formatter option \<Rightarrow> (string \<times> yaml) list" where
  "pattern_key b f = (case f of Some fm \<Rightarrow> key_if b ''formatter'' (YScalar (fm_pattern fm)) | None \<Rightarrow> [])"

definition LogAppender_node :: "log_appender \<Rightarrow> yaml" where
  "LogAppender_node ap = build_map
     ((case ap_impl ap of
         StdoutAppender \<Rightarrow> [(''type'', YScalar ''StdoutLogAppender'')]
       | FileAppender fa \<Rightarrow> [(''type'', YScalar ''FileLogAppender''), (''file'', YScalar (fa_filename fa))]) @
      key_if (ap_level ap \<noteq> UNKNOW) ''level'' (YScalar (LogLevel_ToString (ap_level ap))) @
      pattern_key (ap_hasFormatter ap) (ap_formatter ap))"

definition LogAppender_toYamlString :: "yaml_lib \<Rightarrow> log_appender \<Rightarrow> string" where
  "LogAppender_toYamlString lib ap = yl_emit lib (LogAppender_node ap)"

text \<open>\<open>Logger::toYamlString\<close>, where re-reading the text of an appender can throw.\<close>

definition Logger_toYamlString :: "yaml_lib \<Rightarrow> nat \<Rightarrow> log_store \<Rightarrow> string + string" where
  "Logger_toYamlString lib a s =
     (let lg = st_loggers s ! a;
          keys = [(''name'', YScalar (lg_name lg))] @
            key_if (lg_level lg \<noteq> UNKNOW) ''level'' (YScalar (LogLevel_ToString (lg_level lg))) @
            pattern_key True (lg_formatter lg);
          nodes = map (\<lambda>i. yl_load lib (LogAppender_toYamlString lib (st_appenders s ! i))) (lg_appenders lg)
      in map_result (\<lambda>ns. yl_emit lib (build_map (keys @ key_if (ns \<noteq> []) ''appenders'' (YSeq ns))))
           (all_results nodes))"

definition LoggerManager_toYamlString :: "yaml_lib \<Rightarrow> log_store \<Rightarrow> string + string" where
  "LoggerManager_toYamlString lib s =
     (let texts = map (\<lambda>(name, a). Logger_toYamlString lib a s) (st_mgr_loggers s);
          nodes = map (\<lambda>t. case t of Inl e \<Rightarrow> Inl e | Inr text \<Rightarrow> yl_load lib text) texts
      in map_result (\<lambda>ns. yl_emit lib (if ns = [] then YNull else YSeq ns)) (all_results nodes))"

end
