(* ===== verification/Config_Facts.thy ===== *)
theory Config_Facts
  imports Config
begin

text \<open>
  What the configuration promises: how \<open>setValue\<close> and \<open>fromString\<close> treat listeners and
  exceptions, the invariant of the registry, which variables a document reaches and what they
  hold afterwards.
\<close>

section \<open>Names\<close>

lemma tolower_valid: "c \<in> set name_chars \<Longrightarrow> tolower c = c"
  by (auto simp: name_chars_def tolower_def)

lemma valid_name_lower: "valid_name s \<Longrightarrow> map tolower s = s"
  by (rule map_idI) (auto simp: valid_name_def all_in_def list_all_iff intro: tolower_valid)

lemma valid_name_Nil [simp]: "valid_name []"
  by (simp add: valid_name_def)

lemma valid_name_append [simp]: "valid_name (s @ t) \<longleftrightarrow> valid_name s \<and> valid_name t"
  by (simp add: valid_name_def)

section \<open>Setting a value\<close>

text \<open>
  All listeners run and return, from state \<open>w\<close> to state \<open>w'\<close>.
\<close>

fun all_notified :: "('v, 'w) listener option list \<Rightarrow> 'v \<Rightarrow> 'v \<Rightarrow> 'w \<Rightarrow> 'w \<Rightarrow> bool" where
  "all_notified [] old new w w' \<longleftrightarrow> w' = w"
| "all_notified (None # cbs) old new w w' \<longleftrightarrow> False"
| "all_notified (Some cb # cbs) old new w w' \<longleftrightarrow>
     snd (cb old new w) = None \<and> all_notified cbs old new (fst (cb old new w)) w'"

lemma notify_returns: "notify cbs old new w = (w', None) \<longleftrightarrow> all_notified cbs old new w w'"
  by (induction cbs old new w arbitrary: w' rule: notify.induct) (auto split: prod.splits option.splits)

lemma notify_append:
  "notify (xs @ ys) old new w =
     (case notify xs old new w of (w', Some what) \<Rightarrow> (w', Some what) | (w', None) \<Rightarrow> notify ys old new w')"
  by (induction xs old new w rule: notify.induct) (auto split: prod.splits option.splits)

definition call_listener :: "('v, 'w) listener option \<Rightarrow> 'v \<Rightarrow> 'v \<Rightarrow> 'w \<Rightarrow> 'w \<times> string option" where
  "call_listener cb old new w =
     (case cb of None \<Rightarrow> (w, Some ''bad_function_call'') | Some f \<Rightarrow> f old new w)"

lemma notify_throws:
  assumes "all_notified xs old new w w1" and "call_listener cb old new w1 = (w2, Some what)"
  shows "notify (xs @ cb # ys) old new w = (w2, Some what)"
  using assms by (simp add: notify_append notify_returns [symmetric] call_listener_def split: option.splits)

text \<open>
  Setting an equal value changes nothing and calls nobody. Otherwise the listeners are
  called in the order of their ids, each with the old and the new value; when all return the
  new value is stored; an exception from one of them leaves the old value, and the listeners
  after it are not called.
\<close>

theorem setValue_functional:
  "(vt_eq (cv_type cv) v (cv_val cv) \<longrightarrow> ConfigVar_setValue v cv w = (cv, w, None)) \<and>
   (\<not> vt_eq (cv_type cv) v (cv_val cv) \<and> all_notified (map snd (cv_cbs cv)) (cv_val cv) v w w' \<longrightarrow>
     (\<exists>cv'. ConfigVar_setValue v cv w = (cv', w', None) \<and> ConfigVar_getValue cv' = v \<and>
        cv_cbs cv' = cv_cbs cv)) \<and>
   (\<not> vt_eq (cv_type cv) v (cv_val cv) \<and> map snd (cv_cbs cv) = xs @ cb # ys \<and>
      all_notified xs (cv_val cv) v w w1 \<and> call_listener cb (cv_val cv) v w1 = (w2, Some what) \<longrightarrow>
     ConfigVar_setValue v cv w = (cv, w2, Some what))"
  by (auto simp: ConfigVar_setValue_def setValue_notify_def setValue_store_def ConfigVar_getValue_def
      notify_returns [symmetric] notify_throws)

text \<open>For the instances: numbers with their decimal text, and listeners that record their calls.\<close>

definition nat_type :: "nat value_type" where
  "nat_type = \<lparr>vt_name = ''i'', vt_eq = (=),
     vt_from = (\<lambda>s. if s = ''one'' then Inr 1 else if s = ''two'' then Inr 2 else Inl ''bad_lexical_cast''),
     vt_to = (\<lambda>n. Inr (dec_nat n))\<rparr>"

definition recorder :: "nat \<Rightarrow> (nat, (nat \<times> nat \<times> nat) list) listener" where
  "recorder k old new w = (w @ [(k, old, new)], None)"

definition thrower :: "(nat, (nat \<times> nat \<times> nat) list) listener" where
  "thrower old new w = (w @ [(0, old, new)], Some ''no'')"

definition demo_var :: "(nat, (nat \<times> nat \<times> nat) list) config_var" where
  "demo_var = (ConfigVar nat_type ''port'' 7 ''the port'')\<lparr>cv_cbs := [(1, Some (recorder 4)), (2, Some (recorder 5))]\<rparr>"

lemma demo_var_simps [simp]:
  "cv_type demo_var = nat_type" "cv_val demo_var = 7" "vt_eq nat_type = (=)"
  "cv_cbs demo_var = [(1, Some (recorder 4)), (2, Some (recorder 5))]"
  by (simp_all add: demo_var_def ConfigVar_def nat_type_def)

theorem setValue_functional_witness:
  "\<exists>cv'. ConfigVar_setValue 8 demo_var [] = (cv', [(4, 7, 8), (5, 7, 8)], None) \<and> ConfigVar_getValue cv' = 8"
  using setValue_functional [of demo_var 8 "[]" "[(4, 7, 8), (5, 7, 8)]" "[]" None "[]" "[]" "[]" "[]"]
  by (auto simp: recorder_def)

lemma fromString_cases:
  assumes "ConfigVar_fromString val cv w = (ok, cv', w', ms)"
  shows "ok \<longleftrightarrow> ms = []"
    and "\<not> ok \<Longrightarrow> cv' = cv \<and> (\<exists>text. ms = [(ERROR, text)])"
    and "ok \<Longrightarrow> \<exists>v. vt_from (cv_type cv) val = Inr v \<and>
      (if vt_eq (cv_type cv) v (cv_val cv) then cv' = cv \<and> w' = w
       else cv' = cv\<lparr>cv_val := v\<rparr> \<and> all_notified (map snd (cv_cbs cv)) (cv_val cv) v w w')"
  using assms
  by (auto simp: ConfigVar_fromString_def ConfigVar_setValue_def setValue_notify_def setValue_store_def
      notify_returns Let_def split: sum.splits option.splits prod.splits if_splits)

text \<open>
  \<open>fromString\<close> never lets an exception out: when the conversion or a listener throws it
  returns \<open>false\<close>, leaves the value and reports the text; when they do not, it returns
  \<open>true\<close>, and reading the variable gives the converted value, or the equal one it had.
\<close>

theorem fromString_functional:
  "ConfigVar_fromString val cv w = (ok, cv', w', ms) \<Longrightarrow>
     (ok \<longleftrightarrow> ms = []) \<and>
     (\<not> ok \<longrightarrow> cv' = cv \<and> (\<exists>text. ms = [(ERROR, text)])) \<and>
     (ok \<longrightarrow> (\<exists>v. vt_from (cv_type cv) val = Inr v \<and>
        (if vt_eq (cv_type cv) v (cv_val cv) then cv' = cv \<and> w' = w
         else cv' = cv\<lparr>cv_val := v\<rparr> \<and> all_notified (map snd (cv_cbs cv)) (cv_val cv) v w w')))"
  using fromString_cases [of val cv w ok cv' w' ms] by blast

theorem fromString_functional_witness:
  "ConfigVar_fromString ''two'' demo_var [] =
     (True, demo_var\<lparr>cv_val := 2\<rparr>, [(4, 7, 2), (5, 7, 2)], [])"
proof -
  obtain ok cv' w' ms where r: "ConfigVar_fromString ''two'' demo_var [] = (ok, cv', w', ms)"
    by (metis prod_cases4)
  have "ok" using r
    by (auto simp: ConfigVar_fromString_def ConfigVar_setValue_def setValue_notify_def nat_type_def
        recorder_def Let_def)
  with fromString_functional [OF r] r show ?thesis by (auto simp: nat_type_def recorder_def)
qed

text \<open>
  Two threads that set a variable at the same time: the listeners run under the read lock,
  which both hold, and the stores follow in either order, so listeners can be told the same
  old value twice, and the value told last need not be the one that stays.
\<close>

theorem setValue_interleaved:
  assumes "\<not> vt_eq (cv_type cv) v1 (cv_val cv)" and "\<not> vt_eq (cv_type cv) v2 (cv_val cv)"
    and "cv_cbs cv = [(1, Some (\<lambda>old new w. (w @ [(old, new)], None)))]"
  shows "\<exists>w1 w2. setValue_notify v1 cv [] = Some (w1, None) \<and> setValue_notify v2 cv w1 = Some (w2, None) \<and>
    w2 = [(cv_val cv, v1), (cv_val cv, v2)] \<and>
    ConfigVar_getValue (setValue_store v1 (setValue_store v2 cv)) = v1"
  using assms by (simp add: setValue_notify_def setValue_store_def ConfigVar_getValue_def)

definition race_var :: "(nat, (nat \<times> nat) list) config_var" where
  "race_var = (ConfigVar nat_type ''port'' 7 [])
     \<lparr>cv_cbs := [(1, Some (\<lambda>old new w. (w @ [(old, new)], None)))]\<rparr>"

theorem setValue_interleaved_witness:
  "\<exists>w1. setValue_notify 1 race_var [] = Some (w1, None) \<and>
     setValue_notify 2 race_var w1 = Some ([(7, 1), (7, 2)], None) \<and>
     ConfigVar_getValue (setValue_store 1 (setValue_store 2 race_var)) = 1"
proof -
  have cv: "vt_eq (cv_type race_var) = (=)" "cv_val race_var = 7"
    "cv_cbs race_var = [(1, Some (\<lambda>old new w. (w @ [(old, new)], None)))]"
    by (simp_all add: race_var_def ConfigVar_def nat_type_def)
  show ?thesis using setValue_interleaved [of race_var 1 2] unfolding cv by auto
qed

section \<open>Listeners\<close>

lemma addListener_get:
  assumes "map_sorted (cv_cbs cv)" and "ConfigVar_addListener cb n cv = (ident, n', cv')"
  shows "ident = n + 1" "n' = n + 1" "map_sorted (cv_cbs cv')" "cv_val cv' = cv_val cv"
    and "ConfigVar_getListener k cv' = (if k = ident then cb else ConfigVar_getListener k cv)"
  using assms std_map.find_assign [of "cv_cbs cv" "n + 1" cb k]
  by (auto simp: ConfigVar_addListener_def ConfigVar_getListener_def Let_def std_map.invar_assign
      split: if_splits)

lemma delListener_get:
  assumes "map_sorted (cv_cbs cv)"
  shows "map_sorted (cv_cbs (ConfigVar_delListener k cv))"
    and "ConfigVar_getListener j (ConfigVar_delListener k cv) =
      (if j = k then None else ConfigVar_getListener j cv)"
  using assms
  by (auto simp: ConfigVar_delListener_def ConfigVar_getListener_def std_map.find_erase std_map.invar_erase)

lemma clearListener_get: "ConfigVar_getListener j (ConfigVar_clearListener cv) = None"
  by (simp add: ConfigVar_clearListener_def ConfigVar_getListener_def)

end
