(* ===== verification/Lexical_Cast_Facts.thy ===== *)
theory Lexical_Cast_Facts
  imports Lexical_Cast "HOL-Library.Multiset"
begin

text \<open>
  What the conversions of containers promise: a container that is printed and read back is the
  same up to what the conversion of its elements loses. Two interfaces carry the proofs: a
  conversion of elements whose text reads back, and a container that is rebuilt by inserting its
  elements in the order in which they are visited. Every container of the code provides the second.
\<close>

section \<open>Elements\<close>

text \<open>
  The text of an element, loaded and printed again (as a sequence does with it), is read back as
  \<open>norm\<close> of the element.
\<close>

definition reads_back ::
  "yaml_lib \<Rightarrow> (string \<Rightarrow> 'a parse) \<Rightarrow> ('a \<Rightarrow> string + string) \<Rightarrow> ('a \<Rightarrow> 'a) \<Rightarrow> 'a \<Rightarrow> bool"
where
  "reads_back lib from to norm x \<longleftrightarrow>
     (case to x of Inl e \<Rightarrow> False
      | Inr s \<Rightarrow> (case yl_load lib s of Inl e \<Rightarrow> False
          | Inr n \<Rightarrow> from (yl_emit lib n) = ([], Inr (norm x))))"

text \<open>A node whose printed form loads as the node.\<close>

definition document_ok :: "yaml_lib \<Rightarrow> yaml \<Rightarrow> bool" where
  "document_ok lib n \<longleftrightarrow> yl_load lib (yl_emit lib n) = Inr n"

locale element_cast =
  fixes lib :: yaml_lib and rd :: "string \<Rightarrow> 'a parse" and wr :: "'a \<Rightarrow> string + string"
    and norm :: "'a \<Rightarrow> 'a" and ok :: "'a \<Rightarrow> bool"
  assumes element: "ok x \<Longrightarrow> reads_back lib rd wr norm x"
begin

lemma to_each_ok:
  "list_all ok xs \<Longrightarrow> \<exists>ms. to_each lib wr xs ns = Inr (ns @ ms) \<and>
     list_all2 (\<lambda>x m. rd (yl_emit lib m) = ([], Inr (norm x))) xs ms"
proof (induction xs arbitrary: ns)
  case (Cons x xs)
  then obtain s n where x: "wr x = Inr s" "yl_load lib s = Inr n" "rd (yl_emit lib n) = ([], Inr (norm x))"
    using element [of x] by (auto simp: reads_back_def split: sum.splits)
  obtain ms where "to_each lib wr xs (ns @ [n]) = Inr ((ns @ [n]) @ ms)"
    "list_all2 (\<lambda>x m. rd (yl_emit lib m) = ([], Inr (norm x))) xs ms"
    using Cons.IH [of "ns @ [n]"] Cons.prems by auto
  with x show ?case by (intro exI [of _ "n # ms"]) (simp add: push_back_def)
qed simp

lemma from_each_ok:
  "list_all2 (\<lambda>x m. rd (yl_emit lib m) = ([], Inr (norm x))) xs ms \<Longrightarrow>
     from_each lib rd ins ms c = ([], Inr (foldl (\<lambda>c x. ins x c) c (map norm xs)))"
  by (induction xs ms arbitrary: c rule: list_all2_induct) simp_all

lemma to_pairs_ok:
  "list_all (\<lambda>(k, x). ok x) kxs \<Longrightarrow> distinct (map fst kxs) \<Longrightarrow>
     \<forall>k \<in> fst ` set kxs. YScalar k \<notin> fst ` set ns \<Longrightarrow>
   \<exists>ms. to_pairs lib wr kxs ns = Inr (ns @ ms) \<and>
     list_all2 (\<lambda>(k, x) (n, m). n = YScalar k \<and> rd (yl_emit lib m) = ([], Inr (norm x))) kxs ms"
proof (induction kxs arbitrary: ns)
  case (Cons kx kxs)
  obtain k x where kx: "kx = (k, x)" by force
  with Cons.prems obtain s n where x: "wr x = Inr s" "yl_load lib s = Inr n"
    "rd (yl_emit lib n) = ([], Inr (norm x))"
    using element [of x] by (auto simp: reads_back_def split: sum.splits)
  have new: "YScalar k \<notin> fst ` set ns" using Cons.prems(3) kx by simp
  then have assign: "node_assign k n ns = ns @ [(YScalar k, n)]"
    by (induction k n ns rule: node_assign.induct) auto
  have "\<forall>k' \<in> fst ` set kxs. YScalar k' \<notin> fst ` set (ns @ [(YScalar k, n)])"
    using Cons.prems(2,3) kx by auto
  then obtain ms where "to_pairs lib wr kxs (ns @ [(YScalar k, n)]) = Inr ((ns @ [(YScalar k, n)]) @ ms)"
    "list_all2 (\<lambda>(k, x) (n, m). n = YScalar k \<and> rd (yl_emit lib m) = ([], Inr (norm x))) kxs ms"
    using Cons.IH [of "ns @ [(YScalar k, n)]"] Cons.prems(1,2) kx by auto
  with x kx assign show ?case by (intro exI [of _ "(YScalar k, n) # ms"]) simp
qed simp

lemma from_pairs_ok:
  "list_all2 (\<lambda>(k, x) (n, m). n = YScalar k \<and> rd (yl_emit lib m) = ([], Inr (norm x))) kxs ms \<Longrightarrow>
     from_pairs lib rd ins ms c = ([], Inr (foldl (\<lambda>c (k, x). ins k (norm x) c) c kxs))"
  by (induction kxs ms arbitrary: c rule: list_all2_induct) auto

end

section \<open>Containers\<close>

text \<open>
  Inserting the elements, in the order in which a container is visited, into an empty container
  gives the same container.
\<close>

locale rebuilt_container =
  fixes ins :: "'e \<Rightarrow> 'c \<Rightarrow> 'c" and empty :: 'c and visit :: "'c \<Rightarrow> 'e list"
    and same :: "'c \<Rightarrow> 'c \<Rightarrow> bool" and valid :: "'c \<Rightarrow> bool"
  assumes rebuild: "valid c \<Longrightarrow> same (foldl (\<lambda>d x. ins x d) empty (visit c)) c"

lemma foldl_push_back: "foldl (\<lambda>d x. push_back x d) ys xs = ys @ xs"
  by (induction xs arbitrary: ys) (simp_all add: push_back_def)

interpretation vector: rebuilt_container push_back "[]" "\<lambda>v. v" "(=)" "\<lambda>_. True"
  by unfold_locales (simp add: foldl_push_back)

definition set_sorted :: "('a \<Rightarrow> 'a \<Rightarrow> bool) \<Rightarrow> 'a std_set \<Rightarrow> bool" where
  "set_sorted lt s \<longleftrightarrow> sorted_wrt lt s \<and> asymp lt"

lemma set_insert_last:
  "asymp lt \<Longrightarrow> \<forall>y \<in> set ys. lt y x \<Longrightarrow> set_insert lt x ys = ys @ [x]"
  by (induction lt x ys rule: set_insert.induct) (auto dest: asympD)

lemma foldl_set_insert:
  "asymp lt \<Longrightarrow> sorted_wrt lt (ys @ xs) \<Longrightarrow> foldl (\<lambda>d x. set_insert lt x d) ys xs = ys @ xs"
proof (induction xs arbitrary: ys)
  case (Cons x xs)
  have "set_insert lt x ys = ys @ [x]"
    using Cons.prems by (intro set_insert_last) (auto simp: sorted_wrt_append)
  with Cons.IH [of "ys @ [x]"] Cons.prems show ?case by simp
qed simp

interpretation ordered_set: rebuilt_container "set_insert lt" "[]" "\<lambda>s. s" "(=)" "set_sorted lt"
  by unfold_locales (simp add: set_sorted_def foldl_set_insert)

text \<open>Unordered containers are the same when they have the same elements, each once.\<close>

definition arranges :: "('e list \<Rightarrow> 'e list) \<Rightarrow> bool" where
  "arranges arrange \<longleftrightarrow> (\<forall>xs. mset (arrange xs) = mset xs)"

lemma arrange_set: "arranges arrange \<Longrightarrow> set (arrange xs) = set xs"
  by (metis arranges_def set_mset_mset)

lemma foldl_unordered_set:
  assumes "arranges arrange" and "distinct (ys @ xs)"
  shows "mset (foldl (\<lambda>d x. unordered_set_insert arrange x d) ys xs) = mset (ys @ xs)"
  using assms(2)
proof (induction xs arbitrary: ys)
  case (Cons x xs)
  have new: "unordered_set_insert arrange x ys = arrange (x # ys)"
    using Cons.prems by (simp add: unordered_set_insert_def)
  have m: "mset (arrange (x # ys)) = add_mset x (mset ys)" using assms(1) by (simp add: arranges_def)
  have "mset (arrange (x # ys) @ xs) = mset (ys @ x # xs)" by (simp add: m)
  with Cons.prems have "distinct (arrange (x # ys) @ xs)" by (metis mset_eq_imp_distinct_iff)
  from Cons.IH [OF this] show ?case by (simp add: new m)
qed simp

interpretation unordered_set: rebuilt_container "unordered_set_insert arrange" "[]" "\<lambda>s. s"
  "\<lambda>s t. mset s = mset t" "\<lambda>s. distinct s \<and> arranges arrange"
  by unfold_locales (simp add: foldl_unordered_set [where ys = "[]", simplified])

lemma map_assign_last:
  "\<forall>k' \<in> fst ` set m. k' < k \<Longrightarrow> map_assign k v m = m @ [(k, v)]"
  by (induction k v m rule: map_assign.induct) auto

lemma foldl_map_insert:
  "map_sorted (ys @ xs) \<Longrightarrow> foldl (\<lambda>d (k, v). map_insert k v d) ys xs = ys @ xs"
proof (induction xs arbitrary: ys)
  case (Cons kv xs)
  obtain k v where kv: "kv = (k, v)" by force
  have less: "\<forall>k' \<in> fst ` set ys. k' < k"
    using Cons.prems kv by (auto simp: map_sorted_def sorted_wrt_append)
  then have "map_find ys k = None" by (intro map_find_None) auto
  with less have "map_insert k v ys = ys @ [(k, v)]" by (simp add: map_insert_def map_assign_last)
  with Cons.IH [of "ys @ [(k, v)]"] Cons.prems kv show ?case by simp
qed simp

interpretation ordered_map: rebuilt_container "\<lambda>(k, v). map_insert k v" "[]" "\<lambda>m. m" "(=)" map_sorted
  by unfold_locales (simp add: case_prod_unfold foldl_map_insert [where ys = "[]", unfolded append_Nil case_prod_unfold])

lemma foldl_unordered_map:
  assumes "arranges arrange" and "distinct (map fst (ys @ xs))"
  shows "mset (foldl (\<lambda>d (k, v). unordered_map_insert arrange k v d) ys xs) = mset (ys @ xs)"
  using assms(2)
proof (induction xs arbitrary: ys)
  case (Cons kv xs)
  obtain k v where kv: "kv = (k, v)" by force
  have "map_find ys k = None" using Cons.prems kv by (intro map_find_None) auto
  then have new: "unordered_map_insert arrange k v ys = arrange ((k, v) # ys)"
    by (simp add: unordered_map_insert_def)
  have m: "mset (arrange ((k, v) # ys)) = add_mset (k, v) (mset ys)" using assms(1) by (simp add: arranges_def)
  have "mset (map fst (arrange ((k, v) # ys) @ xs)) = mset (map fst (ys @ kv # xs))"
    using image_mset_add_mset [of fst "(k, v)" "mset ys"] unfolding m [symmetric] by (simp add: kv)
  with Cons.prems have "distinct (map fst (arrange ((k, v) # ys) @ xs))" by (metis mset_eq_imp_distinct_iff)
  from Cons.IH [OF this] show ?case by (simp add: new m kv)
qed simp

interpretation unordered_map: rebuilt_container "\<lambda>(k, v). unordered_map_insert arrange k v" "[]" "\<lambda>m. m"
  "\<lambda>m m'. mset m = mset m'" "\<lambda>m. distinct (map fst m) \<and> arranges arrange"
  by unfold_locales (simp add: case_prod_unfold foldl_unordered_map [where ys = "[]", unfolded append_Nil case_prod_unfold])

section \<open>Round trips\<close>

text \<open>A conversion of elements, through any container of elements, and through any map.\<close>

locale sequence_cast = element_cast lib rd wr norm ok + rebuilt_container ins empty visit same valid
  for lib and rd :: "string \<Rightarrow> 'a parse" and wr norm ok and ins :: "'a \<Rightarrow> 'c \<Rightarrow> 'c"
    and empty visit same valid
begin

lemma sequence_roundtrip:
  assumes "valid d" and "visit d = map norm (visit c)" and "list_all ok (visit c)"
    and "\<And>ns. to_each lib wr (visit c) [] = Inr ns \<Longrightarrow> document_ok lib (YSeq ns)"
  obtains ns e where "to_each lib wr (visit c) [] = Inr ns" and "document_ok lib (YSeq ns)"
    and "from_each lib rd ins ns empty = ([], Inr e)" and "same e d"
proof -
  obtain ns where ns: "to_each lib wr (visit c) [] = Inr ns"
    "list_all2 (\<lambda>x m. rd (yl_emit lib m) = ([], Inr (norm x))) (visit c) ns"
    using to_each_ok [OF assms(3), of "[]"] by auto
  from that [OF ns(1) assms(4) [OF ns(1)] from_each_ok [OF ns(2)]] rebuild [OF assms(1)] assms(2)
  show thesis by simp
qed

end

locale pair_cast = element_cast lib rd wr norm ok +
    rebuilt_container "\<lambda>(k, v). ins k v" empty visit same valid
  for lib and rd :: "string \<Rightarrow> 'a parse" and wr norm ok and ins :: "string \<Rightarrow> 'a \<Rightarrow> 'c \<Rightarrow> 'c"
    and empty visit same valid
begin

lemma pairs_roundtrip:
  assumes "valid d" and "visit d = map (\<lambda>(k, x). (k, norm x)) (visit c)"
    and "list_all (\<lambda>(k, x). ok x) (visit c)" and "distinct (map fst (visit c))"
    and "\<And>ns. to_pairs lib wr (visit c) [] = Inr ns \<Longrightarrow> document_ok lib (YMap ns)"
  obtains ns e where "to_pairs lib wr (visit c) [] = Inr ns" and "document_ok lib (YMap ns)"
    and "from_pairs lib rd ins ns empty = ([], Inr e)" and "same e d"
proof -
  obtain ns where ns: "to_pairs lib wr (visit c) [] = Inr ns"
    "list_all2 (\<lambda>(k, x) (n, m). n = YScalar k \<and> rd (yl_emit lib m) = ([], Inr (norm x))) (visit c) ns"
    using to_pairs_ok [OF assms(3,4), of "[]"] by auto
  have "foldl (\<lambda>c (k, x). ins k (norm x) c) empty (visit c) = foldl (\<lambda>c x. (case x of (k, v) \<Rightarrow> ins k v) c) empty (visit d)"
    unfolding assms(2) by (simp add: foldl_map case_prod_unfold)
  with that [OF ns(1) assms(5) [OF ns(1)] from_pairs_ok [OF ns(2)]] rebuild [OF assms(1)]
  show thesis by simp
qed

end

text \<open>Any conversion of elements, on the elements that it reads back, with every container.\<close>

interpretation element: element_cast lib rd wr norm "reads_back lib rd wr norm"
  by unfold_locales

interpretation vector_cast: sequence_cast lib rd wr norm "reads_back lib rd wr norm"
  push_back "[]" "\<lambda>v. v" "(=)" "\<lambda>_. True" ..

interpretation set_cast: sequence_cast lib rd wr norm "reads_back lib rd wr norm"
  "set_insert lt" "[]" "\<lambda>s. s" "(=)" "set_sorted lt" ..

interpretation unordered_set_cast: sequence_cast lib rd wr norm "reads_back lib rd wr norm"
  "unordered_set_insert arrange" "[]" "\<lambda>s. s" "\<lambda>s t. mset s = mset t" "\<lambda>s. distinct s \<and> arranges arrange" ..

interpretation map_cast: pair_cast lib rd wr norm "reads_back lib rd wr norm"
  map_insert "[]" "\<lambda>m. m" "(=)" map_sorted ..

interpretation unordered_map_cast: pair_cast lib rd wr norm "reads_back lib rd wr norm"
  "unordered_map_insert arrange" "[]" "\<lambda>m. m" "\<lambda>m m'. mset m = mset m'"
  "\<lambda>m. distinct (map fst m) \<and> arranges arrange" ..

lemmas sequence_defs = vector_from_def list_from_def set_from_def unordered_set_from_def
  vector_to_def list_to_def set_to_def unordered_set_to_def lift_parse_def document_ok_def

lemmas pair_cast_defs = map_from_def unordered_map_from_def map_to_def unordered_map_to_def
  lift_parse_def document_ok_def

text \<open>
  C30: A vector, list, set or unordered set whose elements read back after a way through YAML is
  the same after the conversion to text and back: vectors, lists and (ascending) sets exactly,
  unordered sets with the same elements. (Assumed: yaml-cpp reads back the sequence it printed.)
\<close>

theorem sequence_containers_roundtrip:
  assumes "yaml_lib_ok lib" and "\<forall>x \<in> set xs. reads_back lib from to id x"
    and "\<And>ns. to_each lib to xs [] = Inr ns \<Longrightarrow> document_ok lib (YSeq ns)"
  shows "(\<exists>doc. vector_to lib to xs = Inr doc \<and> vector_from lib from doc = ([], Inr xs)) \<and>
    (\<exists>doc. list_to lib to xs = Inr doc \<and> list_from lib from doc = ([], Inr xs)) \<and>
    (set_sorted lt xs \<longrightarrow> (\<exists>doc. set_to lib to xs = Inr doc \<and> set_from lib lt from doc = ([], Inr xs))) \<and>
    (distinct xs \<and> arranges arrange \<longrightarrow> (\<exists>doc s. unordered_set_to lib to xs = Inr doc \<and>
      unordered_set_from lib arrange from doc = ([], Inr s) \<and> mset s = mset xs))"
proof -
  have items: "yl_items lib (YSeq ns) = Inr ns" for ns using assms(1) by (simp add: yaml_lib_ok_def)
  have all: "list_all (reads_back lib from to id) xs" using assms(2) by (simp add: list_all_iff)
  obtain ns where "to_each lib to xs [] = Inr ns" "document_ok lib (YSeq ns)"
    "from_each lib from push_back ns [] = ([], Inr xs)"
    using vector_cast.sequence_roundtrip [where rd = "from" and wr = to and norm = id and lib = lib and c = xs and d = xs] all assms(3) by auto
  moreover have "from_each lib from (set_insert lt) ns [] = ([], Inr xs)" if "set_sorted lt xs"
    using set_cast.sequence_roundtrip [where rd = "from" and wr = to and norm = id and lib = lib and c = xs and d = xs] all assms(3) that
      \<open>to_each lib to xs [] = Inr ns\<close> by auto
  moreover have "\<exists>s. from_each lib from (unordered_set_insert arrange) ns [] = ([], Inr s) \<and> mset s = mset xs"
    if "distinct xs \<and> arranges arrange"
    using unordered_set_cast.sequence_roundtrip [where rd = "from" and wr = to and norm = id and lib = lib and c = xs and d = xs] all assms(3) that
      \<open>to_each lib to xs [] = Inr ns\<close> by auto
  ultimately show ?thesis by (simp add: sequence_defs items)
qed

definition scalar_lib :: yaml_lib where
  "scalar_lib =
     \<lparr>yl_load = (\<lambda>s. if s = ''- a'' then Inr (YSeq [YScalar ''a'', YScalar ''b''])
         else if s = ''a: b'' then Inr (YMap [(YScalar ''a'', YScalar ''b'')])
         else if s = ''- ~'' then Inr (YSeq [YNull]) else if s = [] then Inr YNull else Inr (YScalar s)),
      yl_emit = (\<lambda>n. case n of YScalar s \<Rightarrow> s | YSeq ns \<Rightarrow> if ns = [YNull] then ''- ~'' else ''- a''
         | YMap _ \<Rightarrow> ''a: b'' | YNull \<Rightarrow> ''~''),
      yl_items = (\<lambda>n. case n of YSeq ns \<Rightarrow> Inr ns | _ \<Rightarrow> Inr []),
      yl_pairs = (\<lambda>n. case n of YMap kvs \<Rightarrow> Inr kvs | _ \<Rightarrow> Inr []),
      yl_index = (\<lambda>n k. case n of YMap kvs \<Rightarrow> Inr (yaml_find kvs k) | _ \<Rightarrow> Inl ''bad subscript''),
      yl_as_string = (\<lambda>n. case n of YScalar s \<Rightarrow> Inr s | _ \<Rightarrow> Inl ''bad conversion'')\<rparr>"

lemma scalar_lib_ok: "yaml_lib_ok scalar_lib"
  by (simp add: yaml_lib_ok_def scalar_lib_def)

theorem sequence_containers_roundtrip_witness:
  "\<exists>doc. set_to scalar_lib Inr [''a'', ''b''] = Inr doc \<and>
     set_from scalar_lib (<) (\<lambda>s. ([], Inr s)) doc = ([], Inr [''a'', ''b''])"
proof -
  have "set_sorted (<) [''a'', ''b'']" by (simp add: set_sorted_def asympI less_char_def)
  then show ?thesis
    using sequence_containers_roundtrip [OF scalar_lib_ok, of "[''a'', ''b'']" "\<lambda>s. ([], Inr s)" Inr "(<)" id]
    by (simp add: reads_back_def scalar_lib_def push_back_def document_ok_def)
qed

text \<open>
  C35: A map with text keys whose values read back is the same after the conversion to text and
  back: a (sorted) map exactly, an unordered map with the same pairs. (Assumed: yaml-cpp reads back
  the map it printed.)
\<close>

theorem maps_roundtrip:
  assumes "yaml_lib_ok lib" and "\<forall>(k, x) \<in> set m. reads_back lib from to id x"
    and "distinct (map fst m)"
    and "\<And>ns. to_pairs lib to m [] = Inr ns \<Longrightarrow> document_ok lib (YMap ns)"
  shows "(map_sorted m \<longrightarrow> (\<exists>doc. map_to lib to m = Inr doc \<and> map_from lib from doc = ([], Inr m))) \<and>
    (arranges arrange \<longrightarrow> (\<exists>doc m'. unordered_map_to lib to m = Inr doc \<and>
      unordered_map_from lib arrange from doc = ([], Inr m') \<and> mset m' = mset m))"
proof -
  have pairs: "yl_pairs lib (YMap kvs) = Inr kvs" for kvs using assms(1) by (simp add: yaml_lib_ok_def)
  have all: "list_all (\<lambda>(k, x). reads_back lib from to id x) m" using assms(2) by (simp add: list_all_iff)
  have same: "m = map (\<lambda>(k, x). (k, id x)) m" by (simp add: case_prod_unfold)
  have "\<exists>ns. to_pairs lib to m [] = Inr ns \<and> document_ok lib (YMap ns) \<and>
      from_pairs lib from map_insert ns [] = ([], Inr m)" if "map_sorted m"
    using map_cast.pairs_roundtrip [OF that same all assms(3,4)] by metis
  moreover have "\<exists>ns m'. to_pairs lib to m [] = Inr ns \<and> document_ok lib (YMap ns) \<and>
      from_pairs lib from (unordered_map_insert arrange) ns [] = ([], Inr m') \<and> mset m' = mset m"
    if "arranges arrange"
    using unordered_map_cast.pairs_roundtrip [OF conjI [OF assms(3) that] same all assms(3,4)]
    by metis
  ultimately show ?thesis by (auto simp: pair_cast_defs pairs)
qed

theorem maps_roundtrip_witness:
  "\<exists>doc. map_to scalar_lib Inr [(''a'', ''b'')] = Inr doc \<and>
     map_from scalar_lib (\<lambda>s. ([], Inr s)) doc = ([], Inr [(''a'', ''b'')])"
  using maps_roundtrip [OF scalar_lib_ok, of "[(''a'', ''b'')]" "\<lambda>s. ([], Inr s)" Inr id]
  by (simp add: reads_back_def scalar_lib_def document_ok_def)

text \<open>
  The text of an element is read as YAML again before it is put into a sequence, so texts are
  not kept: with strings as elements the empty string is a null node, which is printed as a tilde
  and comes back as the text of a tilde.
\<close>

theorem vector_changes_empty_text:
  assumes "yaml_lib_ok lib" and "yl_load lib [] = Inr YNull" and "yl_emit lib YNull = ''~''"
    and "document_ok lib (YSeq [YNull])"
  shows "\<exists>doc. vector_to lib Inr [[]] = Inr doc \<and> vector_from lib (\<lambda>s. ([], Inr s)) doc = ([], Inr [''~''])"
  using assms by (simp add: vector_to_def vector_from_def push_back_def lift_parse_def document_ok_def yaml_lib_ok_def)

theorem vector_changes_empty_text_witness:
  "\<exists>doc. vector_to scalar_lib Inr [[]] = Inr doc \<and>
     vector_from scalar_lib (\<lambda>s. ([], Inr s)) doc = ([], Inr [''~''])"
  by (rule vector_changes_empty_text [OF scalar_lib_ok]) (simp_all add: scalar_lib_def document_ok_def)

end
