(* ===== verification/Log_Conf_Facts.thy ===== *)
theory Log_Conf_Facts
  imports Log_Conf Config_Facts Lexical_Cast_Facts
begin

text \<open>
  What the configuration of the loggers promises: which changes of a definition are seen at
  all, what survives the way through YAML, and the state of the loggers after the listener.
\<close>

section \<open>Equality and order of definitions\<close>

lemma LogDefine_eq_iff:
  "LogDefine_eq d oth \<longleftrightarrow>
     ld_name d = ld_name oth \<and> ld_level d = ld_level oth \<and> ld_formatter d = ld_formatter oth"
  by (simp add: LogDefine_eq_def LogAppenderDefine_eq_def list.rel_refl)

lemma set_find_name: "set_find LogDefine_less ds d = find (\<lambda>it. ld_name it = ld_name d) ds"
  by (induction ds) (auto simp: LogDefine_less_def not_less)

definition same_header :: "log_define \<Rightarrow> log_define \<Rightarrow> bool" where
  "same_header d e \<longleftrightarrow>
     ld_name d = ld_name e \<and> ld_level d = ld_level e \<and> ld_formatter d = ld_formatter e"

text \<open>
  A new configuration that differs from the current one only in the appenders of its
  loggers is taken for equal, because the last comparison of \<open>LogDefine::operator==\<close> compares
  \<open>appenders\<close> with itself: \<open>setValue\<close> neither stores it nor calls the listener, and the
  listener, called with the two, configures no logger.
\<close>

theorem appender_changes_ignored:
  assumes "cv_type cv = log_defines_type lib tn" and "list_all2 same_header new (cv_val cv)"
  shows "ConfigVar_setValue new cv w = (cv, w, None) \<and>
    (\<forall>d \<in> set new. \<forall>it. set_find LogDefine_less (cv_val cv) d = Some it \<and> same_header d it \<longrightarrow>
      conf_changed (cv_val cv) [d] s = Inr s)"
proof -
  have "list_all2 LogDefine_eq new (cv_val cv)"
    by (rule list_all2_mono [OF assms(2)]) (simp add: LogDefine_eq_iff same_header_def)
  then have "vt_eq (cv_type cv) new (cv_val cv)"
    by (simp add: assms(1) log_defines_type_def set_eq_def list_all2_lengthD)
  then show ?thesis
    by (auto simp: ConfigVar_setValue_def setValue_notify_def LogDefine_eq_iff same_header_def)
qed

definition demo_define :: log_define where
  "demo_define = \<lparr>ld_name = ''system'', ld_level = INFO, ld_formatter = ''%m%n'',
     ld_appenders = [\<lparr>ad_type = 1, ad_level = WARN, ad_formatter = [], ad_file = ''a.log''\<rparr>,
       \<lparr>ad_type = 2, ad_level = UNKNOW, ad_formatter = ''%p'', ad_file = []\<rparr>]\<rparr>"

definition demo_lib :: yaml_lib where
  "demo_lib =
     \<lparr>yl_load = (\<lambda>s. if s = ''x'' then Inr (LogDefine_node demo_define) else Inl ''parser error''),
      yl_emit = (\<lambda>n. if n = LogDefine_node demo_define then ''x'' else []),
      yl_items = (\<lambda>n. case n of YSeq ns \<Rightarrow> Inr ns | _ \<Rightarrow> Inr []),
      yl_pairs = (\<lambda>n. case n of YMap kvs \<Rightarrow> Inr kvs | _ \<Rightarrow> Inr []),
      yl_index = (\<lambda>n k. case n of YMap kvs \<Rightarrow> Inr (yaml_find kvs k) | _ \<Rightarrow> Inl ''bad subscript''),
      yl_as_string = (\<lambda>n. case n of YScalar s \<Rightarrow> Inr s | _ \<Rightarrow> Inl ''bad conversion'')\<rparr>"

lemma demo_lib_ok: "yaml_lib_ok demo_lib"
  by (simp add: yaml_lib_ok_def demo_lib_def)

definition demo_logs :: "(log_define std_set, unit) config_var" where
  "demo_logs = ConfigVar (log_defines_type demo_lib ''set'') ''logs'' [demo_define] ''logs config''"

theorem appender_changes_ignored_witness:
  "ConfigVar_setValue [demo_define\<lparr>ld_appenders := []\<rparr>] demo_logs () = (demo_logs, (), None)"
proof -
  have "cv_type demo_logs = log_defines_type demo_lib ''set''"
    "list_all2 same_header [demo_define\<lparr>ld_appenders := []\<rparr>] (cv_val demo_logs)"
    by (simp_all add: demo_logs_def ConfigVar_def same_header_def)
  from appender_changes_ignored [OF this] show ?thesis by simp
qed

section \<open>Through YAML and back\<close>

lemma yaml_find_build: "yaml_find (map (\<lambda>(k, v). (YScalar k, v)) kvs) k = map_of kvs k"
  by (induction kvs) auto

lemma yl_index_build:
  "yaml_lib_ok lib \<Longrightarrow> kvs \<noteq> [] \<Longrightarrow> yl_index lib (build_map kvs) k = Inr (map_of kvs k)"
  by (simp add: yaml_lib_ok_def build_map_def yaml_find_build)

lemma text_at_build:
  assumes "yaml_lib_ok lib" and "kvs \<noteq> []"
  shows "text_at lib (build_map kvs) k dflt =
    (case map_of kvs k of None \<Rightarrow> ([], Inr dflt) | Some m \<Rightarrow> lift_parse (yl_as_string lib m))"
  by (simp add: text_at_def yl_index_build [OF assms] lift_parse_def)

lemma map_of_key_if: "map_of (key_if b k v) = (\<lambda>k'. if b \<and> k' = k then Some v else None)"
  by (auto simp: key_if_def)

lemmas build_simps = map_of_key_if map_add_def lift_parse_def

text \<open>The definitions of appenders that \<open>FromStr\<close> can produce, up to the level.\<close>

definition appender_define_ok :: "log_appender_define \<Rightarrow> bool" where
  "appender_define_ok a \<longleftrightarrow> ad_type a = 1 \<or> (ad_type a = 2 \<and> ad_file a = [])"

lemma appender_roundtrip:
  assumes lib: "yaml_lib_ok lib" and "appender_define_ok a"
  shows "appender_from lib (appender_node a) = ([], Inr (Some (a\<lparr>ad_level := UNKNOW\<rparr>)))"
proof -
  have as: "yl_as_string lib (YScalar s) = Inr s" for s using lib by (simp add: yaml_lib_ok_def)
  consider "ad_type a = 1" | "ad_type a = 2" "ad_file a = []" using assms(2) by (auto simp: appender_define_ok_def)
  then show ?thesis
  proof cases
    case 1
    then show ?thesis
      by (simp add: appender_from_def appender_node_def yl_index_build [OF lib] text_at_build [OF lib]
          build_simps as)
  next
    case 2
    then show ?thesis
      by (simp add: appender_from_def appender_node_def yl_index_build [OF lib] text_at_build [OF lib]
          build_simps as)
  qed
qed

lemma appenders_roundtrip:
  assumes "yaml_lib_ok lib" and "list_all appender_define_ok as"
  shows "appenders_from lib (map appender_node as) = ([], Inr (map (\<lambda>a. a\<lparr>ad_level := UNKNOW\<rparr>) as))"
  using assms(2) by (induction as) (simp_all add: appender_roundtrip [OF assms(1)])

definition drop_levels :: "log_define \<Rightarrow> log_define" where
  "drop_levels d = d\<lparr>ld_appenders := map (\<lambda>a. a\<lparr>ad_level := UNKNOW\<rparr>) (ld_appenders d)\<rparr>"

definition define_ok :: "yaml_lib \<Rightarrow> log_define \<Rightarrow> bool" where
  "define_ok lib d \<longleftrightarrow> yaml_lib_ok lib \<and> list_all appender_define_ok (ld_appenders d) \<and>
     document_ok lib (LogDefine_node d)"

lemma define_reads_back:
  assumes "define_ok lib d"
  shows "LogDefine_from lib (LogDefine_to lib d) = ([], Inr (drop_levels d))"
proof -
  have ok: "yaml_lib_ok lib" "list_all appender_define_ok (ld_appenders d)"
    and load: "yl_load lib (yl_emit lib (LogDefine_node d)) = Inr (LogDefine_node d)"
    using assms by (simp_all add: define_ok_def document_ok_def)
  have lib: "yl_as_string lib (YScalar s) = Inr s" "yl_items lib (YSeq ns) = Inr ns" for s ns
    using ok(1) by (simp_all add: yaml_lib_ok_def)
  show ?thesis
    using load
    by (simp add: LogDefine_from_def LogDefine_to_def lift_parse_def)
       (simp add: LogDefine_node_def drop_levels_def yl_index_build [OF ok(1)] text_at_build [OF ok(1)] build_simps
          lib appenders_roundtrip [OF ok])
qed

text \<open>So the conversions of definitions go with the set of them.\<close>

lemma LogDefine_set_sorted: "set_sorted LogDefine_less ds \<longleftrightarrow> sorted_wrt LogDefine_less ds"
proof -
  have "asymp LogDefine_less" by (rule asympI) (simp add: LogDefine_less_def order_less_not_sym)
  then show ?thesis by (simp add: set_sorted_def)
qed

interpretation logs_cast: sequence_cast lib "LogDefine_from lib" "\<lambda>i. Inr (LogDefine_to lib i)"
  drop_levels "define_ok lib" "set_insert LogDefine_less" "[]" "\<lambda>s. s" "(=)" "sorted_wrt LogDefine_less"
proof unfold_locales
  show "reads_back lib (LogDefine_from lib) (\<lambda>i. Inr (LogDefine_to lib i)) drop_levels d" if "define_ok lib d" for d
    using that define_reads_back [OF that]
    by (auto simp: reads_back_def LogDefine_to_def define_ok_def document_ok_def)
  show "foldl (\<lambda>d x. set_insert LogDefine_less x d) [] c = c" if "sorted_wrt LogDefine_less c" for c
    using that ordered_set.rebuild [of LogDefine_less c] by (simp add: LogDefine_set_sorted)
qed

text \<open>
  A definition printed as YAML and read back keeps its name, level, formatter, and of each
  appender the type, file and formatter. It loses the levels of the appenders: \<open>ToStr\<close> writes
  them but \<open>FromStr\<close> never reads the key, so every appender comes back with \<open>UNKNOW\<close>. Nothing
  is reported on the console. (Assumed: yaml-cpp reads back the document that it printed.)
\<close>

theorem define_roundtrip_loses_levels:
  assumes "yaml_lib_ok lib" and "list_all appender_define_ok (ld_appenders d)"
    and "yl_load lib (yl_emit lib (LogDefine_node d)) = Inr (LogDefine_node d)"
  shows "LogDefine_from lib (LogDefine_to lib d) =
    ([], Inr (d\<lparr>ld_appenders := map (\<lambda>a. a\<lparr>ad_level := UNKNOW\<rparr>) (ld_appenders d)\<rparr>))"
  using define_reads_back [of lib d] assms by (simp add: define_ok_def document_ok_def drop_levels_def)

theorem define_roundtrip_loses_levels_witness:
  "LogDefine_from demo_lib (LogDefine_to demo_lib demo_define) =
     ([], Inr (demo_define\<lparr>ld_appenders := map (\<lambda>a. a\<lparr>ad_level := UNKNOW\<rparr>) (ld_appenders demo_define)\<rparr>)) \<and>
   map ad_level (ld_appenders demo_define) = [WARN, UNKNOW]"
  using define_roundtrip_loses_levels [OF demo_lib_ok, of demo_define]
  by (simp add: demo_define_def appender_define_ok_def demo_lib_def)

section \<open>The value of the variable logs\<close>

lemma set_insert_set: "set (set_insert lt x s) \<subseteq> insert x (set s)"
  by (induction lt x s rule: set_insert.induct) auto

lemma set_insert_sorted: "transp lt \<Longrightarrow> sorted_wrt lt s \<Longrightarrow> sorted_wrt lt (set_insert lt x s)"
proof (induction lt x s rule: set_insert.induct)
  case (2 lt x y ys)
  then show ?case using set_insert_set [of lt x ys] by (auto dest: transpD)
qed simp

text \<open>
  What the loop of a conversion gives: a container that only insertions of converted elements have
  built keeps every property that they keep.
\<close>

lemma from_each_invariant:
  assumes "\<And>s out x c. from s = (out, Inr x) \<Longrightarrow> P c \<Longrightarrow> P (ins x c)"
  shows "from_each lib from ins ns c = (out, Inr d) \<Longrightarrow> P c \<Longrightarrow> P d"
proof (induction ns arbitrary: c out)
  case (Cons n ns)
  then obtain o1 x o2 where x: "from (yl_emit lib n) = (o1, Inr x)"
    "from_each lib from ins ns (ins x c) = (o2, Inr d)"
    by (auto simp: bind_parse_def split: prod.splits sum.splits)
  from Cons.IH [OF x(2)] assms [OF x(1) Cons.prems(2)] show ?case .
qed simp

definition types_ok :: "log_define \<Rightarrow> bool" where
  "types_ok d \<longleftrightarrow> (\<forall>a \<in> set (ld_appenders d). ad_type a = 1 \<or> ad_type a = 2)"

lemma bind_parse_Inr:
  "bind_parse p f = (out, Inr y) \<longleftrightarrow> (\<exists>o1 x o2. p = (o1, Inr x) \<and> f x = (o2, Inr y) \<and> out = o1 @ o2)"
  by (auto simp: bind_parse_def split: prod.splits sum.splits)

lemma appender_from_type: "appender_from lib a = (out, Inr (Some d)) \<Longrightarrow> ad_type d = 1 \<or> ad_type d = 2"
  by (auto simp: appender_from_def bind_parse_Inr split: option.splits if_splits)

lemma appenders_from_types:
  "appenders_from lib as = (out, Inr ds) \<Longrightarrow> \<forall>a \<in> set ds. ad_type a = 1 \<or> ad_type a = 2"
proof (induction as arbitrary: out ds)
  case (Cons n ns)
  then show ?case using appender_from_type [of lib n] by (fastforce simp: bind_parse_Inr split: option.splits)
qed simp

lemma LogDefine_from_types: "LogDefine_from lib v = (out, Inr d) \<Longrightarrow> types_ok d"
  by (auto simp: LogDefine_from_def bind_parse_Inr types_ok_def split: option.splits dest!: appenders_from_types)
     blast

lemma sorted_names: "sorted_wrt LogDefine_less ds \<longleftrightarrow> sorted_wrt (<) (map ld_name ds)"
  by (simp add: sorted_wrt_map LogDefine_less_def [abs_def])

lemma logs_value:
  assumes "vt_from (log_defines_type lib tn) text = Inr ds"
  shows "distinct (map ld_name ds)" and "sorted_wrt (<) (map ld_name ds)" and "\<forall>d \<in> set ds. types_ok d"
proof -
  obtain out where "set_from lib LogDefine_less (LogDefine_from lib) text = (out, Inr ds)"
    using assms by (cases "set_from lib LogDefine_less (LogDefine_from lib) text") (simp add: log_defines_type_def)
  then obtain ns o1 where ns: "from_each lib (LogDefine_from lib) (set_insert LogDefine_less) ns [] = (o1, Inr ds)"
    by (auto simp: set_from_def bind_parse_Inr)
  have tr: "transp LogDefine_less" by (rule transpI) (auto simp: LogDefine_less_def)
  have "sorted_wrt LogDefine_less ds"
    by (rule from_each_invariant [OF _ ns, of "sorted_wrt LogDefine_less"]) (simp_all add: set_insert_sorted tr)
  then show "sorted_wrt (<) (map ld_name ds)" by (simp add: sorted_names)
  then show "distinct (map ld_name ds)" by (simp add: strict_sorted_iff)
  have "\<forall>d \<in> set c. types_ok d \<Longrightarrow> LogDefine_from lib s = (o1, Inr x) \<Longrightarrow>
      \<forall>d \<in> set (set_insert LogDefine_less x c). types_ok d" for s o1 x c
    using set_insert_set [of LogDefine_less x c] LogDefine_from_types [of lib s o1 x] by auto
  then show "\<forall>d \<in> set ds. types_ok d"
    by (intro from_each_invariant [OF _ ns, of "\<lambda>c. \<forall>d \<in> set c. types_ok d"]) auto
qed

text \<open>
  C38: Whatever text is given for the variable \<open>logs\<close>, when it converts at all its value is a
  proper set of definitions: the names are strictly ascending, so no logger is defined twice, and
  every appender is of one of the two types that the listener knows.
\<close>

theorem logs_value_type:
  assumes "vt_from (log_defines_type lib tn) text = Inr ds"
  shows "sorted_wrt (<) (map ld_name ds) \<and> (\<forall>d \<in> set ds. types_ok d)"
  using logs_value [OF assms] by simp

definition logs_lib :: yaml_lib where
  "logs_lib = demo_lib
     \<lparr>yl_load := (\<lambda>s. if s = ''- x'' then Inr (YSeq [LogDefine_node demo_define]) else yl_load demo_lib s),
      yl_emit := (\<lambda>n. if n = YSeq [LogDefine_node demo_define] then ''- x'' else yl_emit demo_lib n)\<rparr>"

lemma logs_lib_ok: "yaml_lib_ok logs_lib"
  using demo_lib_ok by (simp add: yaml_lib_ok_def logs_lib_def)

lemma logs_lib_define: "define_ok logs_lib demo_define" "document_ok logs_lib (YSeq [LogDefine_node demo_define])"
proof -
  have ne: "LogDefine_node demo_define \<noteq> YSeq [LogDefine_node demo_define]"
    by (simp add: LogDefine_node_def build_map_def)
  then show "define_ok logs_lib demo_define"
    using logs_lib_ok
    by (simp add: define_ok_def demo_define_def appender_define_ok_def document_ok_def logs_lib_def)
       (simp add: demo_lib_def demo_define_def)
  show "document_ok logs_lib (YSeq [LogDefine_node demo_define])"
    by (simp add: document_ok_def logs_lib_def)
qed

lemma logs_lib_text:
  "set_to logs_lib (\<lambda>i. Inr (LogDefine_to logs_lib i)) [demo_define] = Inr ''- x''"
proof -
  have "yl_load logs_lib (LogDefine_to logs_lib demo_define) = Inr (LogDefine_node demo_define)"
    using logs_lib_define(1) by (simp add: define_ok_def document_ok_def LogDefine_to_def)
  then show ?thesis by (simp add: set_to_def push_back_def) (simp add: logs_lib_def)
qed

text \<open>The text of a set of definitions is read as that set without the levels of the appenders.\<close>

lemma logs_text_value:
  assumes "sorted_wrt (<) (map ld_name v)" and "\<forall>d \<in> set v. define_ok lib d" and "yaml_lib_ok lib"
    and "\<And>ns. to_each lib (\<lambda>i. Inr (LogDefine_to lib i)) v [] = Inr ns \<Longrightarrow> document_ok lib (YSeq ns)"
  obtains doc where "vt_to (log_defines_type lib tn) v = Inr doc"
    and "vt_from (log_defines_type lib tn) doc = Inr (map drop_levels v)"
proof -
  let ?d = "map drop_levels v"
  have "ld_name \<circ> drop_levels = ld_name" by (auto simp: drop_levels_def)
  then have sorted: "sorted_wrt LogDefine_less ?d" using assms(1) by (simp add: sorted_names)
  have ok: "list_all (define_ok lib) v" using assms(2) by (simp add: list_all_iff)
  obtain ns where ns: "to_each lib (\<lambda>i. Inr (LogDefine_to lib i)) v [] = Inr ns" "document_ok lib (YSeq ns)"
    "from_each lib (LogDefine_from lib) (set_insert LogDefine_less) ns [] = ([], Inr ?d)"
    using logs_cast.sequence_roundtrip [OF sorted refl ok assms(4)] by auto
  have "yl_items lib (YSeq ns) = Inr ns" using assms(3) by (simp add: yaml_lib_ok_def)
  with ns show thesis
    by (intro that [of "yl_emit lib (YSeq ns)"])
      (simp_all add: log_defines_type_def set_to_def set_from_def lift_parse_def document_ok_def)
qed

lemma logs_eq_headers: "set_eq LogDefine_eq new old \<longleftrightarrow> list_all2 same_header new old"
proof -
  have "LogDefine_eq = same_header" by (intro ext) (auto simp: LogDefine_eq_iff same_header_def)
  then show ?thesis by (auto simp: set_eq_def dest: list_all2_lengthD)
qed

lemma logs_lib_value: "vt_from (log_defines_type logs_lib tn) ''- x'' = Inr [drop_levels demo_define]"
proof -
  have load: "yl_load logs_lib (LogDefine_to logs_lib demo_define) = Inr (LogDefine_node demo_define)"
    using logs_lib_define(1) by (simp add: define_ok_def document_ok_def LogDefine_to_def)
  obtain doc where "vt_to (log_defines_type logs_lib tn) [demo_define] = Inr doc"
    "vt_from (log_defines_type logs_lib tn) doc = Inr (map drop_levels [demo_define])"
    by (rule logs_text_value [of "[demo_define]" logs_lib tn]) (use load logs_lib_define logs_lib_ok in \<open>simp_all add: push_back_def\<close>)
  then show ?thesis by (simp add: log_defines_type_def logs_lib_text)
qed

text \<open>
  C33: The value of the variable \<open>logs\<close> is turned into text by \<open>toString\<close> without a message, and
  \<open>fromString\<close> of any such variable accepts that text without a message. It is read as the same
  set of definitions except for the levels of the appenders, which the conversion does not read.
  That set is stored, unless the variable that reads it (the same one, say) has a value with the same
  names, levels and formatters already: then, as \<open>operator==\<close> does not look at the appenders,
  nothing is stored and the variable stays as it is. (Assumed: a set has ascending names, its
  appenders are of the two types and only those that write to files have one, yaml-cpp reads back the
  documents it printed; the variables have no listener.)
\<close>

theorem logs_text_roundtrip:
  assumes "cv_type cv = log_defines_type lib tn" and "cv_cbs cv = []" and "cv_type cv2 = log_defines_type lib tn"
    and "cv_cbs cv2 = []" and "sorted_wrt (<) (map ld_name (cv_val cv))" and "\<forall>d \<in> set (cv_val cv). define_ok lib d"
    and "yaml_lib_ok lib"
    and "\<And>ns. to_each lib (\<lambda>i. Inr (LogDefine_to lib i)) (cv_val cv) [] = Inr ns \<Longrightarrow> document_ok lib (YSeq ns)"
  shows "snd (ConfigVar_toString cv) = [] \<and>
    ConfigVar_fromString (fst (ConfigVar_toString cv)) cv2 w =
      (True, if list_all2 same_header (cv_val cv) (cv_val cv2) then cv2
             else cv2\<lparr>cv_val := map drop_levels (cv_val cv)\<rparr>, w, [])"
proof -
  obtain doc where doc: "vt_to (cv_type cv) (cv_val cv) = Inr doc" "vt_from (cv_type cv2) doc = Inr (map drop_levels (cv_val cv))"
    using logs_text_value [OF assms(5-8), of tn] assms(1,3) by metis
  have "same_header (drop_levels d) e \<longleftrightarrow> same_header d e" for d e by (simp add: same_header_def drop_levels_def)
  then have "vt_eq (cv_type cv2) (map drop_levels (cv_val cv)) (cv_val cv2) \<longleftrightarrow>
      list_all2 same_header (cv_val cv) (cv_val cv2)"
    using assms(3) by (simp add: log_defines_type_def logs_eq_headers list_all2_map1)
  with doc show ?thesis
    using assms(4)
    by (simp add: ConfigVar_toString_def ConfigVar_fromString_def ConfigVar_setValue_def setValue_notify_def
        setValue_store_def)
qed

definition logs_var :: "log_define std_set \<Rightarrow> (log_define std_set, unit) config_var" where
  "logs_var v = ConfigVar (log_defines_type logs_lib ''set'') ''logs'' v ''logs config''"

theorem logs_text_roundtrip_witness:
  "ConfigVar_fromString (fst (ConfigVar_toString (logs_var [demo_define]))) (logs_var []) () =
     (True, (logs_var [])\<lparr>cv_val := [drop_levels demo_define]\<rparr>, (), []) \<and>
   ConfigVar_fromString (fst (ConfigVar_toString (logs_var [demo_define]))) (logs_var [demo_define]) () =
     (True, logs_var [demo_define], (), [])"
proof -
  have load: "yl_load logs_lib (LogDefine_to logs_lib demo_define) = Inr (LogDefine_node demo_define)"
    using logs_lib_define(1) by (simp add: define_ok_def document_ok_def LogDefine_to_def)
  have v: "cv_type (logs_var v) = log_defines_type logs_lib ''set''" "cv_cbs (logs_var v) = []"
    "cv_val (logs_var v) = v" for v
    by (simp_all add: logs_var_def ConfigVar_def)
  note rt = logs_text_roundtrip [OF v(1,2) v(1,2), of "[demo_define]"]
  show ?thesis
    using rt [of "[]" "()"] rt [of "[demo_define]" "()"] load logs_lib_ok logs_lib_define
    by (simp add: v push_back_def same_header_def)
qed

theorem logs_value_type_witness:
  "\<exists>ds. vt_from (log_defines_type logs_lib ''set'') ''- x'' = Inr ds \<and> sorted_wrt (<) (map ld_name ds)"
proof -
  have "snd (LogDefine_from logs_lib (LogDefine_to logs_lib demo_define)) = Inr (drop_levels demo_define)"
    using define_reads_back [OF logs_lib_define(1)] by simp
  moreover have "yl_items logs_lib (YSeq ns) = Inr ns" for ns using logs_lib_ok by (simp add: yaml_lib_ok_def)
  ultimately have "vt_from (log_defines_type logs_lib ''set'') ''- x'' = Inr [drop_levels demo_define]"
    using define_reads_back [OF logs_lib_define(1)]
    by (simp add: log_defines_type_def set_from_def lift_parse_def LogDefine_to_def logs_lib_def)
  with logs_value_type [OF this] show ?thesis by blast
qed

end
