(* ===== verification/Log_Conf_Listener.thy ===== *)
theory Log_Conf_Listener
  imports Log_Conf_Facts
begin

text \<open>
  The listener of the variable \<open>logs\<close> on the store of the loggers: every step keeps the store
  well-formed and touches one logger only; afterwards each new or changed definition is what
  its logger does, and the loggers of removed definitions are reset.
\<close>

section \<open>What a step on one logger leaves alone\<close>

text \<open>What a definition says of an appender, and what the appender has.\<close>

type_synonym appender_key = "log_level \<times> bool \<times> log_formatter option \<times> string option"

definition ap_key :: "log_appender \<Rightarrow> appender_key" where
  "ap_key ap = (ap_level ap, ap_hasFormatter ap, ap_formatter ap,
     case ap_impl ap of StdoutAppender \<Rightarrow> None | FileAppender fa \<Rightarrow> Some (fa_filename fa))"

text \<open>The formatter of a text, if it is a valid one; \<open>lf\<close> is the formatter of the logger.\<close>

definition valid_formatter :: "string \<Rightarrow> log_formatter option" where
  "valid_formatter t =
     (if t \<noteq> [] \<and> \<not> fm_error (fst (LogFormatter t)) then Some (fst (LogFormatter t)) else None)"

definition define_key :: "log_formatter option \<Rightarrow> log_appender_define \<Rightarrow> appender_key" where
  "define_key lf d = (ad_level d, valid_formatter (ad_formatter d) \<noteq> None,
     (case valid_formatter (ad_formatter d) of None \<Rightarrow> lf | Some f \<Rightarrow> Some f),
     if ad_type d = 1 then Some (ad_file d) else None)"

text \<open>
  A step on the logger \<open>a\<close>: the other loggers stay; the appenders that are not its own stay, and
  it gets new ones only.
\<close>

definition only_logger :: "nat \<Rightarrow> log_store \<Rightarrow> log_store \<Rightarrow> bool" where
  "only_logger a s s' \<longleftrightarrow> st_mgr_loggers s' = st_mgr_loggers s \<and>
     length (st_loggers s') = length (st_loggers s) \<and>
     (\<forall>b. b \<noteq> a \<longrightarrow> st_loggers s' ! b = st_loggers s ! b) \<and>
     length (st_appenders s) \<le> length (st_appenders s') \<and>
     (\<forall>i < length (st_appenders s). i \<notin> set (lg_appenders (st_loggers s ! a)) \<longrightarrow>
        ap_key (st_appenders s' ! i) = ap_key (st_appenders s ! i)) \<and>
     (\<forall>i \<in> set (lg_appenders (st_loggers s' ! a)).
        i \<in> set (lg_appenders (st_loggers s ! a)) \<or> length (st_appenders s) \<le> i)"

definition keeps_keys :: "log_store \<Rightarrow> log_store \<Rightarrow> bool" where
  "keeps_keys s s' \<longleftrightarrow> length (st_appenders s) \<le> length (st_appenders s') \<and>
     (\<forall>i < length (st_appenders s). ap_key (st_appenders s' ! i) = ap_key (st_appenders s ! i))"

lemma only_logger_refl: "only_logger a s s"
  by (simp add: only_logger_def)

lemma only_logger_trans: "only_logger a s s1 \<Longrightarrow> only_logger a s1 s2 \<Longrightarrow> only_logger a s s2"
  unfolding only_logger_def by (metis (no_types, lifting) not_le order_less_le_trans order_trans)

lemma only_logger_length: "only_logger a s s' \<Longrightarrow> a < length (st_loggers s) \<Longrightarrow> a < length (st_loggers s')"
  by (simp add: only_logger_def)

lemma keeps_keys_trans: "keeps_keys s s1 \<Longrightarrow> keeps_keys s1 s2 \<Longrightarrow> keeps_keys s s2"
  by (auto simp: keeps_keys_def)

lemma setLevel_step:
  assumes "store_ok s" and a: "a < length (st_loggers s)"
  shows "\<exists>s'. Logger_setLevel a l s = Inr s' \<and> store_ok s' \<and> only_logger a s s' \<and>
    lg_level (st_loggers s' ! a) = l \<and> lg_formatter (st_loggers s' ! a) = lg_formatter (st_loggers s ! a)"
  using setLevel_ok [OF assms, of l] a
  by (auto simp: Logger_setLevel_def update_logger_def only_logger_def)

lemma clearAppenders_step:
  assumes "store_ok s" and a: "a < length (st_loggers s)"
  shows "\<exists>s'. Logger_clearAppenders a s = Inr s' \<and> store_ok s' \<and> only_logger a s s' \<and>
    lg_level (st_loggers s' ! a) = lg_level (st_loggers s ! a) \<and>
    lg_formatter (st_loggers s' ! a) = lg_formatter (st_loggers s ! a) \<and> lg_appenders (st_loggers s' ! a) = []"
  using clearAppenders_ok [OF assms] a
  by (auto simp: Logger_clearAppenders_def update_logger_def only_logger_def)

lemma setFormatter_step:
  assumes "Logger_setFormatter a (Some f) s = Inr s'" and a: "a < length (st_loggers s)"
  shows "only_logger a s s' \<and> lg_level (st_loggers s' ! a) = lg_level (st_loggers s ! a) \<and>
    lg_formatter (st_loggers s' ! a) = Some f"
proof -
  let ?s1 = "update_logger a (\<lambda>lg. lg\<lparr>lg_formatter := Some f\<rparr>) s"
  have s': "s' = ?s1\<lparr>st_appenders := foldl (inherit_formatter (Some f)) (st_appenders ?s1) (lg_appenders (st_loggers ?s1 ! a))\<rparr>"
    using assms by (simp add: Logger_setFormatter_def Let_def)
  have "st_appenders s' ! i = st_appenders s ! i"
    if "i < length (st_appenders s)" "i \<notin> set (lg_appenders (st_loggers s ! a))" for i
    using that a by (simp add: s' update_logger_def foldl_inherit_nth)
  then show ?thesis using a by (auto simp: s' update_logger_def only_logger_def)
qed

lemma print_only: "only_logger a s (print t s)" "st_loggers (print t s) = st_loggers s"
  by (simp_all add: only_logger_def print_def)

lemma setFormatter_str_step:
  assumes "store_ok s" and a: "a < length (st_loggers s)"
  shows "\<exists>s'. Logger_setFormatter_str a val s = Inr s' \<and> store_ok s' \<and> only_logger a s s' \<and>
    lg_level (st_loggers s' ! a) = lg_level (st_loggers s ! a) \<and>
    (\<not> fm_error (fst (LogFormatter val)) \<longrightarrow> lg_formatter (st_loggers s' ! a) = Some (fst (LogFormatter val)))"
proof -
  obtain s' where s': "Logger_setFormatter_str a val s = Inr s'" "store_ok s'"
    using setFormatter_str_ok [OF assms] by blast
  obtain f out where f: "LogFormatter val = (f, out)" by force
  let ?s1 = "print (''---'' @ val @ [newline] @ out) s"
  have "only_logger a s s' \<and> lg_level (st_loggers s' ! a) = lg_level (st_loggers s ! a) \<and>
      (\<not> fm_error f \<longrightarrow> lg_formatter (st_loggers s' ! a) = Some f)"
  proof (cases "fm_error f")
    case True
    then have "s' = print (''Logger setFormatter name='' @ lg_name (st_loggers s ! a) @
        '' value='' @ val @ '' invalid formatter'' @ [newline]) ?s1"
      using s'(1) a by (simp add: Logger_setFormatter_str_def f Let_def)
    then show ?thesis
      using only_logger_trans [OF print_only(1) print_only(1)] True by (simp add: print_only(2))
  next
    case False
    then have "Logger_setFormatter a (Some f) ?s1 = Inr s'"
      using s'(1) a by (simp add: Logger_setFormatter_str_def f Let_def)
    moreover have "a < length (st_loggers ?s1)" using a by (simp add: print_only)
    ultimately have "only_logger a ?s1 s' \<and> lg_level (st_loggers s' ! a) = lg_level (st_loggers ?s1 ! a) \<and>
        lg_formatter (st_loggers s' ! a) = Some f"
      by (rule setFormatter_step)
    then show ?thesis by (auto simp: print_only(2) intro: only_logger_trans [OF print_only(1)])
  qed
  with s' f show ?thesis by auto
qed

section \<open>Appenders\<close>

lemma addAppender_step:
  assumes "store_ok s" and a: "a < length (st_loggers s)" and i: "i < length (st_appenders s)"
  shows "\<exists>s'. Logger_addAppender a i s = Inr s' \<and> store_ok s' \<and>
    st_mgr_loggers s' = st_mgr_loggers s \<and> length (st_loggers s') = length (st_loggers s) \<and>
    (\<forall>b. b \<noteq> a \<longrightarrow> st_loggers s' ! b = st_loggers s ! b) \<and>
    length (st_appenders s') = length (st_appenders s) \<and>
    (\<forall>j. j \<noteq> i \<longrightarrow> st_appenders s' ! j = st_appenders s ! j) \<and>
    st_appenders s' ! i = (if ap_formatter (st_appenders s ! i) = None
      then (st_appenders s ! i)\<lparr>ap_formatter := lg_formatter (st_loggers s ! a)\<rparr> else st_appenders s ! i) \<and>
    lg_level (st_loggers s' ! a) = lg_level (st_loggers s ! a) \<and>
    lg_formatter (st_loggers s' ! a) = lg_formatter (st_loggers s ! a) \<and>
    lg_appenders (st_loggers s' ! a) = lg_appenders (st_loggers s ! a) @ [i]"
proof -
  obtain s' where s': "Logger_addAppender a i s = Inr s'" "store_ok s'"
    using addAppender_ok [OF assms] by blast
  then show ?thesis using a i
    by (cases "LogAppender_getFormatter (st_appenders s ! i) = None")
       (auto simp: Logger_addAppender_def Let_def update_logger_def update_appender_def LogAppender_getFormatter_def
          split: if_splits)
qed

lemma FileLogAppender_key: "FileLogAppender f w = (ap, w') \<Longrightarrow> ap_key ap = (DEBUG, False, None, Some f)"
  by (auto simp: FileLogAppender_def FileLogAppender_reopen_def Let_def ap_key_def split: prod.splits)

definition same_objects :: "log_store \<Rightarrow> log_store \<Rightarrow> bool" where
  "same_objects s s' \<longleftrightarrow> st_appenders s' = st_appenders s \<and> st_loggers s' = st_loggers s \<and>
     st_mgr_loggers s' = st_mgr_loggers s \<and> st_mgr_root s' = st_mgr_root s"

lemma make_appender_key:
  assumes "ad_type d = 1 \<or> ad_type d = 2"
  shows "\<exists>ap s'. make_appender d s = Inr (ap, s') \<and> same_objects s s' \<and>
    ap_key ap = (DEBUG, False, None, if ad_type d = 1 then Some (ad_file d) else None)"
proof (cases "ad_type d = 1")
  case True
  obtain ap w where "FileLogAppender (ad_file d) (st_world s) = (ap, w)" by force
  with True FileLogAppender_key [OF this] show ?thesis by (simp add: make_appender_def same_objects_def)
next
  case False
  with assms show ?thesis
    by (simp add: make_appender_def same_objects_def ap_key_def StdoutLogAppender_def)
qed

lemma format_appender_key:
  assumes "format_appender name d ap s = (ap', s')"
  shows "same_objects s s'"
    and "ap_key ap = (l, False, None, k) \<Longrightarrow>
      ap_key ap' = (l, valid_formatter (ad_formatter d) \<noteq> None, valid_formatter (ad_formatter d), k)"
  using assms
  by (auto simp: format_appender_def same_objects_def print_def ap_key_def LogAppender_setFormatter_def
      valid_formatter_def split: if_splits prod.splits)

text \<open>A constructed and configured appender, before it is stored.\<close>

lemma conf_appender_step:
  assumes ok: "store_ok s" and a: "a < length (st_loggers s)" and t: "ad_type d = 1 \<or> ad_type d = 2"
  shows "\<exists>s'. conf_appender name a d s = Inr s' \<and> store_ok s' \<and> only_logger a s s' \<and> keeps_keys s s' \<and>
    lg_level (st_loggers s' ! a) = lg_level (st_loggers s ! a) \<and>
    lg_formatter (st_loggers s' ! a) = lg_formatter (st_loggers s ! a) \<and>
    lg_appenders (st_loggers s' ! a) = lg_appenders (st_loggers s ! a) @ [length (st_appenders s)] \<and>
    length (st_appenders s) < length (st_appenders s') \<and>
    ap_key (st_appenders s' ! length (st_appenders s)) = define_key (lg_formatter (st_loggers s ! a)) d"
proof -
  obtain ap s1 where 1: "make_appender d s = Inr (ap, s1)" "same_objects s s1"
    "ap_key ap = (DEBUG, False, None, if ad_type d = 1 then Some (ad_file d) else None)"
    using make_appender_key [OF t, of s] by blast
  obtain ap2 s2 where 2: "format_appender name d (LogAppender_setLevel (ad_level d) ap) s1 = (ap2, s2)" by force
  have "ap_key (LogAppender_setLevel (ad_level d) ap) =
      (ad_level d, False, None, if ad_type d = 1 then Some (ad_file d) else None)"
    using 1(3) by (auto simp: ap_key_def LogAppender_setLevel_def)
  note ap2 = format_appender_key(2) [OF 2 this]
  have s2: "st_appenders s2 = st_appenders s" "st_loggers s2 = st_loggers s"
    "st_mgr_loggers s2 = st_mgr_loggers s" "st_mgr_root s2 = st_mgr_root s"
    using 1(2) format_appender_key(1) [OF 2] by (simp_all add: same_objects_def)
  let ?s3 = "s2\<lparr>st_appenders := st_appenders s2 @ [ap2]\<rparr>"
  let ?i = "length (st_appenders s)"
  have ok3: "store_ok ?s3" by (rule store_ok_frame [OF ok]) (simp_all add: s2 nth_append)
  have run: "conf_appender name a d s = Logger_addAppender a ?i ?s3"
    using 1(1) 2 s2 by (simp add: conf_appender_def alloc_appender_def)
  obtain s' where s': "Logger_addAppender a ?i ?s3 = Inr s'" "store_ok s'"
    "st_mgr_loggers s' = st_mgr_loggers ?s3" "length (st_loggers s') = length (st_loggers ?s3)"
    "\<forall>b. b \<noteq> a \<longrightarrow> st_loggers s' ! b = st_loggers ?s3 ! b" "length (st_appenders s') = length (st_appenders ?s3)"
    "\<forall>j. j \<noteq> ?i \<longrightarrow> st_appenders s' ! j = st_appenders ?s3 ! j"
    "st_appenders s' ! ?i = (if ap_formatter (st_appenders ?s3 ! ?i) = None
      then (st_appenders ?s3 ! ?i)\<lparr>ap_formatter := lg_formatter (st_loggers ?s3 ! a)\<rparr> else st_appenders ?s3 ! ?i)"
    "lg_level (st_loggers s' ! a) = lg_level (st_loggers ?s3 ! a)"
    "lg_formatter (st_loggers s' ! a) = lg_formatter (st_loggers ?s3 ! a)"
    "lg_appenders (st_loggers s' ! a) = lg_appenders (st_loggers ?s3 ! a) @ [?i]"
    using addAppender_step [OF ok3, of a ?i] a by (auto simp: s2)
  have "st_appenders s' ! j = st_appenders s ! j" if "j < ?i" for j using s'(7) that by (simp add: s2 nth_append)
  then have keep: "keeps_keys s s'" and only: "only_logger a s s'"
    using s'(3-6,11) by (auto simp: keeps_keys_def only_logger_def s2)
  have "ap_key (st_appenders s' ! ?i) = define_key (lg_formatter (st_loggers s ! a)) d"
    using s'(8) ap2 by (auto simp: s2 ap_key_def define_key_def split: if_splits)
  with run s' keep only show ?thesis by (simp add: s2)
qed

definition appenders_match :: "log_store \<Rightarrow> log_formatter option \<Rightarrow> nat list \<Rightarrow> log_appender_define list \<Rightarrow> bool" where
  "appenders_match s lf is ds \<longleftrightarrow>
     list_all2 (\<lambda>i d. i < length (st_appenders s) \<and> ap_key (st_appenders s ! i) = define_key lf d) is ds"

lemma appenders_match_valid: "appenders_match s lf is ds \<Longrightarrow> i \<in> set is \<Longrightarrow> i < length (st_appenders s)"
  by (auto simp: appenders_match_def list_all2_conv_all_nth in_set_conv_nth)

lemma appenders_match_mono:
  assumes "appenders_match s lf is ds" and "length (st_appenders s) \<le> length (st_appenders s')"
    and "\<forall>i \<in> set is. ap_key (st_appenders s' ! i) = ap_key (st_appenders s ! i)"
  shows "appenders_match s' lf is ds"
  using assms by (fastforce simp: appenders_match_def list_all2_conv_all_nth)

lemma conf_appenders_step:
  assumes "store_ok s" and "a < length (st_loggers s)" and "\<forall>d \<in> set ds. ad_type d = 1 \<or> ad_type d = 2"
  shows "\<exists>s' is. conf_appenders name a ds s = Inr s' \<and> store_ok s' \<and> only_logger a s s' \<and> keeps_keys s s' \<and>
    lg_level (st_loggers s' ! a) = lg_level (st_loggers s ! a) \<and>
    lg_formatter (st_loggers s' ! a) = lg_formatter (st_loggers s ! a) \<and>
    lg_appenders (st_loggers s' ! a) = lg_appenders (st_loggers s ! a) @ is \<and>
    (\<forall>i \<in> set is. length (st_appenders s) \<le> i) \<and> appenders_match s' (lg_formatter (st_loggers s ! a)) is ds"
  using assms
proof (induction ds arbitrary: s)
  case Nil
  then show ?case
    by (intro exI [of _ s] exI [of _ "[]"]) (simp add: only_logger_refl appenders_match_def keeps_keys_def)
next
  case (Cons d ds)
  let ?i = "length (st_appenders s)"
  obtain s1 where 1: "conf_appender name a d s = Inr s1" "store_ok s1" "only_logger a s s1" "keeps_keys s s1"
    "lg_level (st_loggers s1 ! a) = lg_level (st_loggers s ! a)"
    "lg_formatter (st_loggers s1 ! a) = lg_formatter (st_loggers s ! a)"
    "lg_appenders (st_loggers s1 ! a) = lg_appenders (st_loggers s ! a) @ [?i]"
    "?i < length (st_appenders s1)" "ap_key (st_appenders s1 ! ?i) = define_key (lg_formatter (st_loggers s ! a)) d"
    using conf_appender_step [OF Cons.prems(1,2), of d name] Cons.prems(3) by auto
  obtain s' is' where 2: "conf_appenders name a ds s1 = Inr s'" "store_ok s'" "only_logger a s1 s'" "keeps_keys s1 s'"
    "lg_level (st_loggers s' ! a) = lg_level (st_loggers s1 ! a)"
    "lg_formatter (st_loggers s' ! a) = lg_formatter (st_loggers s1 ! a)"
    "lg_appenders (st_loggers s' ! a) = lg_appenders (st_loggers s1 ! a) @ is'"
    "\<forall>i \<in> set is'. length (st_appenders s1) \<le> i" "appenders_match s' (lg_formatter (st_loggers s1 ! a)) is' ds"
    using Cons.IH [OF 1(2) only_logger_length [OF 1(3) Cons.prems(2)]] Cons.prems(3) by auto
  have "appenders_match s' (lg_formatter (st_loggers s ! a)) (?i # is') (d # ds)"
    using 1(6,8,9) 2(4,9) by (auto simp: appenders_match_def keeps_keys_def)
  with 1 2 only_logger_trans [OF 1(3) 2(3)] keeps_keys_trans [OF 1(4) 2(4)] show ?case
    by (intro exI [of _ s'] exI [of _ "?i # is'"]) auto
qed

section \<open>Loggers by name\<close>

text \<open>
  The store holds what a definition asks for: the level, the formatter when it is a valid one, and
  the appenders, in order and its own; each has the level, the file and the formatter of its
  definition, or the formatter of the logger. Or it holds what a removed definition leaves.
\<close>

definition private_appenders :: "log_store \<Rightarrow> nat \<Rightarrow> bool" where
  "private_appenders s a \<longleftrightarrow> (\<forall>b < length (st_loggers s). b \<noteq> a \<longrightarrow>
     set (lg_appenders (st_loggers s ! b)) \<inter> set (lg_appenders (st_loggers s ! a)) = {})"

definition configured :: "log_store \<Rightarrow> log_define \<Rightarrow> bool" where
  "configured s d \<longleftrightarrow> (\<exists>a. map_find (st_mgr_loggers s) (ld_name d) = Some a \<and>
     lg_level (st_loggers s ! a) = ld_level d \<and>
     (valid_formatter (ld_formatter d) \<noteq> None \<longrightarrow> lg_formatter (st_loggers s ! a) = valid_formatter (ld_formatter d)) \<and>
     private_appenders s a \<and>
     appenders_match s (lg_formatter (st_loggers s ! a)) (lg_appenders (st_loggers s ! a)) (ld_appenders d))"

definition deconfigured :: "log_store \<Rightarrow> log_define \<Rightarrow> bool" where
  "deconfigured s d \<longleftrightarrow> (\<exists>a. map_find (st_mgr_loggers s) (ld_name d) = Some a \<and>
     lg_level (st_loggers s ! a) = UNKNOW \<and> lg_appenders (st_loggers s ! a) = [])"

text \<open>A step on the logger of a name, which may be created by it.\<close>

definition own_appenders :: "log_store \<Rightarrow> nat \<Rightarrow> nat set" where
  "own_appenders s a = (if a < length (st_loggers s) then set (lg_appenders (st_loggers s ! a)) else {})"

definition only_name :: "string \<Rightarrow> log_store \<Rightarrow> log_store \<Rightarrow> bool" where
  "only_name name s s' \<longleftrightarrow> (\<exists>a. map_find (st_mgr_loggers s') name = Some a \<and>
     (\<forall>n b. n \<noteq> name \<and> map_find (st_mgr_loggers s) n = Some b \<longrightarrow> map_find (st_mgr_loggers s') n = Some b) \<and>
     (\<forall>b < length (st_loggers s). b \<noteq> a \<longrightarrow> st_loggers s' ! b = st_loggers s ! b) \<and>
     (\<forall>b < length (st_loggers s'). b \<noteq> a \<longrightarrow> b < length (st_loggers s)) \<and>
     length (st_appenders s) \<le> length (st_appenders s') \<and>
     (\<forall>i < length (st_appenders s). i \<notin> own_appenders s a \<longrightarrow>
        ap_key (st_appenders s' ! i) = ap_key (st_appenders s ! i)) \<and>
     (\<forall>i \<in> set (lg_appenders (st_loggers s' ! a)). i \<in> own_appenders s a \<or> length (st_appenders s) \<le> i))"

lemma configured_other:
  assumes only: "only_name name s s'" and ok: "store_ok s" "store_ok s'" and "ld_name d \<noteq> name" and "configured s d"
  shows "configured s' d"
proof -
  obtain a where a: "map_find (st_mgr_loggers s') name = Some a"
    "\<And>n b. n \<noteq> name \<Longrightarrow> map_find (st_mgr_loggers s) n = Some b \<Longrightarrow> map_find (st_mgr_loggers s') n = Some b"
    "\<And>b. b < length (st_loggers s) \<Longrightarrow> b \<noteq> a \<Longrightarrow> st_loggers s' ! b = st_loggers s ! b"
    "\<And>b. b < length (st_loggers s') \<Longrightarrow> b \<noteq> a \<Longrightarrow> b < length (st_loggers s)"
    "length (st_appenders s) \<le> length (st_appenders s')"
    "\<And>i. i < length (st_appenders s) \<Longrightarrow> i \<notin> own_appenders s a \<Longrightarrow>
       ap_key (st_appenders s' ! i) = ap_key (st_appenders s ! i)"
    "\<And>i. i \<in> set (lg_appenders (st_loggers s' ! a)) \<Longrightarrow> i \<in> own_appenders s a \<or> length (st_appenders s) \<le> i"
    using only unfolding only_name_def by blast
  obtain c where c: "map_find (st_mgr_loggers s) (ld_name d) = Some c" "lg_level (st_loggers s ! c) = ld_level d"
    "valid_formatter (ld_formatter d) \<noteq> None \<longrightarrow> lg_formatter (st_loggers s ! c) = valid_formatter (ld_formatter d)"
    "private_appenders s c"
    "appenders_match s (lg_formatter (st_loggers s ! c)) (lg_appenders (st_loggers s ! c)) (ld_appenders d)"
    using assms(5) by (auto simp: configured_def)
  have c': "map_find (st_mgr_loggers s') (ld_name d) = Some c" using a(2) [OF assms(4) c(1)] .
  have len: "c < length (st_loggers s)" using store_ok_mgr [OF ok(1)] c(1) by (simp add: mgr_ok_def)
  have ne: "c \<noteq> a" using store_ok_mgr [OF ok(2)] c' a(1) assms(4) by (metis mgr_ok_def)
  have same: "st_loggers s' ! c = st_loggers s ! c" using a(3) [OF len ne] .
  have mine: "i < length (st_appenders s) \<and> i \<notin> own_appenders s a" if "i \<in> set (lg_appenders (st_loggers s ! c))" for i
    using appenders_match_valid [OF c(5) that] c(4) that ne by (auto simp: private_appenders_def own_appenders_def)
  then have "appenders_match s' (lg_formatter (st_loggers s ! c)) (lg_appenders (st_loggers s ! c)) (ld_appenders d)"
    using appenders_match_mono [OF c(5) a(5)] a(6) by blast
  moreover have "private_appenders s' c"
    unfolding private_appenders_def same
  proof (intro allI impI)
    fix b assume b: "b < length (st_loggers s')" "b \<noteq> c"
    show "set (lg_appenders (st_loggers s' ! b)) \<inter> set (lg_appenders (st_loggers s ! c)) = {}"
    proof (cases "b = a")
      case True
      with a(7) mine show ?thesis by fastforce
    next
      case False
      with a(3) [OF a(4) [OF b(1)]] a(4) [OF b(1)] c(4) b(2) show ?thesis by (simp add: private_appenders_def)
    qed
  qed
  ultimately show ?thesis using c c' same by (auto simp: configured_def)
qed

lemma deconfigured_other:
  assumes only: "only_name name s s'" and ok: "store_ok s" "store_ok s'" and "ld_name d \<noteq> name" and "deconfigured s d"
  shows "deconfigured s' d"
proof -
  obtain a where a: "map_find (st_mgr_loggers s') name = Some a"
    "\<And>n b. n \<noteq> name \<Longrightarrow> map_find (st_mgr_loggers s) n = Some b \<Longrightarrow> map_find (st_mgr_loggers s') n = Some b"
    "\<And>b. b < length (st_loggers s) \<Longrightarrow> b \<noteq> a \<Longrightarrow> st_loggers s' ! b = st_loggers s ! b"
    using only unfolding only_name_def by blast
  obtain c where c: "map_find (st_mgr_loggers s) (ld_name d) = Some c"
    "lg_level (st_loggers s ! c) = UNKNOW" "lg_appenders (st_loggers s ! c) = []"
    using assms(5) by (auto simp: deconfigured_def)
  have c': "map_find (st_mgr_loggers s') (ld_name d) = Some c" using a(2) [OF assms(4) c(1)] .
  have "c < length (st_loggers s)" using store_ok_mgr [OF ok(1)] c(1) by (simp add: mgr_ok_def)
  moreover have "c \<noteq> a" using store_ok_mgr [OF ok(2)] c' a(1) assms(4) by (metis mgr_ok_def)
  ultimately show ?thesis using a(3) c c' by (auto simp: deconfigured_def)
qed

lemma getLogger_step:
  assumes ok: "store_ok s" and run: "LoggerManager_getLogger name s = (a, s')"
  shows "store_ok s'" "a < length (st_loggers s')" "map_find (st_mgr_loggers s') name = Some a"
    "only_name name s s'" "st_appenders s' = st_appenders s"
    "set (lg_appenders (st_loggers s' ! a)) \<subseteq> own_appenders s a"
proof -
  show ok': "store_ok s'" using getLogger_ok [OF ok, of name] run by simp
  have mgr: "mgr_ok s" using store_ok_mgr [OF ok] .
  then have sorted: "map_sorted (st_mgr_loggers s)" by (simp add: mgr_ok_def)
  have old: "map_find (st_mgr_loggers s) n = Some b \<Longrightarrow> b < length (st_loggers s)" for n b
    using mgr by (simp add: mgr_ok_def)
  show f: "map_find (st_mgr_loggers s') name = Some a"
    using run sorted
    by (auto simp: LoggerManager_getLogger_def alloc_logger_def std_map.assign_same split: option.splits)
  show "a < length (st_loggers s')" using store_ok_mgr [OF ok'] f by (simp add: mgr_ok_def)
  show aps: "st_appenders s' = st_appenders s"
    using run by (auto simp: LoggerManager_getLogger_def alloc_logger_def split: option.splits)
  show own: "set (lg_appenders (st_loggers s' ! a)) \<subseteq> own_appenders s a"
    using run old
    by (auto simp: LoggerManager_getLogger_def alloc_logger_def own_appenders_def Logger_new_def split: option.splits)
  have "map_find (st_mgr_loggers s') n = Some b" if "n \<noteq> name" "map_find (st_mgr_loggers s) n = Some b" for n b
    using run sorted that
    by (auto simp: LoggerManager_getLogger_def alloc_logger_def std_map.find_assign split: option.splits)
  moreover have "st_loggers s' ! b = st_loggers s ! b" if "b < length (st_loggers s)" for b
    using run that by (auto simp: LoggerManager_getLogger_def alloc_logger_def nth_append split: option.splits)
  moreover have "b < length (st_loggers s)" if "b < length (st_loggers s')" "b \<noteq> a" for b
    using run that by (auto simp: LoggerManager_getLogger_def alloc_logger_def split: option.splits)
  ultimately show "only_name name s s'" unfolding only_name_def using f aps own by (intro exI [of _ a]) auto
qed

lemma only_name_logger:
  assumes ok: "store_ok s" and run: "LoggerManager_getLogger name s = (a, s1)" and "only_logger a s1 s'"
  shows "only_name name s s'" "map_find (st_mgr_loggers s') name = Some a"
proof -
  note g = getLogger_step [OF ok run]
  show f: "map_find (st_mgr_loggers s') name = Some a" using g(3) assms(3) by (simp add: only_logger_def)
  obtain a' where a': "map_find (st_mgr_loggers s1) name = Some a'"
    "\<forall>n b. n \<noteq> name \<and> map_find (st_mgr_loggers s) n = Some b \<longrightarrow> map_find (st_mgr_loggers s1) n = Some b"
    "\<forall>b < length (st_loggers s). b \<noteq> a' \<longrightarrow> st_loggers s1 ! b = st_loggers s ! b"
    "\<forall>b < length (st_loggers s1). b \<noteq> a' \<longrightarrow> b < length (st_loggers s)"
    using g(4) unfolding only_name_def by blast
  have "a' = a" using a'(1) g(3) by simp
  have "i \<notin> set (lg_appenders (st_loggers s1 ! a))" if "i \<notin> own_appenders s a" for i using g(6) that by blast
  then show "only_name name s s'"
    unfolding only_name_def using f assms(3) a'(2-4) g(5,6) \<open>a' = a\<close>
    by (intro exI [of _ a]) (auto simp: only_logger_def)
qed

text \<open>Loggers whose appenders are all new ones have them for themselves.\<close>

lemma fresh_private:
  assumes "store_ok s" and "only_logger a s s'" and "\<forall>i \<in> set (lg_appenders (st_loggers s' ! a)). length (st_appenders s) \<le> i"
  shows "private_appenders s' a"
proof -
  have "i < length (st_appenders s)" if "b < length (st_loggers s')" "b \<noteq> a" "i \<in> set (lg_appenders (st_loggers s' ! b))" for b i
    using assms(2) that store_ok_logger [OF assms(1), of b] by (auto simp: only_logger_def logger_ok_def)
  with assms(3) show ?thesis by (fastforce simp: private_appenders_def)
qed

lemma conf_logger_step:
  assumes ok: "store_ok s" and t: "types_ok d"
  shows "\<exists>s'. conf_logger d s = Inr s' \<and> store_ok s' \<and> only_name (ld_name d) s s' \<and> configured s' d"
proof -
  obtain a s1 where g: "LoggerManager_getLogger (ld_name d) s = (a, s1)" by force
  note gl = getLogger_step [OF ok g]
  obtain s2 where 2: "Logger_setLevel a (ld_level d) s1 = Inr s2" "store_ok s2" "only_logger a s1 s2"
    "lg_level (st_loggers s2 ! a) = ld_level d"
    using setLevel_step [OF gl(1,2), of "ld_level d"] by blast
  note a2 = only_logger_length [OF 2(3) gl(2)]
  obtain s3 where 3: "(if ld_formatter d \<noteq> [] then Logger_setFormatter_str a (ld_formatter d) s2 else Inr s2) = Inr s3"
    "store_ok s3" "only_logger a s2 s3" "lg_level (st_loggers s3 ! a) = ld_level d"
    "valid_formatter (ld_formatter d) \<noteq> None \<longrightarrow> lg_formatter (st_loggers s3 ! a) = valid_formatter (ld_formatter d)"
    using setFormatter_str_step [OF 2(2) a2, of "ld_formatter d"] 2(2,4) only_logger_refl
    by (cases "ld_formatter d = []") (auto simp: valid_formatter_def)
  note a3 = only_logger_length [OF 3(3) a2]
  obtain s4 where 4: "Logger_clearAppenders a s3 = Inr s4" "store_ok s4" "only_logger a s3 s4"
    "lg_level (st_loggers s4 ! a) = ld_level d" "lg_formatter (st_loggers s4 ! a) = lg_formatter (st_loggers s3 ! a)"
    "lg_appenders (st_loggers s4 ! a) = []"
    using clearAppenders_step [OF 3(2) a3] 3(4) by auto
  obtain s' aps where 5: "conf_appenders (ld_name d) a (ld_appenders d) s4 = Inr s'" "store_ok s'" "only_logger a s4 s'"
    "lg_level (st_loggers s' ! a) = ld_level d" "lg_formatter (st_loggers s' ! a) = lg_formatter (st_loggers s3 ! a)"
    "lg_appenders (st_loggers s' ! a) = aps" "\<forall>i \<in> set aps. length (st_appenders s4) \<le> i"
    "appenders_match s' (lg_formatter (st_loggers s3 ! a)) aps (ld_appenders d)"
    using conf_appenders_step [OF 4(2) only_logger_length [OF 4(3) a3], of "ld_appenders d" "ld_name d"] t 4(4-6)
    by (auto simp: types_ok_def)
  have "only_logger a s1 s'" using 2(3) 3(3) 4(3) 5(3) only_logger_trans by blast
  note o = only_name_logger [OF ok g this]
  have "private_appenders s' a" using fresh_private [OF 4(2) 5(3)] 5(6,7) by simp
  then have "configured s' d" using o(2) 3(5) 5(4-8) by (auto simp: configured_def)
  moreover have "conf_logger d s = Inr s'" using g 2(1) 3(1) 4(1) 5(1) by (simp add: conf_logger_def)
  ultimately show ?thesis using 5(2) o(1) by blast
qed

lemma conf_delete_step:
  assumes ok: "store_ok s"
  shows "\<exists>s'. conf_delete d s = Inr s' \<and> store_ok s' \<and> only_name (ld_name d) s s' \<and> deconfigured s' d"
proof -
  obtain a s1 where g: "LoggerManager_getLogger (ld_name d) s = (a, s1)" by force
  note gl = getLogger_step [OF ok g]
  obtain s2 where 2: "Logger_setLevel a UNKNOW s1 = Inr s2" "store_ok s2" "only_logger a s1 s2"
    "lg_level (st_loggers s2 ! a) = UNKNOW"
    using setLevel_step [OF gl(1,2), of UNKNOW] by blast
  obtain s3 where 3: "Logger_clearAppenders a s2 = Inr s3" "store_ok s3" "only_logger a s2 s3"
    "lg_level (st_loggers s3 ! a) = UNKNOW" "lg_appenders (st_loggers s3 ! a) = []"
    using clearAppenders_step [OF 2(2) only_logger_length [OF 2(3) gl(2)]] 2(4) by auto
  note o = only_name_logger [OF ok g only_logger_trans [OF 2(3) 3(3)]]
  show ?thesis using g 2(1) 3 o by (auto simp: conf_delete_def deconfigured_def)
qed

section \<open>The two loops\<close>

definition differs :: "log_define std_set \<Rightarrow> log_define \<Rightarrow> bool" where
  "differs old d \<longleftrightarrow>
     (case set_find LogDefine_less old d of None \<Rightarrow> True | Some it \<Rightarrow> \<not> LogDefine_eq d it)"

lemma conf_changed_step:
  assumes "store_ok s" and "distinct (map ld_name ds)" and "\<forall>d \<in> set ds. types_ok d"
  shows "\<exists>s'. conf_changed old ds s = Inr s' \<and> store_ok s' \<and>
    (\<forall>d \<in> set ds. differs old d \<longrightarrow> configured s' d) \<and>
    (\<forall>e. (\<forall>d \<in> set ds. differs old d \<longrightarrow> ld_name d \<noteq> ld_name e) \<longrightarrow> configured s e \<longrightarrow> configured s' e)"
  using assms
proof (induction ds arbitrary: s)
  case (Cons d ds)
  obtain s1 where 1: "(case set_find LogDefine_less old d of None \<Rightarrow> conf_logger d s
      | Some it \<Rightarrow> (if \<not> LogDefine_eq d it then conf_logger d s else Inr s)) = Inr s1" "store_ok s1"
    "differs old d \<longrightarrow> configured s1 d" "\<And>e. (differs old d \<longrightarrow> ld_name d \<noteq> ld_name e) \<Longrightarrow> configured s e \<Longrightarrow> configured s1 e"
  proof (cases "differs old d")
    case True
    obtain s1 where s1: "conf_logger d s = Inr s1" "store_ok s1" "only_name (ld_name d) s s1" "configured s1 d"
      using conf_logger_step [OF Cons.prems(1), of d] Cons.prems(3) by auto
    show thesis
      by (rule that [of s1]) (use True s1 configured_other [OF s1(3) Cons.prems(1) s1(2)] in \<open>auto simp: differs_def split: option.splits\<close>)
  next
    case False
    then show thesis
      by (intro that [of s]) (use Cons.prems(1) in \<open>auto simp: differs_def split: option.splits\<close>)
  qed
  obtain s' where 2: "conf_changed old ds s1 = Inr s'" "store_ok s'"
    "\<forall>d \<in> set ds. differs old d \<longrightarrow> configured s' d"
    "\<And>e. (\<forall>d \<in> set ds. differs old d \<longrightarrow> ld_name d \<noteq> ld_name e) \<Longrightarrow> configured s1 e \<Longrightarrow> configured s' e"
    using Cons.IH [OF 1(2)] Cons.prems(2,3) by auto
  have "conf_changed old (d # ds) s = Inr s'" using 1(1) 2(1) by simp
  moreover have "configured s' d" if "differs old d"
  proof (rule 2(4))
    show "\<forall>da \<in> set ds. differs old da \<longrightarrow> ld_name da \<noteq> ld_name d" using Cons.prems(2) by (auto simp: image_iff)
  qed (use 1(3) that in blast)
  ultimately show ?case using 1(4) 2(2-4) by auto
qed simp

lemma conf_removed_step:
  assumes "store_ok s" and "distinct (map ld_name ds)"
  shows "\<exists>s'. conf_removed new ds s = Inr s' \<and> store_ok s' \<and>
    (\<forall>d \<in> set ds. set_find LogDefine_less new d = None \<longrightarrow> deconfigured s' d) \<and>
    (\<forall>e. ld_name e \<notin> ld_name ` set ds \<longrightarrow> deconfigured s e \<longrightarrow> deconfigured s' e) \<and>
    (\<forall>e. ld_name e \<in> ld_name ` set new \<longrightarrow> configured s e \<longrightarrow> configured s' e)"
  using assms
proof (induction ds arbitrary: s)
  case (Cons d ds)
  obtain s1 where 1: "(if set_find LogDefine_less new d = None then conf_delete d s else Inr s) = Inr s1" "store_ok s1"
    "set_find LogDefine_less new d = None \<longrightarrow> deconfigured s1 d"
    "\<And>e. ld_name e \<noteq> ld_name d \<Longrightarrow> deconfigured s e \<Longrightarrow> deconfigured s1 e"
    "\<And>e. ld_name e \<in> ld_name ` set new \<Longrightarrow> configured s e \<Longrightarrow> configured s1 e"
  proof (cases "set_find LogDefine_less new d = None")
    case True
    then have no: "ld_name d \<notin> ld_name ` set new" by (auto simp: set_find_name find_None_iff)
    obtain s1 where s1: "conf_delete d s = Inr s1" "store_ok s1" "only_name (ld_name d) s s1" "deconfigured s1 d"
      using conf_delete_step [OF Cons.prems(1)] by blast
    have "ld_name e \<noteq> ld_name d" if "ld_name e \<in> ld_name ` set new" for e using that no by metis
    then show thesis using that [of s1] True s1 configured_other [OF s1(3) Cons.prems(1) s1(2)] deconfigured_other [OF s1(3) Cons.prems(1) s1(2)] by auto
  next
    case False
    then show thesis by (intro that [of s]) (use Cons.prems(1) in auto)
  qed
  obtain s' where 2: "conf_removed new ds s1 = Inr s'" "store_ok s'"
    "\<forall>d \<in> set ds. set_find LogDefine_less new d = None \<longrightarrow> deconfigured s' d"
    "\<forall>e. ld_name e \<notin> ld_name ` set ds \<longrightarrow> deconfigured s1 e \<longrightarrow> deconfigured s' e"
    "\<forall>e. ld_name e \<in> ld_name ` set new \<longrightarrow> configured s1 e \<longrightarrow> configured s' e"
    using Cons.IH [OF 1(2)] Cons.prems(2) by auto
  have "conf_removed new (d # ds) s = Inr s'" using 1(1) 2(1) by simp
  then show ?case using 1(3-5) 2(2-5) Cons.prems(2) by auto
qed simp

lemma reopen_key: "FileLogAppender_reopen fa w = (ok, fa', w') \<Longrightarrow> fa_filename fa' = fa_filename fa"
  by (auto simp: FileLogAppender_reopen_def Let_def split: prod.splits)

lemma LogAppender_log_key:
  assumes "LogAppender_log env ap level e w = Inr (ap', w')"
  shows "ap_key ap' = ap_key ap"
proof (cases "ap_impl ap")
  case StdoutAppender
  with assms show ?thesis
    by (auto simp: LogAppender_log.simps StdoutLogAppender_log_def split: if_splits option.splits)
next
  case (FileAppender fa)
  with assms have f: "FileLogAppender_log env ap fa level e w = Inr (ap', w')" by (simp add: LogAppender_log.simps)
  obtain ok fa1 w1 where r: "FileLogAppender_reopen fa w = (ok, fa1, w1)" by (rule prod_cases3)
  from f reopen_key [OF r] FileAppender show ?thesis
    by (auto simp: FileLogAppender_log_def Let_def r ap_key_def split: if_splits option.splits prod.splits)
qed

text \<open>Logging changes no logger, and no appender in what a definition says of it.\<close>

definition same_keys :: "log_store \<Rightarrow> log_store \<Rightarrow> bool" where
  "same_keys s s' \<longleftrightarrow> st_loggers s' = st_loggers s \<and> st_mgr_loggers s' = st_mgr_loggers s \<and>
     map ap_key (st_appenders s') = map ap_key (st_appenders s)"

lemma run_appenders_key:
  "run_appenders env is level e aps w = Inr (aps', w') \<Longrightarrow> map ap_key aps' = map ap_key aps"
proof (induction env "is" level e aps w rule: run_appenders.induct)
  case (2 env i "is" level e aps w)
  then obtain ap w1 where 1: "i < length aps" "LogAppender_log env (aps ! i) level e w = Inr (ap, w1)"
    "run_appenders env is level e (aps[i := ap]) w1 = Inr (aps', w')"
    by (auto split: if_splits sum.splits)
  from 2(1) [OF 1(1,2) refl 1(3)] LogAppender_log_key [OF 1(2)] 1(1) show ?case
    by (simp add: map_update list_update_same_conv)
qed simp

lemma Logger_log_held_config: "Logger_log_held strf held a level e s = Inr s' \<Longrightarrow> same_keys s s'"
proof (induction strf held a level e s rule: Logger_log_held.induct)
  case (1 strf held a level e s)
  note run = "1.prems" [unfolded Logger_log_held.simps [of strf held a level e s]]
  show ?case
  proof (cases "lg_appenders (st_loggers s ! a) = []")
    case True
    then show ?thesis
      using run "1.IH" by (auto simp: same_keys_def split: if_splits option.splits)
  next
    case False
    then show ?thesis
      using run by (auto simp: same_keys_def run_appenders_key split: if_splits sum.splits)
  qed
qed

lemma same_keys_appenders:
  assumes "same_keys s s'" and m: "appenders_match s lf is ds"
  shows "appenders_match s' lf is ds"
proof (rule appenders_match_mono [OF m])
  have keys: "map ap_key (st_appenders s') = map ap_key (st_appenders s)"
    using assms(1) by (simp add: same_keys_def)
  from arg_cong [OF keys, of length] show len: "length (st_appenders s) \<le> length (st_appenders s')" by simp
  show "\<forall>i \<in> set is. ap_key (st_appenders s' ! i) = ap_key (st_appenders s ! i)"
    using keys len appenders_match_valid [OF m] by (metis nth_map order_less_le_trans)
qed

lemma configured_same: "same_keys s s' \<Longrightarrow> configured s d \<Longrightarrow> configured s' d"
  using same_keys_appenders [of s s'] by (auto simp: configured_def same_keys_def private_appenders_def)

lemma listener_runs:
  assumes ok: "store_ok s" and names: "distinct (map ld_name new)" "distinct (map ld_name old)"
    and t: "\<forall>d \<in> set new. types_ok d"
  obtains s' where "on_logger_conf_changed strf cx file old new s = Inr s'" and "store_ok s'"
    and "\<And>d. d \<in> set new \<Longrightarrow> differs old d \<Longrightarrow> configured s' d"
    and "\<And>d. d \<in> set old \<Longrightarrow> set_find LogDefine_less new d = None \<Longrightarrow> deconfigured s' d"
    and "\<And>d e. d \<in> set new \<Longrightarrow> \<not> differs old d \<Longrightarrow> ld_name e = ld_name d \<Longrightarrow> configured s e \<Longrightarrow> configured s' e"
proof -
  have root: "st_mgr_root s < length (st_loggers s)" using store_ok_mgr [OF ok] by (simp add: mgr_ok_def)
  obtain s1 where 1: "gwn_LOG_LEVEL strf cx file 699 (LoggerManager_getRoot s) INFO ''on_logger_conf_changed'' s = Inr s1"
    "store_ok s1" "same_keys s s1"
  proof -
    consider "gwn_LOG_LEVEL strf cx file 699 (LoggerManager_getRoot s) INFO ''on_logger_conf_changed'' s = Inr s"
      | e where "gwn_LOG_LEVEL strf cx file 699 (LoggerManager_getRoot s) INFO ''on_logger_conf_changed'' s =
          Logger_log strf (st_mgr_root s) INFO e s"
      using gwn_LOG_LEVEL_cases [OF root] by (metis LoggerManager_getRoot_def)
    then show thesis
    proof cases
      case 1
      then show thesis using ok by (intro that [of s]) (simp_all add: same_keys_def)
    next
      case (2 e)
      obtain s1 where "Logger_log strf (st_mgr_root s) INFO e s = Inr s1" "store_ok s1"
        using Logger_log_ok [OF ok root] by blast
      with 2 show thesis by (intro that [of s1]) (auto simp: Logger_log_def dest: Logger_log_held_config)
    qed
  qed
  obtain s2 where 2: "conf_changed old new s1 = Inr s2" "store_ok s2"
    "\<forall>d \<in> set new. differs old d \<longrightarrow> configured s2 d"
    "\<forall>e. (\<forall>d \<in> set new. differs old d \<longrightarrow> ld_name d \<noteq> ld_name e) \<longrightarrow> configured s1 e \<longrightarrow> configured s2 e"
    using conf_changed_step [OF 1(2) names(1) t, of old] by blast
  obtain s' where 3: "conf_removed new old s2 = Inr s'" "store_ok s'"
    "\<forall>d \<in> set old. set_find LogDefine_less new d = None \<longrightarrow> deconfigured s' d"
    "\<forall>e. ld_name e \<in> ld_name ` set new \<longrightarrow> configured s2 e \<longrightarrow> configured s' e"
    using conf_removed_step [OF 2(2) names(2), of new] by blast
  show thesis
  proof (rule that [of s'])
    show "on_logger_conf_changed strf cx file old new s = Inr s'"
      using 1(1) 2(1) 3(1) by (simp add: on_logger_conf_changed_def)
    fix d e
    assume d: "d \<in> set new" "\<not> differs old d" "ld_name e = ld_name d" and e: "configured s e"
    have "ld_name d' \<noteq> ld_name e" if "d' \<in> set new" "differs old d'" for d'
      using that d names(1) by (metis distinct_map inj_onD)
    with 2(4) configured_same [OF 1(3) e] have "configured s2 e" by blast
    with 3(4) d(1,3) show "configured s' e" by simp
  qed (use 2(3) 3(2-4) in auto)
qed

text \<open>
  C23: On every store that calls without null formatters reach, the listener of the variable \<open>logs\<close>
  runs through. Afterwards the logger of each new or (as far as \<open>operator==\<close> sees) changed
  definition has its level and its formatter when that is valid, and exactly its appenders, in order
  and its own, each with its level and file and with its formatter when valid, that of the logger
  otherwise; the logger of each removed definition lets every level pass and has no appender.
\<close>

theorem listener_applies_configuration:
  assumes "log_reach strf s" and "distinct (map ld_name new)" and "distinct (map ld_name old)"
    and "\<forall>d \<in> set new. types_ok d"
  shows "\<exists>s'. on_logger_conf_changed strf cx file old new s = Inr s' \<and> store_ok s' \<and>
    (\<forall>d \<in> set new. differs old d \<longrightarrow> configured s' d) \<and>
    (\<forall>d \<in> set old. set_find LogDefine_less new d = None \<longrightarrow> deconfigured s' d)"
  by (rule listener_runs [OF log_reach_ok [OF assms(1)] assms(2-4), of strf cx "file"]) blast

theorem listener_applies_configuration_witness:
  "\<exists>s s'. LoggerManager_new example_world = Inr s \<and>
     on_logger_conf_changed (\<lambda>f t. f) example_context ''log.cc'' [] [demo_define] s = Inr s' \<and>
     configured s' demo_define"
proof -
  obtain s where s: "LoggerManager_new example_world = Inr s" by (simp add: LoggerManager_new_eq)
  have "types_ok demo_define" by (simp add: types_ok_def demo_define_def)
  with listener_applies_configuration [OF log_reach.start [OF s, of "\<lambda>f t. f"], of "[demo_define]" "[]" example_context "''log.cc''"] s
  show ?thesis by (auto simp: differs_def)
qed

end
