(* ===== verification/Config_Registry.thy ===== *)
theory Config_Registry
  imports Config_Facts
begin

text \<open>
  The registry of configuration variables: its invariant over all runs, what \<open>LookUp\<close> returns,
  which variables a YAML document reaches and what they hold after \<open>LoadFromYaml\<close>.
\<close>

section \<open>The invariant\<close>

definition config_ok :: "('v, 'w) config \<Rightarrow> bool" where
  "config_ok c \<longleftrightarrow> map_sorted (cf_datas c) \<and>
     (\<forall>name a. map_find (cf_datas c) name = Some a \<longrightarrow>
        a < length (cf_vars c) \<and> valid_name name \<and> cv_name (cf_vars c ! a) = name)"

text \<open>An operation on one variable, at its address.\<close>

definition at_var :: "nat \<Rightarrow> (('v, 'w) config_var \<Rightarrow> ('v, 'w) config_var) \<Rightarrow> ('v, 'w) config \<Rightarrow> ('v, 'w) config" where
  "at_var a g c = c\<lparr>cf_vars := (cf_vars c)[a := g (cf_vars c ! a)]\<rparr>"

lemma config_ok_say [simp]: "config_ok (say ms c) = config_ok c"
  by (simp add: config_ok_def say_def)

lemma say_simps [simp]: "cf_vars (say ms c) = cf_vars c" "cf_datas (say ms c) = cf_datas c"
  by (simp_all add: say_def)

lemma config_okI:
  assumes "config_ok c" and "cf_datas c' = cf_datas c" and "length (cf_vars c') = length (cf_vars c)"
    and "\<And>k. k < length (cf_vars c) \<Longrightarrow> cv_name (cf_vars c' ! k) = cv_name (cf_vars c ! k)"
  shows "config_ok c'"
  using assms by (simp add: config_ok_def)

lemma at_var_nth:
  "k < length (cf_vars c) \<Longrightarrow>
     cf_vars (at_var a g c) ! k = (if k = a then g (cf_vars c ! a) else cf_vars c ! k)"
  by (simp add: at_var_def nth_update)

lemma at_var_simps [simp]:
  "length (cf_vars (at_var a g c)) = length (cf_vars c)" "cf_datas (at_var a g c) = cf_datas c"
  by (simp_all add: at_var_def)

lemma config_ok_at_var:
  assumes "config_ok c" and "cv_name (g (cf_vars c ! a)) = cv_name (cf_vars c ! a)"
  shows "config_ok (at_var a g c)"
  using assms by - (rule config_okI [of c], simp_all add: at_var_nth)

lemma config_okD:
  assumes "config_ok c" and "map_find (cf_datas c) name = Some a"
  shows "a < length (cf_vars c)" "valid_name name" "cv_name (cf_vars c ! a) = name"
  using assms by (auto simp: config_ok_def)

lemma config_ok_inj:
  "config_ok c \<Longrightarrow> map_find (cf_datas c) n1 = Some a \<Longrightarrow> map_find (cf_datas c) n2 = Some a \<Longrightarrow> n1 = n2"
  using config_okD(3) by metis

lemma LookUp_default_ok:
  assumes ok: "config_ok c" and run: "Config_LookUp_default ty name d desc c = (r, c')"
  shows "config_ok c'"
proof (cases "map_find (cf_datas c) name")
  case (Some a)
  with ok run show ?thesis by (auto simp: Config_LookUp_default_def Let_def split: if_splits prod.splits)
next
  case None
  show ?thesis
  proof (cases "valid_name name")
    case False
    with None ok run show ?thesis by (auto simp: Config_LookUp_default_def)
  next
    case True
    with None run have c': "cf_vars c' = cf_vars c @ [ConfigVar ty name d desc]"
      "cf_datas c' = map_assign name (length (cf_vars c)) (cf_datas c)"
      by (auto simp: Config_LookUp_default_def)
    have sorted: "map_sorted (cf_datas c)" using ok by (simp add: config_ok_def)
    show ?thesis
      unfolding config_ok_def c' std_map.find_assign [OF sorted]
      using True config_okD [OF ok] std_map.invar_assign [OF sorted]
      by (auto simp: nth_append ConfigVar_def valid_name_lower less_Suc_eq split: if_splits)
  qed
qed

lemma fromString_keeps:
  assumes "ConfigVar_fromString text cv w = (ok, cv', w', ms)"
  shows "cv_name cv' = cv_name cv" "cv_type cv' = cv_type cv" "cv_cbs cv' = cv_cbs cv"
  using fromString_cases(2,3) [OF assms] by (cases ok; auto split: if_splits)+

lemma load_member_eq:
  "load_member emit_yaml (c, w) (name, node) =
     (if name = [] then (c, w)
      else (case map_find (cf_datas c) (map tolower name) of
              None \<Rightarrow> (c, w)
            | Some a \<Rightarrow>
                (case ConfigVar_fromString (node_text emit_yaml node) (cf_vars c ! a) w of
                   (ok, cv, w', ms) \<Rightarrow> (say ms (at_var a (\<lambda>_. cv) c), w'))))"
  by (auto simp: load_member_def Config_LookupBase_def at_var_def split: option.split prod.split)

lemma load_member_ok:
  assumes ok: "config_ok c" and run: "load_member emit_yaml (c, w) (name, node) = (c', w')"
  shows "config_ok c' \<and> cf_datas c' = cf_datas c \<and> length (cf_vars c') = length (cf_vars c)"
proof (cases "name = [] \<or> map_find (cf_datas c) (map tolower name) = None")
  case True
  with ok run show ?thesis by (auto simp: load_member_eq split: option.splits)
next
  case False
  then obtain a where a: "map_find (cf_datas c) (map tolower name) = Some a" "name \<noteq> []" by auto
  obtain b cv w'' ms where f: "ConfigVar_fromString (node_text emit_yaml node) (cf_vars c ! a) w = (b, cv, w'', ms)"
    by (metis prod_cases4)
  have "config_ok (at_var a (\<lambda>_. cv) c)"
    using ok fromString_keeps(1) [OF f] by (intro config_ok_at_var) simp_all
  with run a f show ?thesis by (auto simp: load_member_eq)
qed

lemma load_members_ok:
  "config_ok c \<Longrightarrow> foldl (load_member emit_yaml) (c, w) nodes = (c', w') \<Longrightarrow>
     config_ok c' \<and> cf_datas c' = cf_datas c \<and> length (cf_vars c') = length (cf_vars c)"
proof (induction nodes arbitrary: c w)
  case (Cons i nodes)
  obtain c1 w1 where 1: "load_member emit_yaml (c, w) i = (c1, w1)" by force
  obtain name node where "i = (name, node)" by force
  with load_member_ok [OF Cons.prems(1), of emit_yaml w name node c1 w1] Cons 1 show ?case by auto
qed simp

lemma LoadFromYaml_ok:
  "config_ok c \<Longrightarrow> Config_LoadFromYaml emit_yaml root c w = (c', w') \<Longrightarrow>
     config_ok c' \<and> cf_datas c' = cf_datas c \<and> length (cf_vars c') = length (cf_vars c)"
  using load_members_ok [of "say ms c" emit_yaml w nodes c' w' for ms nodes]
  by (auto simp: Config_LoadFromYaml_def split: prod.splits)

text \<open>The states of the registry that a program can reach.\<close>

inductive config_reach :: "('v, 'w) config \<Rightarrow> bool" where
  empty: "config_reach config_empty"
| lookup: "config_reach c \<Longrightarrow> Config_LookUp_default ty name d desc c = (r, c') \<Longrightarrow> config_reach c'"
| load: "config_reach c \<Longrightarrow> Config_LoadFromYaml emit_yaml root c w = (c', w') \<Longrightarrow> config_reach c'"
| set_value: "config_reach c \<Longrightarrow> config_reach (at_var a (\<lambda>cv. fst (ConfigVar_setValue v cv w)) c)"
| store: "config_reach c \<Longrightarrow> config_reach (at_var a (setValue_store v) c)"
| add: "config_reach c \<Longrightarrow> config_reach (at_var a (\<lambda>cv. snd (snd (ConfigVar_addListener cb n cv))) c)"
| del: "config_reach c \<Longrightarrow> config_reach (at_var a (ConfigVar_delListener k) c)"
| clear: "config_reach c \<Longrightarrow> config_reach (at_var a ConfigVar_clearListener c)"

lemma config_reach_ok: "config_reach c \<Longrightarrow> config_ok c"
proof (induction rule: config_reach.induct)
  case empty
  show ?case by (simp add: config_ok_def config_empty_def)
next
  case (lookup c ty name d desc r c')
  then show ?case by (blast intro: LookUp_default_ok)
next
  case (load c emit_yaml root w c' w')
  then show ?case by (blast dest: LoadFromYaml_ok)
next
  case (set_value c a v w)
  then show ?case
    by (auto intro!: config_ok_at_var simp: ConfigVar_setValue_def setValue_store_def
        split: option.splits prod.splits)
qed (auto intro!: config_ok_at_var simp: setValue_store_def ConfigVar_addListener_def Let_def
    ConfigVar_delListener_def ConfigVar_clearListener_def)

text \<open>A registry for the instances.\<close>

definition demo_config :: "(nat, (nat \<times> nat \<times> nat) list) config" where
  "demo_config = snd (Config_LookUp_default nat_type ''system.port'' 7 ''the port'' config_empty)"

lemma demo_config_reach: "config_reach demo_config"
  unfolding demo_config_def by (rule config_reach.lookup [OF config_reach.empty prod.collapse [symmetric]])

lemma demo_config_datas: "cf_datas demo_config = [(''system.port'', 0)]"
  "cf_vars demo_config = [ConfigVar nat_type ''system.port'' 7 ''the port'']"
  by (simp_all add: demo_config_def Config_LookUp_default_def config_empty_def valid_name_def name_chars_def)

section \<open>LookUp\<close>

text \<open>
  A variable is created once and found again. A name that is not registered and is valid
  gets a new variable with the default value, at an address nobody had; other names keep
  theirs. A registered name gives the registered variable when the types agree and null when
  they do not, and no variable changes. After a successful \<open>LookUp\<close> the name is found by
  \<open>LookUp\<close> with the same type, with or without default, and by \<open>LookupBase\<close>.
\<close>

theorem lookup_creates_or_finds:
  assumes "config_reach c" and "valid_name name"
    and "Config_LookUp_default ty name d desc c = (r, c')"
  shows "(case Config_LookupBase name c of
      None \<Rightarrow> r = FoundVar (length (cf_vars c)) \<and>
        cf_vars c' = cf_vars c @ [ConfigVar ty name d desc] \<and>
        (\<forall>n. Config_LookupBase n c' = (if n = name then Some (length (cf_vars c)) else Config_LookupBase n c))
    | Some a \<Rightarrow> r = (if same_type ty (cv_type (cf_vars c ! a)) then FoundVar a else NullVar) \<and>
        cf_vars c' = cf_vars c \<and> (\<forall>n. Config_LookupBase n c' = Config_LookupBase n c)) \<and>
    (\<forall>a. r = FoundVar a \<longrightarrow> Config_LookUp ty name c' = Some a \<and> Config_LookupBase name c' = Some a \<and>
       fst (Config_LookUp_default ty name d' desc' c') = FoundVar a)"
proof -
  have sorted: "map_sorted (cf_datas c)" using config_reach_ok [OF assms(1)] by (simp add: config_ok_def)
  show ?thesis
  proof (cases "map_find (cf_datas c) name")
    case None
    with assms(2,3) sorted show ?thesis
      by (auto simp: Config_LookUp_default_def Config_LookupBase_def Config_LookUp_def std_map.find_assign
          same_type_def ConfigVar_def)
  next
    case (Some a)
    with assms(3) show ?thesis
      by (auto simp: Config_LookUp_default_def Config_LookupBase_def Config_LookUp_def Let_def
          split: if_splits prod.splits)
  qed
qed

theorem lookup_creates_or_finds_witness:
  "fst (Config_LookUp_default nat_type ''system.port'' 8 [] demo_config) = FoundVar 0 \<and>
   fst (Config_LookUp_default (nat_type\<lparr>vt_name := ''f''\<rparr>) ''system.port'' 8 [] demo_config) = NullVar"
proof -
  have v: "valid_name ''system.port''" by (simp add: valid_name_def name_chars_def)
  show ?thesis
    using lookup_creates_or_finds [OF demo_config_reach v prod.collapse [symmetric], of nat_type 8 "[]" 8 "[]"]
      lookup_creates_or_finds [OF demo_config_reach v prod.collapse [symmetric], of "nat_type\<lparr>vt_name := ''f''\<rparr>" 8 "[]" 8 "[]"]
    by (auto simp: Config_LookupBase_def demo_config_datas same_type_def ConfigVar_def nat_type_def)
qed

text \<open>
  A name with the digit 9 can never be registered: the list of allowed characters ends with
  8, so \<open>LookUp\<close> reports the name and throws.
\<close>

theorem digit_nine_rejected:
  assumes "config_reach c" and "CHR ''9'' \<in> set name"
  shows "Config_LookUp_default ty name d desc c =
    (InvalidArgument name, say [(ERROR, ''Lookup name invalid '' @ name)] c)"
proof -
  have "CHR ''9'' \<notin> set name_chars" by (simp add: name_chars_def)
  with assms(2) have "\<not> valid_name name" unfolding valid_name_def all_in_def list_all_iff by blast
  moreover from this have "map_find (cf_datas c) name = None"
    using config_okD(2) [OF config_reach_ok [OF assms(1)], of name] by (cases "map_find (cf_datas c) name") auto
  ultimately show ?thesis by (simp add: Config_LookUp_default_def)
qed

theorem digit_nine_rejected_witness:
  "fst (Config_LookUp_default nat_type ''tcp.port9'' 8 [] demo_config) = InvalidArgument ''tcp.port9''"
  using digit_nine_rejected [OF demo_config_reach, of "''tcp.port9''" nat_type 8 "[]"] by simp

text \<open>
  In every reachable registry a registered name is valid, is what \<open>getName\<close> of its variable
  returns, and no two names share a variable.
\<close>

theorem registry_names:
  assumes "config_reach c" and "Config_LookupBase name c = Some a"
  shows "a < length (cf_vars c) \<and> valid_name name \<and> map tolower name = name \<and>
    cv_name (cf_vars c ! a) = name \<and> (Config_LookupBase name' c = Some a \<longrightarrow> name' = name)"
  using config_okD [OF config_reach_ok [OF assms(1)], of name a]
    config_ok_inj [OF config_reach_ok [OF assms(1)], of name' a name] assms(2)
  by (auto simp: Config_LookupBase_def valid_name_lower)

theorem registry_names_witness:
  "valid_name ''system.port'' \<and> cv_name (cf_vars demo_config ! 0) = ''system.port''"
  using registry_names [OF demo_config_reach, of "''system.port''" 0 "[]"]
  by (simp add: Config_LookupBase_def demo_config_datas)

section \<open>The members of a document\<close>

text \<open>
  What \<open>ListAllMember\<close> is meant to list: every node that is reached from the root through maps,
  with the keys on the way, joined by dots, as its name; as long as all these names are valid.
\<close>

inductive yaml_member :: "yaml \<Rightarrow> string \<Rightarrow> yaml \<Rightarrow> bool" for root where
  root: "yaml_member root [] root"
| child: "yaml_member root prefix (YMap kvs) \<Longrightarrow> (k, v) \<in> set kvs \<Longrightarrow>
    valid_name (member_name prefix k) \<Longrightarrow> yaml_member root (member_name prefix k) v"

text \<open>The same from an inner node on, for the induction over the document.\<close>

inductive below :: "string \<Rightarrow> yaml \<Rightarrow> string \<Rightarrow> yaml \<Rightarrow> bool" where
  here: "valid_name prefix \<Longrightarrow> below prefix node prefix node"
| inner: "valid_name prefix \<Longrightarrow> (k, v) \<in> set kvs \<Longrightarrow> below (member_name prefix k) v name node \<Longrightarrow>
    below prefix (YMap kvs) name node"

inductive_cases below_mapE: "below prefix (YMap kvs) name node"
inductive_simps below_scalar: "below prefix (YScalar s) name node"
inductive_simps below_null: "below prefix YNull name node"
inductive_simps below_seq: "below prefix (YSeq ns) name node"

lemma below_valid: "below prefix node name n \<Longrightarrow> valid_name prefix \<and> valid_name name"
  by (induction rule: below.induct) simp_all

declare ListAllMember.simps [simp del]

lemma list_below:
  "((name, n) \<in> set (fst (ListAllMember e prefix node))) = below prefix node name n"
  "((name, n) \<in> set (fst (list_members e prefix kvs))) =
     (\<exists>(k, v) \<in> set kvs. below (member_name prefix k) v name n)"
proof (induction e prefix node and e prefix kvs rule: ListAllMember_list_members.induct)
  case (1 e prefix node)
  show ?case
  proof (cases "valid_name prefix")
    case False
    then show ?thesis using below_valid [of prefix node name n] by (auto simp: ListAllMember.simps)
  next
    case True
    show ?thesis
    proof (cases node)
      case (YMap kvs)
      from 1 [OF _ YMap] True have IH: "((name, n) \<in> set (fst (list_members e prefix kvs))) =
          (\<exists>(k, v) \<in> set kvs. below (member_name prefix k) v name n)" by simp
      have "below prefix (YMap kvs) name n \<longleftrightarrow>
          name = prefix \<and> n = YMap kvs \<or> (\<exists>(k, v) \<in> set kvs. below (member_name prefix k) v name n)"
        using True by (auto elim!: below_mapE intro: below.intros)
      with True YMap IH show ?thesis by (auto simp: ListAllMember.simps split: prod.splits)
    qed (use True in \<open>auto simp: ListAllMember.simps below_scalar below_null below_seq\<close>)
  qed
next
  case (3 e prefix k v kvs)
  then show ?case
    by (cases "ListAllMember e (member_name prefix k) v"; cases "list_members e prefix kvs") simp
qed simp

lemma below_trans:
  "below prefix node name (YMap kvs) \<Longrightarrow> (k, v) \<in> set kvs \<Longrightarrow> valid_name (member_name name k) \<Longrightarrow>
     below prefix node (member_name name k) v"
proof (induction prefix node name "YMap kvs" rule: below.induct)
  case (here prefix)
  then show ?case by (blast intro: below.intros)
next
  case (inner prefix k' v' kvs' name)
  then show ?case by (blast intro: below.intros)
qed

lemma member_below: "yaml_member root name n \<Longrightarrow> below [] root name n"
  by (induction rule: yaml_member.induct) (auto intro: below.here below_trans)

lemma below_member: "below prefix node name n \<Longrightarrow> yaml_member root prefix node \<Longrightarrow> yaml_member root name n"
proof (induction rule: below.induct)
  case (inner prefix k v kvs name node)
  have "yaml_member root (member_name prefix k) v"
    using inner.prems inner.hyps(2) below_valid [OF inner.hyps(3)] by (blast intro: yaml_member.child)
  then show ?case by (rule inner.IH)
qed

text \<open>
  \<open>ListAllMember\<close> lists exactly the nodes of the document that are reached through maps
  under valid names, each with its dotted name. Names are checked before they are turned to
  lower case, so every listed name is lower case already, and a key with a capital letter or
  the digit 9 is skipped together with everything below it.
\<close>

theorem document_members:
  "((name, n) \<in> set (fst (ListAllMember emit_yaml [] root))) = yaml_member root name n \<and>
   ((name, n) \<in> set (fst (ListAllMember emit_yaml [] root)) \<longrightarrow> valid_name name \<and> map tolower name = name)"
proof -
  have "((name, n) \<in> set (fst (ListAllMember emit_yaml [] root))) = yaml_member root name n"
    using member_below below_member yaml_member.root by (auto simp: list_below(1))
  moreover have "valid_name name \<and> map tolower name = name"
    if "(name, n) \<in> set (fst (ListAllMember emit_yaml [] root))"
    using that below_valid by (auto simp: list_below(1) valid_name_lower)
  ultimately show ?thesis by blast
qed

definition demo_document :: yaml where
  "demo_document = YMap [(YScalar ''system'', YMap [(YScalar ''port'', YScalar ''two''),
     (YScalar ''Port'', YMap [(YScalar ''port'', YScalar ''one'')])])]"

theorem document_members_witness:
  "yaml_member demo_document ''system.port'' (YScalar ''two'') \<and> map tolower ''system.port'' = ''system.port''"
proof -
  have "(''system.port'', YScalar ''two'') \<in> set (fst (ListAllMember (\<lambda>_. []) [] demo_document))"
    by (simp add: demo_document_def ListAllMember.simps valid_name_def name_chars_def member_name_def)
  with document_members [of "''system.port''" "YScalar ''two''" "\<lambda>_. []" demo_document] show ?thesis by blast
qed

section \<open>What a document sets\<close>

definition parse_into :: "'v value_type \<Rightarrow> 'v \<Rightarrow> string \<Rightarrow> 'v" where
  "parse_into ty old text =
     (case vt_from ty text of Inl what \<Rightarrow> old | Inr v \<Rightarrow> if vt_eq ty v old then old else v)"

lemma fromString_no_listeners:
  assumes "ConfigVar_fromString text cv w = (ok, cv', w', ms)" and "cv_cbs cv = []"
  shows "cv' = cv\<lparr>cv_val := parse_into (cv_type cv) (cv_val cv) text\<rparr>"
  using assms
  by (auto simp: ConfigVar_fromString_def ConfigVar_setValue_def setValue_notify_def setValue_store_def
      parse_into_def Let_def split: sum.splits option.splits prod.splits if_splits)

lemma load_member_value:
  assumes ok: "config_ok c" and a: "map_find (cf_datas c) key = Some a" and "key \<noteq> []"
    and n: "valid_name name" and run: "load_member emit_yaml (c, w) (name, node) = (c', w')"
    and cbs: "cv_cbs (cf_vars c ! a) = []"
  shows "cf_vars c' ! a = (if name = key then (cf_vars c ! a)
      \<lparr>cv_val := parse_into (cv_type (cf_vars c ! a)) (cv_val (cf_vars c ! a)) (node_text emit_yaml node)\<rparr>
    else cf_vars c ! a)"
proof -
  note len = config_okD(1) [OF ok a]
  show ?thesis
  proof (cases "name = [] \<or> map_find (cf_datas c) name = None")
    case True
    with run a assms(3) show ?thesis by (auto simp: load_member_eq valid_name_lower [OF n] split: option.splits)
  next
    case False
    then obtain b where b: "map_find (cf_datas c) name = Some b" "name \<noteq> []" by auto
    obtain r cv w'' ms where f: "ConfigVar_fromString (node_text emit_yaml node) (cf_vars c ! b) w = (r, cv, w'', ms)"
      by (metis prod_cases4)
    have "a = b \<longleftrightarrow> name = key" using b(1) a config_ok_inj [OF ok] by (metis option.inject)
    with run b f fromString_no_listeners [OF f] cbs len show ?thesis
      by (auto simp: load_member_eq valid_name_lower [OF n] at_var_nth)
  qed
qed

lemma load_members_value:
  assumes "config_ok c" and "map_find (cf_datas c) key = Some a" and "key \<noteq> []"
    and "\<forall>i \<in> set nodes. valid_name (fst i)" and "cv_cbs (cf_vars c ! a) = []"
    and "foldl (load_member emit_yaml) (c, w) nodes = (c', w')"
  shows "cv_val (cf_vars c' ! a) = foldl (parse_into (cv_type (cf_vars c ! a))) (cv_val (cf_vars c ! a))
    (map (\<lambda>i. node_text emit_yaml (snd i)) (filter (\<lambda>i. fst i = key) nodes))"
  using assms
proof (induction nodes arbitrary: c w)
  case (Cons i nodes)
  obtain name node where i: "i = (name, node)" by force
  obtain c1 w1 where 1: "load_member emit_yaml (c, w) (name, node) = (c1, w1)" by force
  have n: "valid_name name" using Cons.prems(4) i by simp
  note ok1 = load_member_ok [OF Cons.prems(1) 1]
  note v1 = load_member_value [OF Cons.prems(1-3) n 1 Cons.prems(5)]
  have "cv_val (cf_vars c' ! a) = foldl (parse_into (cv_type (cf_vars c1 ! a))) (cv_val (cf_vars c1 ! a))
    (map (\<lambda>i. node_text emit_yaml (snd i)) (filter (\<lambda>i. fst i = key) nodes))"
    using Cons.prems ok1 v1 1 i by (intro Cons.IH [of c1 w1]) (auto split: if_splits)
  with v1 i show ?case by (cases "name = key") simp_all
qed simp

text \<open>
  C22: After \<open>LoadFromYaml\<close> a registered variable without listeners holds the result of
  converting, in document order, the texts listed under its name (a scalar's own text, the
  printed node otherwise): a text that does not convert is skipped, and a variable that the
  document does not name keeps its value.
\<close>

theorem load_sets_variables:
  assumes "config_reach c" and "Config_LookupBase key c = Some a" and "key \<noteq> []"
    and "cv_cbs (cf_vars c ! a) = []" and "Config_LoadFromYaml emit_yaml root c w = (c', w')"
  shows "ConfigVar_getValue (cf_vars c' ! a) =
    foldl (parse_into (cv_type (cf_vars c ! a))) (ConfigVar_getValue (cf_vars c ! a))
      (map (\<lambda>i. node_text emit_yaml (snd i)) (filter (\<lambda>i. fst i = key) (fst (ListAllMember emit_yaml [] root))))"
proof -
  obtain nodes ms where l: "ListAllMember emit_yaml [] root = (nodes, ms)" by force
  have "valid_name (fst i)" if "i \<in> set nodes" for i
  proof -
    obtain name n where i: "i = (name, n)" by force
    have "below [] root name n" using that l i list_below(1) [of name n emit_yaml "[]" root] by simp
    then show ?thesis using below_valid i by auto
  qed
  then have "cv_val (cf_vars c' ! a) = foldl (parse_into (cv_type (cf_vars (say ms c) ! a)))
      (cv_val (cf_vars (say ms c) ! a)) (map (\<lambda>i. node_text emit_yaml (snd i)) (filter (\<lambda>i. fst i = key) nodes))"
    using assms config_reach_ok [OF assms(1)] l
    by (intro load_members_value [where key = key and w = w])
       (auto simp: Config_LookupBase_def Config_LoadFromYaml_def)
  then show ?thesis by (simp add: l ConfigVar_getValue_def)
qed

theorem load_sets_variables_witness:
  "ConfigVar_getValue (cf_vars (fst (Config_LoadFromYaml (\<lambda>_. []) demo_document demo_config [])) ! 0) = 2"
proof -
  have cv: "cv_cbs (cf_vars demo_config ! 0) = []" "Config_LookupBase ''system.port'' demo_config = Some 0"
    by (simp_all add: demo_config_datas ConfigVar_def Config_LookupBase_def)
  have l: "filter (\<lambda>i. fst i = ''system.port'') (fst (ListAllMember (\<lambda>_. []) [] demo_document)) =
      [(''system.port'', YScalar ''two'')]"
    by (simp add: demo_document_def ListAllMember.simps valid_name_def name_chars_def member_name_def)
  from load_sets_variables [OF demo_config_reach cv(2) _ cv(1) prod.collapse [symmetric], of "\<lambda>_. []" demo_document "[]"]
  show ?thesis unfolding l
    by (simp add: demo_config_datas ConfigVar_def parse_into_def nat_type_def node_text_def)
qed

end
