(* ===== verification/Log_Init.thy ===== *)
theory Log_Init
  imports Log_Conf_Listener Config_Registry
begin

text \<open>
  The variable \<open>logs\<close> and its listener, as the static initialisers of gwn/log.cc set them up
  (\<open>g_log_defines\<close> and \<open>LogIniter\<close>), and what any sequence of configurations does to the loggers:
  the configuration variable, the conversions and the listener composed.
\<close>

text \<open>
  The state a listener acts on is the store of the loggers, or the crash it ended in.
\<close>

type_synonym logs_var = "(log_define std_set, log_error + log_store) config_var"

definition g_log_defines ::
  "yaml_lib \<Rightarrow> string \<Rightarrow> (log_define std_set, log_error + log_store) config \<Rightarrow>
     lookup_result \<times> (log_define std_set, log_error + log_store) config"
where
  "g_log_defines lib tn c = Config_LookUp_default (log_defines_type lib tn) ''logs'' [] ''logs config'' c"

definition logs_listener ::
  "(string \<Rightarrow> u64 \<Rightarrow> string) \<Rightarrow> log_context \<Rightarrow> string \<Rightarrow> (log_define std_set, log_error + log_store) listener"
where
  "logs_listener strf cx src old_value new_value w =
     (bind_log w (on_logger_conf_changed strf cx src old_value new_value), None)"

definition LogIniter ::
  "(string \<Rightarrow> u64 \<Rightarrow> string) \<Rightarrow> log_context \<Rightarrow> string \<Rightarrow> u64 \<Rightarrow> logs_var \<Rightarrow> u64 \<times> u64 \<times> logs_var"
where
  "LogIniter strf cx src s_fun_id cv = ConfigVar_addListener (Some (logs_listener strf cx src)) s_fun_id cv"

text \<open>A sequence of texts given to the variable.\<close>

fun reconfigure :: "string list \<Rightarrow> logs_var \<Rightarrow> log_error + log_store \<Rightarrow> logs_var \<times> (log_error + log_store)" where
  "reconfigure [] cv w = (cv, w)"
| "reconfigure (text # texts) cv w =
     (case ConfigVar_fromString text cv w of (ok, cv', w', ms) \<Rightarrow> reconfigure texts cv' w')"

section \<open>The definitions in force\<close>

text \<open>
  What the texts mean, apart from the loggers: the value of the variable, and for each definition of
  the value the one that its logger follows, which is in force. A text that does not convert
  changes nothing, and neither does one whose definitions have the names, levels and formatters of the
  value, as \<open>operator==\<close> does not look at appenders. Otherwise the value is the set of the text; a
  definition whose name, level and formatter are not in the value before comes in force, appenders
  included; for the others the definition of that name stays in force.
\<close>

definition put_in_force :: "log_define std_set \<Rightarrow> log_define list \<Rightarrow> log_define \<Rightarrow> log_define" where
  "put_in_force v force d =
     (if list_ex (same_header d) v
      then (case find (\<lambda>e. ld_name e = ld_name d) force of Some e \<Rightarrow> e | None \<Rightarrow> d)
      else d)"

definition logs_step ::
  "yaml_lib \<Rightarrow> string \<Rightarrow> log_define std_set \<times> log_define list \<Rightarrow> string \<Rightarrow> log_define std_set \<times> log_define list"
where
  "logs_step lib tn vf text = (case vf of (v, force) \<Rightarrow>
     (case vt_from (log_defines_type lib tn) text of
        Inl e \<Rightarrow> (v, force)
      | Inr new \<Rightarrow> if list_all2 same_header new v then (v, force) else (new, map (put_in_force v force) new)))"

definition logs_history :: "yaml_lib \<Rightarrow> string \<Rightarrow> string list \<Rightarrow> log_define std_set \<times> log_define list" where
  "logs_history lib tn texts = foldl (logs_step lib tn) ([], []) texts"

section \<open>The invariant\<close>

text \<open>The loggers do what the definitions in force say.\<close>

definition logs_ok ::
  "yaml_lib \<Rightarrow> string \<Rightarrow> (log_define std_set, log_error + log_store) listener \<Rightarrow> logs_var \<Rightarrow>
     log_define list \<Rightarrow> log_store \<Rightarrow> bool"
where
  "logs_ok lib tn L cv force s \<longleftrightarrow> cv_type cv = log_defines_type lib tn \<and> map snd (cv_cbs cv) = [Some L] \<and>
     sorted_wrt (<) (map ld_name (cv_val cv)) \<and> store_ok s \<and>
     list_all2 same_header (cv_val cv) force \<and> (\<forall>e \<in> set force. configured s e)"

lemma same_header_name: "same_header d e \<Longrightarrow> ld_name e = ld_name d"
  by (simp add: same_header_def)

lemma same_header_trans: "same_header d it \<Longrightarrow> same_header it e \<Longrightarrow> same_header d e"
  by (simp add: same_header_def)

lemma differs_header:
  assumes "distinct (map ld_name v)"
  shows "differs v d \<longleftrightarrow> \<not> list_ex (same_header d) v"
proof (cases "find (\<lambda>it. ld_name it = ld_name d) v")
  case None
  then have "\<not> list_ex (same_header d) v" by (auto simp: find_None_iff list_ex_iff same_header_def)
  with None show ?thesis by (simp add: differs_def set_find_name)
next
  case (Some it)
  then have it: "it \<in> set v" "ld_name it = ld_name d" by (auto simp: find_Some_iff)
  have "it' = it" if "it' \<in> set v" "same_header d it'" for it'
    using assms it that by (metis distinct_map inj_onD same_header_name)
  with it(1) have "list_ex (same_header d) v \<longleftrightarrow> same_header d it" by (auto simp: list_ex_iff)
  with Some show ?thesis by (simp add: differs_def set_find_name LogDefine_eq_iff same_header_def)
qed

text \<open>A definition that is not new: the one in force has its name, level and formatter.\<close>

lemma put_in_force_old:
  assumes "distinct (map ld_name v)" and "list_all2 same_header v force" and "list_ex (same_header d) v"
  shows "same_header d (put_in_force v force d) \<and> put_in_force v force d \<in> set force"
proof -
  obtain i where i: "i < length v" "same_header d (v ! i)"
    using assms(3) by (auto simp: list_ex_iff in_set_conv_nth)
  have len: "length force = length v" and same: "same_header (v ! j) (force ! j)" if "j < length v" for j
    using assms(2) that by (auto simp: list_all2_conv_all_nth)
  have "find (\<lambda>e. ld_name e = ld_name d) force \<noteq> None"
    using i same [OF i(1)] len [OF i(1)] by (auto simp: find_None_iff in_set_conv_nth same_header_def)
  then obtain e where e: "find (\<lambda>e. ld_name e = ld_name d) force = Some e" by blast
  then obtain j where j: "j < length force" "e = force ! j" "ld_name e = ld_name d" by (auto simp: find_Some_iff)
  then have jv: "j < length v" using len [OF i(1)] by simp
  then have "ld_name (v ! j) = ld_name (v ! i)" using same [OF jv] j i(2) by (simp add: same_header_def)
  then have "j = i" using assms(1) i(1) jv by (auto simp: distinct_conv_nth)
  then have "same_header d e" using same [OF jv] j(2) i(2) same_header_trans by blast
  with e assms(3) j show ?thesis by (simp add: put_in_force_def)
qed

lemma fromString_step:
  assumes inv: "logs_ok lib tn (logs_listener strf cx src) cv force s"
    and st: "logs_step lib tn (cv_val cv, force) text = (v', force')"
  obtains s' where "\<exists>ok ms. ConfigVar_fromString text cv (Inr s) = (ok, cv\<lparr>cv_val := v'\<rparr>, Inr s', ms)"
    and "logs_ok lib tn (logs_listener strf cx src) (cv\<lparr>cv_val := v'\<rparr>) force' s'"
proof -
  have ty: "cv_type cv = log_defines_type lib tn" and cbs: "map snd (cv_cbs cv) = [Some (logs_listener strf cx src)]"
    and names: "sorted_wrt (<) (map ld_name (cv_val cv))" and store: "store_ok s"
    and same: "list_all2 same_header (cv_val cv) force" and app: "\<forall>e \<in> set force. configured s e"
    using inv by (simp_all add: logs_ok_def)
  have keep: "cv\<lparr>cv_val := cv_val cv\<rparr> = cv" by simp
  show thesis
  proof (cases "vt_from (log_defines_type lib tn) text")
    case (Inl e)
    then show thesis using inv ty st
      by (intro that [of s]) (auto simp: ConfigVar_fromString_def logs_step_def keep)
  next
    case (Inr new)
    note v = logs_value [OF this]
    have eq: "vt_eq (cv_type cv) new (cv_val cv) \<longleftrightarrow> list_all2 same_header new (cv_val cv)"
      by (simp add: ty log_defines_type_def logs_eq_headers)
    show thesis
    proof (cases "list_all2 same_header new (cv_val cv)")
      case True
      with eq Inr st have "v' = cv_val cv" "force' = force" by (simp_all add: logs_step_def)
      with True eq inv ty Inr show thesis
        by (intro that [of s]) (auto simp: ConfigVar_fromString_def ConfigVar_setValue_def setValue_notify_def keep)
    next
      case False
      then have v': "v' = new" "force' = map (put_in_force (cv_val cv) force) new"
        using Inr st by (auto simp: logs_step_def)
      have d: "distinct (map ld_name (cv_val cv))" using names by (simp add: strict_sorted_iff)
      obtain s' where s': "on_logger_conf_changed strf cx src (cv_val cv) new s = Inr s'" "store_ok s'"
        "\<And>d. d \<in> set new \<Longrightarrow> differs (cv_val cv) d \<Longrightarrow> configured s' d"
        "\<And>d. d \<in> set (cv_val cv) \<Longrightarrow> set_find LogDefine_less new d = None \<Longrightarrow> deconfigured s' d"
        "\<And>d e. d \<in> set new \<Longrightarrow> \<not> differs (cv_val cv) d \<Longrightarrow> ld_name e = ld_name d \<Longrightarrow> configured s e \<Longrightarrow> configured s' e"
        by (rule listener_runs [OF store v(1) d v(3), of strf cx src]) (blast intro: that)
      have new: "same_header d (put_in_force (cv_val cv) force d) \<and> configured s' (put_in_force (cv_val cv) force d)"
        if "d \<in> set new" for d
      proof (cases "differs (cv_val cv) d")
        case True
        with s'(3) [OF that] show ?thesis by (simp add: differs_header [OF d] put_in_force_def same_header_def)
      next
        case old: False
        then have "list_ex (same_header d) (cv_val cv)" by (simp add: differs_header [OF d])
        from put_in_force_old [OF d same this] app s'(5) [OF that old] show ?thesis
          by (auto dest: same_header_name)
      qed
      then have "list_all2 same_header new (map (put_in_force (cv_val cv) force) new)"
        by (simp add: list_all2_conv_all_nth)
      with new have "logs_ok lib tn (logs_listener strf cx src) (cv\<lparr>cv_val := v'\<rparr>) force' s'"
        using ty cbs v(2) s'(2) by (auto simp: logs_ok_def v')
      moreover have "ConfigVar_fromString text cv (Inr s) = (True, cv\<lparr>cv_val := v'\<rparr>, Inr s', [])"
        using False eq Inr ty cbs s'(1)
        by (simp add: ConfigVar_fromString_def ConfigVar_setValue_def setValue_notify_def setValue_store_def
            logs_listener_def v')
      ultimately show thesis by (intro that [of s']) auto
    qed
  qed
qed

lemma reconfigure_ok:
  "logs_ok lib tn (logs_listener strf cx src) cv force s \<Longrightarrow> reconfigure texts cv (Inr s) = (cv', w) \<Longrightarrow>
     foldl (logs_step lib tn) (cv_val cv, force) texts = (v', force') \<Longrightarrow>
     \<exists>s'. w = Inr s' \<and> cv_val cv' = v' \<and> logs_ok lib tn (logs_listener strf cx src) cv' force' s'"
proof (induction texts arbitrary: cv force s)
  case (Cons t ts)
  obtain v1 force1 where st: "logs_step lib tn (cv_val cv, force) t = (v1, force1)" by force
  obtain s1 where 1: "\<exists>ok ms. ConfigVar_fromString t cv (Inr s) = (ok, cv\<lparr>cv_val := v1\<rparr>, Inr s1, ms)"
    "logs_ok lib tn (logs_listener strf cx src) (cv\<lparr>cv_val := v1\<rparr>) force1 s1"
    by (rule fromString_step [OF Cons.prems(1) st])
  with Cons.IH [OF 1(2)] Cons.prems(2,3) st show ?case by auto
qed auto

lemma LogIniter_ok:
  assumes "g_log_defines lib tn config_empty = (FoundVar a, c)"
    and "LogIniter strf cx src s_fun_id (cf_vars c ! a) = (i, j, cv)" and "store_ok s"
  shows "logs_ok lib tn (logs_listener strf cx src) cv [] s" and "cv_val cv = []"
  using assms
  by (auto simp: g_log_defines_def Config_LookUp_default_def config_empty_def ConfigVar_def LogIniter_def
      ConfigVar_addListener_def Let_def logs_ok_def split: if_splits)

lemma reconfigure_in_force:
  assumes "log_reach strf s" and "g_log_defines lib tn config_empty = (FoundVar a, c)"
    and "LogIniter strf cx src s_fun_id (cf_vars c ! a) = (i, j, cv)"
    and "reconfigure texts cv (Inr s) = (cv', w)"
  shows "\<exists>s'. w = Inr s' \<and> store_ok s' \<and> sorted_wrt (<) (map ld_name (cv_val cv')) \<and>
    cv_val cv' = fst (logs_history lib tn texts) \<and>
    list_all2 same_header (cv_val cv') (snd (logs_history lib tn texts)) \<and>
    (\<forall>e \<in> set (snd (logs_history lib tn texts)). configured s' e)"
proof -
  note init = LogIniter_ok [OF assms(2,3) log_reach_ok [OF assms(1)]]
  obtain v' force' where h: "logs_history lib tn texts = (v', force')" by force
  then have "foldl (logs_step lib tn) (cv_val cv, []) texts = (v', force')" by (simp add: logs_history_def init(2))
  from reconfigure_ok [OF init(1) assms(4) this] h show ?thesis by (auto simp: logs_ok_def)
qed

text \<open>
  C4: After the static initialisation, on any store that calls without null formatters reach,
  whatever texts are given to the variable \<open>logs\<close> one after the other, valid or not, the
  loggers never crash, the store stays well-formed, and the value is the set of definitions with
  ascending names that the texts mean. For each of them there is the definition in force, that of
  the last text which changed name, level or formatter for this name: its logger has its level, its
  formatter when that is valid, and exactly its appenders, in order, each with its level, file and
  formatter.
\<close>

theorem reconfiguration_safe:
  assumes "log_reach strf s" and "g_log_defines lib tn config_empty = (FoundVar a, c)"
    and "LogIniter strf cx src s_fun_id (cf_vars c ! a) = (i, j, cv)"
    and "reconfigure texts cv (Inr s) = (cv', w)"
  shows "\<exists>s'. w = Inr s' \<and> store_ok s' \<and> sorted_wrt (<) (map ld_name (cv_val cv')) \<and>
    cv_val cv' = fst (logs_history lib tn texts) \<and>
    list_all2 same_header (cv_val cv') (snd (logs_history lib tn texts)) \<and>
    (\<forall>e \<in> set (snd (logs_history lib tn texts)). configured s' e)"
  using assms by (rule reconfigure_in_force)

text \<open>The example: a text with one definition and two appenders, then one that is no YAML.\<close>

lemma demo_history: "logs_history logs_lib tn [''- x''] = ([drop_levels demo_define], [drop_levels demo_define])"
  by (simp add: logs_history_def logs_step_def logs_lib_value put_in_force_def)

lemma demo_history_more: "logs_history logs_lib tn [''- x'', ''y''] = ([drop_levels demo_define], [drop_levels demo_define])"
proof -
  have "\<exists>e. vt_from (log_defines_type logs_lib tn) ''y'' = Inl e"
    by (simp add: log_defines_type_def set_from_def lift_parse_def bind_parse_def logs_lib_def demo_lib_def)
  with demo_history [of tn] show ?thesis by (auto simp: logs_history_def logs_step_def)
qed

theorem reconfiguration_safe_witness:
  "\<exists>c cv i j. g_log_defines logs_lib ''set'' config_empty = (FoundVar 0, c) \<and>
     LogIniter (\<lambda>f t. f) example_context ''log.cc'' 0 (cf_vars c ! 0) = (i, j, cv) \<and>
     (\<exists>s s'. LoggerManager_new example_world = Inr s \<and>
        snd (reconfigure [''- x'', ''y''] cv (Inr s)) = Inr s' \<and> store_ok s' \<and>
        configured s' (drop_levels demo_define))"
proof -
  obtain s where s: "LoggerManager_new example_world = Inr s" by (simp add: LoggerManager_new_eq)
  obtain c where c: "g_log_defines logs_lib ''set'' config_empty = (FoundVar 0, c)"
    by (simp add: g_log_defines_def Config_LookUp_default_def config_empty_def valid_name_def name_chars_def)
  obtain i j cv where i: "LogIniter (\<lambda>f t. f) example_context ''log.cc'' 0 (cf_vars c ! 0) = (i, j, cv)"
    by (cases "LogIniter (\<lambda>f t. f) example_context ''log.cc'' 0 (cf_vars c ! 0)") auto
  from reconfiguration_safe [OF log_reach.start [OF s] c i prod.collapse [symmetric], of "[''- x'', ''y'']"] s c i
  show ?thesis by (auto simp: demo_history_more)
qed

end
