(* ===== verification/Log_Output.thy ===== *)
theory Log_Output
  imports Log_Init
begin

text \<open>
  From YAML documents to the console: what a message that is logged through the macros writes
  when the loggers were set up by the variable \<open>logs\<close>. The pieces are the loading of a document,
  the conversion of the configuration, its listener, the manager, the level gates, the appenders
  and the formatters.
\<close>

section \<open>The console text of a list of appenders\<close>

text \<open>A file stream that is open and can be opened again: nothing is said on the console.\<close>

definition file_ready :: "file_state \<Rightarrow> world \<Rightarrow> bool" where
  "file_ready fa w \<longleftrightarrow>
     os_file (fa_filestream fa) \<noteq> None \<and> \<not> os_fail (fa_filestream fa) \<and> w_openable w (fa_filename fa)"

definition appender_ready :: "log_appender \<Rightarrow> world \<Rightarrow> bool" where
  "appender_ready ap w \<longleftrightarrow> ap_formatter ap \<noteq> None \<and>
     (case ap_impl ap of StdoutAppender \<Rightarrow> True | FileAppender fa \<Rightarrow> file_ready fa w)"

definition console_line :: "fmt_env \<Rightarrow> log_level \<Rightarrow> log_event \<Rightarrow> log_appender \<Rightarrow> string" where
  "console_line env level e ap =
     (if ap_impl ap = StdoutAppender \<and> ap_level ap \<le> level
      then LogFormatter_format env (the (ap_formatter ap)) level e else [])"

lemma reopen_ready:
  assumes "file_ready fa w" and "FileLogAppender_reopen fa w = (b, fa', w')"
  shows "file_ready fa' w'" and "w_cout w' = w_cout w" and "w_openable w' = w_openable w"
  using assms
  by (auto simp: file_ready_def FileLogAppender_reopen_def ofstream_close_def ofstream_open_def Let_def
      split: option.splits)

lemma write_ready:
  assumes "file_ready fa w" and "ofstream_write s (fa_filestream fa) w = (os, w')"
  shows "file_ready (fa\<lparr>fa_filestream := os\<rparr>) w'" and "\<not> os_fail os" and "w_cout w' = w_cout w"
    and "w_openable w' = w_openable w"
  using assms by (auto simp: file_ready_def ofstream_write_def split: if_splits option.splits)

lemma file_ready_lastTime [simp]: "file_ready (fa\<lparr>fa_lastTime := t\<rparr>) w = file_ready fa w"
  by (simp add: file_ready_def)

lemma file_log_ready:
  assumes "file_ready fa w" and "ap_impl ap = FileAppender fa"
    and "FileLogAppender_log env ap fa level e w = Inr (ap', w')"
  shows "w_cout w' = w_cout w \<and> w_openable w' = w_openable w \<and> (\<exists>fa'. ap_impl ap' = FileAppender fa' \<and> file_ready fa' w')"
proof (cases "ap_level ap \<le> level")
  case True
  obtain f where f: "ap_formatter ap = Some f"
    using assms(3) True by (cases "ap_formatter ap") (auto simp: FileLogAppender_log_def Let_def split: prod.splits)
  obtain b fa0 w0 where r: "FileLogAppender_reopen fa w = (b, fa0, w0)" by (rule prod_cases3)
  define fa1 w1 where "fa1 = (if fa_lastTime fa + 3 \<le> ev_time e then fa0\<lparr>fa_lastTime := ev_time e\<rparr> else fa)"
    and "w1 = (if fa_lastTime fa + 3 \<le> ev_time e then w0 else w)"
  have 1: "file_ready fa1 w1" "w_cout w1 = w_cout w" "w_openable w1 = w_openable w"
    using assms(1) reopen_ready [OF assms(1) r] by (auto simp: fa1_def w1_def)
  obtain os w2 where o: "ofstream_write (LogFormatter_format env f level e) (fa_filestream fa1) w1 = (os, w2)" by force
  have "ap' = ap\<lparr>ap_impl := FileAppender (fa1\<lparr>fa_filestream := os\<rparr>)\<rparr> \<and> w' = w2"
    using assms(3) True f r o write_ready(2) [OF 1(1) o]
    by (auto simp: FileLogAppender_log_def Let_def fa1_def w1_def simp del: LogFormatter_format.simps split: if_splits)
  with write_ready [OF 1(1) o] 1 show ?thesis by simp
qed (use assms in \<open>auto simp: FileLogAppender_log_def\<close>)

lemma log_ready:
  assumes "appender_ready ap w"
  shows "\<exists>ap' w'. LogAppender_log env ap level e w = Inr (ap', w') \<and> appender_ready ap' w' \<and>
    w_openable w' = w_openable w \<and> w_cout w' = w_cout w @ console_line env level e ap \<and>
    console_line env level e ap' = console_line env level e ap"
proof -
  obtain ap' w' where log: "LogAppender_log env ap level e w = Inr (ap', w')"
    using any_log.total [of ap env level e w] assms by (auto simp: appender_ready_def)
  note frame = any_log.frame [OF log]
  show ?thesis
  proof (cases "ap_impl ap")
    case StdoutAppender
    with log assms show ?thesis
      by (cases "ap_level ap \<le> level")
        (auto simp: LogAppender_log.simps StdoutLogAppender_log_def appender_ready_def console_line_def cout_def
          simp del: LogFormatter_format.simps)
  next
    case (FileAppender fa)
    with assms log have "file_ready fa w" "FileLogAppender_log env ap fa level e w = Inr (ap', w')"
      by (simp_all add: appender_ready_def LogAppender_log.simps)
    from file_log_ready [OF this(1) FileAppender this(2)] log frame assms FileAppender show ?thesis
      by (auto simp: appender_ready_def console_line_def)
  qed
qed

lemma ready_openable: "appender_ready ap w \<Longrightarrow> w_openable w' = w_openable w \<Longrightarrow> appender_ready ap w'"
  by (auto simp: appender_ready_def file_ready_def split: appender_impl.splits)

lemma run_appenders_text:
  assumes "\<forall>i \<in> set is. i < length aps \<and> appender_ready (aps ! i) w"
  shows "\<exists>aps' w'. run_appenders env is level e aps w = Inr (aps', w') \<and>
    w_cout w' = w_cout w @ concat (map (\<lambda>i. console_line env level e (aps ! i)) is)"
  using assms
proof (induction "is" arbitrary: aps w)
  case (Cons i js)
  then have i: "i < length aps" "appender_ready (aps ! i) w" by simp_all
  obtain ap w1 where 1: "LogAppender_log env (aps ! i) level e w = Inr (ap, w1)" "appender_ready ap w1"
    "w_openable w1 = w_openable w" "w_cout w1 = w_cout w @ console_line env level e (aps ! i)"
    "console_line env level e ap = console_line env level e (aps ! i)"
    using log_ready [OF i(2), of env level e] by blast
  have "\<forall>j \<in> set js. j < length (aps[i := ap]) \<and> appender_ready (aps[i := ap] ! j) w1"
    using Cons.prems 1(2) ready_openable [OF _ 1(3)] by (auto simp: nth_list_update)
  from Cons.IH [OF this] obtain aps' w' where 2: "run_appenders env js level e (aps[i := ap]) w1 = Inr (aps', w')"
    "w_cout w' = w_cout w1 @ concat (map (\<lambda>j. console_line env level e (aps[i := ap] ! j)) js)" by blast
  have "console_line env level e (aps[i := ap] ! j) = console_line env level e (aps ! j)" for j
    using 1(5) i(1) by (cases "j = i") simp_all
  with 1 2 i(1) show ?case by simp
qed simp

section \<open>File streams stay open\<close>

text \<open>Every file can be opened, and the streams of all file appenders are open.\<close>

definition files_ready :: "log_store \<Rightarrow> bool" where
  "files_ready s \<longleftrightarrow> (\<forall>f. w_openable (st_world s) f) \<and>
     (\<forall>ap \<in> set (st_appenders s). \<forall>fa. ap_impl ap = FileAppender fa \<longrightarrow>
        os_file (fa_filestream fa) \<noteq> None \<and> \<not> os_fail (fa_filestream fa))"

lemma files_ready_impl:
  assumes "files_ready s" and "w_openable (st_world s') = w_openable (st_world s)"
    and "\<And>ap. ap \<in> set (st_appenders s') \<Longrightarrow> \<exists>ap0 \<in> set (st_appenders s). ap_impl ap = ap_impl ap0"
  shows "files_ready s'"
  using assms unfolding files_ready_def by metis

lemma files_ready_print [intro]: "files_ready s \<Longrightarrow> files_ready (print t s)"
  by (erule files_ready_impl) (auto simp: print_def cout_def)

lemma files_ready_logger [intro]: "files_ready s \<Longrightarrow> files_ready (update_logger a g s)"
  by (erule files_ready_impl) (auto simp: update_logger_def)

lemma files_ready_setLevel: "files_ready s \<Longrightarrow> Logger_setLevel a l s = Inr s' \<Longrightarrow> files_ready s'"
  by (auto simp: Logger_setLevel_def split: if_splits)

lemma files_ready_clear: "files_ready s \<Longrightarrow> Logger_clearAppenders a s = Inr s' \<Longrightarrow> files_ready s'"
  by (auto simp: Logger_clearAppenders_def split: if_splits)

lemma inherit_impl: "ap \<in> set (foldl (inherit_formatter val) aps is) \<Longrightarrow> \<exists>ap0 \<in> set aps. ap_impl ap = ap_impl ap0"
proof -
  assume "ap \<in> set (foldl (inherit_formatter val) aps is)"
  then obtain i where "i < length aps" "ap = foldl (inherit_formatter val) aps is ! i" by (auto simp: in_set_conv_nth)
  then have "ap_impl ap = ap_impl (aps ! i)" "aps ! i \<in> set aps" by (auto simp: foldl_inherit_nth)
  then show ?thesis by blast
qed

lemma files_ready_setFormatter: "files_ready s \<Longrightarrow> Logger_setFormatter a val s = Inr s' \<Longrightarrow> files_ready s'"
  by (erule files_ready_impl)
    (auto simp: Logger_setFormatter_def Let_def update_logger_def dest: inherit_impl split: if_splits)

lemma files_ready_setFormatter_str: "files_ready s \<Longrightarrow> Logger_setFormatter_str a val s = Inr s' \<Longrightarrow> files_ready s'"
  by (auto simp: Logger_setFormatter_str_def Let_def dest!: files_ready_setFormatter [rotated] split: if_splits prod.splits)

lemma files_ready_addAppender:
  assumes "files_ready s" and "Logger_addAppender a i s = Inr s'"
  shows "files_ready s'"
proof (rule files_ready_impl [OF assms(1)])
  show "w_openable (st_world s') = w_openable (st_world s)"
    using assms(2) by (auto simp: Logger_addAppender_def Let_def update_logger_def update_appender_def split: if_splits)
  fix ap assume "ap \<in> set (st_appenders s')"
  moreover have i: "i < length (st_appenders s)"
    and "st_appenders s' = st_appenders s \<or>
      st_appenders s' = (st_appenders s)[i := (st_appenders s ! i)\<lparr>ap_formatter := lg_formatter (st_loggers s ! a)\<rparr>]"
    using assms(2) by (auto simp: Logger_addAppender_def Let_def update_logger_def update_appender_def split: if_splits)
  ultimately have "ap \<in> set (st_appenders s) \<or> ap = (st_appenders s ! i)\<lparr>ap_formatter := lg_formatter (st_loggers s ! a)\<rparr>"
    using set_update_subset_insert by fastforce
  with i show "\<exists>ap0 \<in> set (st_appenders s). ap_impl ap = ap_impl ap0" by (auto intro: bexI [OF _ nth_mem])
qed

lemma files_ready_getLogger: "files_ready s \<Longrightarrow> LoggerManager_getLogger name s = (a, s') \<Longrightarrow> files_ready s'"
  by (erule files_ready_impl) (auto simp: LoggerManager_getLogger_def alloc_logger_def split: option.splits)

lemma files_ready_conf_appender:
  assumes "files_ready s" and "conf_appender name a d s = Inr s'"
  shows "files_ready s'"
proof -
  obtain ap s1 where m: "make_appender d s = Inr (ap, s1)"
    using assms(2) by (cases "make_appender d s") (auto simp: conf_appender_def)
  obtain ap2 s2 where f: "format_appender name d (LogAppender_setLevel (ad_level d) ap) s1 = (ap2, s2)" by force
  have s1: "files_ready s1 \<and> st_appenders s1 = st_appenders s \<and>
      (\<forall>fa. ap_impl ap = FileAppender fa \<longrightarrow> os_file (fa_filestream fa) \<noteq> None \<and> \<not> os_fail (fa_filestream fa))"
    using m assms(1)
    by (auto simp: make_appender_def files_ready_def StdoutLogAppender_def FileLogAppender_def
        FileLogAppender_reopen_def ofstream_new_def ofstream_close_def ofstream_open_def split: if_splits)
  then have "files_ready s2 \<and> ap_impl ap2 = ap_impl ap"
    using f by (auto simp: format_appender_def LogAppender_setFormatter_def LogAppender_setLevel_def split: if_splits prod.splits)
  with s1 have "files_ready (snd (alloc_appender ap2 s2))" by (auto simp: alloc_appender_def files_ready_def)
  with assms(2) m f show ?thesis by (auto simp: conf_appender_def split: prod.splits intro: files_ready_addAppender)
qed

lemma files_ready_conf_appenders: "files_ready s \<Longrightarrow> conf_appenders name a ds s = Inr s' \<Longrightarrow> files_ready s'"
proof (induction ds arbitrary: s)
  case (Cons d ds)
  then show ?case
    by (cases "conf_appender name a d s") (auto dest: files_ready_conf_appender)
qed simp

lemma bind_log_Inr: "bind_log x f = Inr y \<longleftrightarrow> (\<exists>z. x = Inr z \<and> f z = Inr y)"
  by (cases x) simp_all

lemma files_ready_conf_logger: "files_ready s \<Longrightarrow> conf_logger d s = Inr s' \<Longrightarrow> files_ready s'"
  by (auto simp: conf_logger_def bind_log_Inr split: prod.splits if_splits
      dest!: files_ready_conf_appenders [rotated] files_ready_clear [rotated] files_ready_setFormatter_str [rotated]
        files_ready_setLevel [rotated] files_ready_getLogger [rotated])

lemma files_ready_conf_delete: "files_ready s \<Longrightarrow> conf_delete d s = Inr s' \<Longrightarrow> files_ready s'"
  by (auto simp: conf_delete_def bind_log_Inr split: prod.splits
      dest!: files_ready_clear [rotated] files_ready_setLevel [rotated] files_ready_getLogger [rotated])

lemma files_ready_changed: "files_ready s \<Longrightarrow> conf_changed old ds s = Inr s' \<Longrightarrow> files_ready s'"
  by (induction old ds s rule: conf_changed.induct)
    (auto simp: bind_log_Inr split: option.splits if_splits dest: files_ready_conf_logger)

lemma files_ready_removed: "files_ready s \<Longrightarrow> conf_removed new ds s = Inr s' \<Longrightarrow> files_ready s'"
  by (induction new ds s rule: conf_removed.induct)
    (auto simp: bind_log_Inr split: option.splits if_splits dest: files_ready_conf_delete)

lemma run_appenders_ready:
  assumes "run_appenders env is level e aps w = Inr (aps', w')" and "\<forall>f. w_openable w f"
    and "\<forall>ap \<in> set aps. \<forall>fa. ap_impl ap = FileAppender fa \<longrightarrow> os_file (fa_filestream fa) \<noteq> None \<and> \<not> os_fail (fa_filestream fa)"
  shows "(\<forall>f. w_openable w' f) \<and>
    (\<forall>ap \<in> set aps'. \<forall>fa. ap_impl ap = FileAppender fa \<longrightarrow> os_file (fa_filestream fa) \<noteq> None \<and> \<not> os_fail (fa_filestream fa))"
  using assms
proof (induction env "is" level e aps w rule: run_appenders.induct)
  case (2 env i "is" level e aps w)
  then obtain ap w1 where 1: "i < length aps" "LogAppender_log env (aps ! i) level e w = Inr (ap, w1)"
    "run_appenders env is level e (aps[i := ap]) w1 = Inr (aps', w')"
    by (auto split: if_splits sum.splits)
  have new: "(\<forall>f. w_openable w1 f) \<and> (\<forall>fa. ap_impl ap = FileAppender fa \<longrightarrow> os_file (fa_filestream fa) \<noteq> None \<and> \<not> os_fail (fa_filestream fa))"
  proof (cases "ap_impl (aps ! i)")
    case StdoutAppender
    with 1(2) 2(3) show ?thesis
      by (auto simp: LogAppender_log.simps StdoutLogAppender_log_def cout_def split: if_splits option.splits)
  next
    case (FileAppender fa)
    with 1(1) 2(3,4) have r: "file_ready fa w" by (auto simp: file_ready_def)
    have "FileLogAppender_log env (aps ! i) fa level e w = Inr (ap, w1)"
      using 1(2) FileAppender by (simp add: LogAppender_log.simps)
    from file_log_ready [OF r FileAppender this] 2(3) show ?thesis by (auto simp: file_ready_def)
  qed
  moreover have "ap' = ap \<or> ap' \<in> set aps" if "ap' \<in> set (aps[i := ap])" for ap'
    using that set_update_subset_insert by fastforce
  ultimately show ?case using 2(1) [OF 1(1,2) HOL.refl 1(3)] 2(4) by blast
qed simp

lemma files_ready_log: "Logger_log_held strf held a level e s = Inr s' \<Longrightarrow> files_ready s \<Longrightarrow> files_ready s'"
proof (induction strf held a level e s rule: Logger_log_held.induct)
  case (1 strf held a level e s)
  then show ?case
    by (auto simp: Logger_log_held.simps [of strf held a level e s] files_ready_def split: if_splits sum.splits option.splits
        dest!: run_appenders_ready)
qed

lemma files_ready_listener:
  assumes "store_ok s" and "files_ready s" and run: "on_logger_conf_changed strf cx src old new s = Inr s'"
  shows "files_ready s'"
proof -
  have root: "LoggerManager_getRoot s < length (st_loggers s)"
    using store_ok_mgr [OF assms(1)] by (simp add: mgr_ok_def LoggerManager_getRoot_def)
  obtain s1 s2 where 1: "gwn_LOG_LEVEL strf cx src 699 (LoggerManager_getRoot s) INFO ''on_logger_conf_changed'' s = Inr s1"
    and 2: "conf_changed old new s1 = Inr s2" "conf_removed new old s2 = Inr s'"
    using run by (auto simp: on_logger_conf_changed_def bind_log_Inr)
  have "s1 = s \<or> (\<exists>e. Logger_log_held strf [] (LoggerManager_getRoot s) INFO e s = Inr s1)"
    using gwn_LOG_LEVEL_cases [OF root, of strf cx src 699 INFO "''on_logger_conf_changed''"] 1
    by (auto simp: Logger_log_def)
  with assms(2) have "files_ready s1" by (auto dest: files_ready_log)
  then show ?thesis using 2 by (blast intro: files_ready_changed files_ready_removed)
qed

lemma fromString_listener:
  assumes "map snd (cv_cbs cv) = [Some (logs_listener strf cx src)]"
    and "ConfigVar_fromString text cv (Inr s) = (ok, cv', w', ms)"
  shows "w' = Inr s \<or> (\<exists>new. w' = on_logger_conf_changed strf cx src (cv_val cv) new s)"
proof -
  obtain k where "cv_cbs cv = [(k, Some (logs_listener strf cx src))]" using assms(1) by auto
  with assms(2) show ?thesis
    by (auto simp: ConfigVar_fromString_def ConfigVar_setValue_def setValue_notify_def logs_listener_def
        split: sum.splits if_splits option.splits prod.splits)
qed

lemma reconfigure_ready:
  assumes "logs_ok lib tn (logs_listener strf cx src) cv force s" and "files_ready s"
    and "reconfigure texts cv (Inr s) = (cv', Inr s')"
  shows "files_ready s'"
  using assms
proof (induction texts arbitrary: cv force s)
  case (Cons t ts)
  obtain v1 force1 where st: "logs_step lib tn (cv_val cv, force) t = (v1, force1)" by force
  obtain ok ms cv1 s1 where 1: "ConfigVar_fromString t cv (Inr s) = (ok, cv1, Inr s1, ms)"
    "logs_ok lib tn (logs_listener strf cx src) cv1 force1 s1"
    using fromString_step [OF Cons.prems(1) st] by metis
  have "files_ready s1"
  proof -
    have cbs: "map snd (cv_cbs cv) = [Some (logs_listener strf cx src)]" and ok: "store_ok s"
      using Cons.prems(1) by (simp_all add: logs_ok_def)
    from fromString_listener [OF cbs 1(1)] show ?thesis
    proof
      assume "\<exists>new. Inr s1 = on_logger_conf_changed strf cx src (cv_val cv) new s"
      then obtain new where "on_logger_conf_changed strf cx src (cv_val cv) new s = Inr s1" by metis
      with ok Cons.prems(2) show ?thesis by (rule files_ready_listener)
    qed (use Cons.prems(2) in simp)
  qed
  with Cons.IH [OF 1(2)] Cons.prems(3) 1(1) show ?case by simp
qed simp

section \<open>The console text of a definition\<close>

text \<open>What the appenders of a definition print; \<open>lf\<close> is the formatter of the logger.\<close>

definition define_line :: "fmt_env \<Rightarrow> log_formatter option \<Rightarrow> log_level \<Rightarrow> log_event \<Rightarrow> log_appender_define \<Rightarrow> string" where
  "define_line env lf level e d =
     (if ad_type d \<noteq> 1 \<and> ad_level d \<le> level
      then LogFormatter_format env (the (case valid_formatter (ad_formatter d) of None \<Rightarrow> lf | Some f \<Rightarrow> Some f)) level e
      else [])"

lemma key_line: "ap_key ap = define_key lf d \<Longrightarrow> console_line env level e ap = define_line env lf level e d"
  by (auto simp: ap_key_def define_key_def console_line_def define_line_def split: appender_impl.splits if_splits)

lemma match_lines:
  "appenders_match s lf is ds \<Longrightarrow>
     map (\<lambda>i. console_line env level e (st_appenders s ! i)) is = map (define_line env lf level e) ds"
  by (induction "is" arbitrary: ds) (auto simp: appenders_match_def list_all2_Cons1 intro: key_line)

text \<open>The event that the macro builds.\<close>

definition macro_event :: "log_context \<Rightarrow> string \<Rightarrow> u32 \<Rightarrow> nat \<Rightarrow> log_level \<Rightarrow> string \<Rightarrow> log_event" where
  "macro_event cx src line a level msg =
     event_stream msg (LogEvent a level src line 0 (cx_threadId cx) (cx_fiberId cx) (cx_time cx) (cx_threadName cx))"

lemma configured_prints:
  assumes ok: "store_ok s" and d: "configured s d" and pass: "ld_level d \<le> level" and some: "ld_appenders d \<noteq> []"
    and ready: "\<forall>ap \<in> set (st_appenders s). \<forall>fa. ap_impl ap = FileAppender fa \<longrightarrow> file_ready fa (st_world s)"
  shows "\<exists>a s'. map_find (st_mgr_loggers s) (ld_name d) = Some a \<and>
    gwn_LOG_LEVEL strf cx src line a level msg s = Inr s' \<and>
    w_cout (st_world s') = w_cout (st_world s) @ concat (map (define_line (store_env strf s)
      (lg_formatter (st_loggers s ! a)) level (macro_event cx src line a level msg)) (ld_appenders d))"
proof -
  obtain a where a: "map_find (st_mgr_loggers s) (ld_name d) = Some a" "lg_level (st_loggers s ! a) = ld_level d"
    "appenders_match s (lg_formatter (st_loggers s ! a)) (lg_appenders (st_loggers s ! a)) (ld_appenders d)"
    using d by (auto simp: configured_def)
  have len: "a < length (st_loggers s)" using store_ok_mgr [OF ok] a(1) by (simp add: mgr_ok_def)
  have some': "lg_appenders (st_loggers s ! a) \<noteq> []" using a(3) some by (auto simp: appenders_match_def)
  have "\<forall>i \<in> set (lg_appenders (st_loggers s ! a)). i < length (st_appenders s) \<and> appender_ready (st_appenders s ! i) (st_world s)"
    using store_ok_logger [OF ok len] ready
    by (auto simp: logger_ok_def appender_ready_def split: appender_impl.splits)
  from run_appenders_text [OF this, of "store_env strf s" level "macro_event cx src line a level msg"] obtain aps w where
    "run_appenders (store_env strf s) (lg_appenders (st_loggers s ! a)) level (macro_event cx src line a level msg)
        (st_appenders s) (st_world s) = Inr (aps, w)"
    and text': "w_cout w = w_cout (st_world s) @ concat (map (\<lambda>i. console_line (store_env strf s) level
        (macro_event cx src line a level msg) (st_appenders s ! i)) (lg_appenders (st_loggers s ! a)))" by blast
  moreover have "ev_logger (macro_event cx src line a level msg) = a" "ev_level (macro_event cx src line a level msg) = level"
    by (simp_all add: macro_event_def event_stream_def LogEvent_def)
  ultimately have "gwn_LOG_LEVEL strf cx src line a level msg s = Inr (s\<lparr>st_appenders := aps, st_world := w\<rparr>)"
    using len a(2) pass some'
    by (simp add: gwn_LOG_LEVEL_def LogEventWrap_destroy_def Logger_log_def Logger_log_held.simps [of strf "[]" a]
        flip: macro_event_def)
  with a(1) text' match_lines [OF a(3)] show ?thesis by auto
qed

text \<open>For the texts that were given to the variable one after the other.\<close>

lemma in_force_output:
  assumes "log_reach strf s" and "g_log_defines lib tn config_empty = (FoundVar v, c)"
    and "LogIniter strf cx src s_fun_id (cf_vars c ! v) = (i, j, cv)"
    and "reconfigure texts cv (Inr s) = (cv', Inr s')"
    and e: "e \<in> set (snd (logs_history lib tn texts))" and "ld_level e \<le> level"
    and "files_ready s"
  shows "\<exists>a lf. configured s' e \<and> map_find (st_mgr_loggers s') (ld_name e) = Some a \<and>
    lf = lg_formatter (st_loggers s' ! a) \<and> (valid_formatter (ld_formatter e) \<noteq> None \<longrightarrow> lf = valid_formatter (ld_formatter e)) \<and>
    (ld_appenders e \<noteq> [] \<longrightarrow> (\<exists>s2. gwn_LOG_LEVEL strf cx' file line a level msg s' = Inr s2 \<and>
       w_cout (st_world s2) = w_cout (st_world s') @ concat (map (define_line (store_env strf s') lf level
         (macro_event cx' file line a level msg)) (ld_appenders e))))"
proof -
  have ok: "store_ok s'" and conf: "configured s' e"
    using reconfigure_in_force [OF assms(1-4)] e by auto
  obtain a where a: "map_find (st_mgr_loggers s') (ld_name e) = Some a"
    "valid_formatter (ld_formatter e) \<noteq> None \<longrightarrow> lg_formatter (st_loggers s' ! a) = valid_formatter (ld_formatter e)"
    using conf by (auto simp: configured_def)
  have "files_ready s'"
    using reconfigure_ready [OF LogIniter_ok(1) [OF assms(2,3) log_reach_ok [OF assms(1)]] assms(7,4)] .
  then have "ld_appenders e \<noteq> [] \<longrightarrow> (\<exists>s2. gwn_LOG_LEVEL strf cx' file line a level msg s' = Inr s2 \<and>
       w_cout (st_world s2) = w_cout (st_world s') @ concat (map (define_line (store_env strf s')
         (lg_formatter (st_loggers s' ! a)) level (macro_event cx' file line a level msg)) (ld_appenders e)))"
    using a(1) assms(6) configured_prints [OF ok conf, of level strf cx' "file" line msg]
    by (auto simp: files_ready_def file_ready_def)
  with a conf show ?thesis by blast
qed

section \<open>Documents\<close>

text \<open>
  Loading documents into the registry as the static initialisers of log.cc leave it, with the one
  variable \<open>logs\<close>: the variable gets the texts that are listed under its name.
\<close>

lemma reconfigure_append:
  "reconfigure (xs @ ys) cv w = (case reconfigure xs cv w of (cv1, w1) \<Rightarrow> reconfigure ys cv1 w1)"
  by (induction xs cv w rule: reconfigure.induct) (auto split: prod.splits)

definition logs_only :: "(log_define std_set, log_error + log_store) config \<Rightarrow> logs_var \<Rightarrow> bool" where
  "logs_only c cv \<longleftrightarrow> cf_datas c = [(''logs'', 0)] \<and> cf_vars c = [cv]"

lemma logs_only_say [simp]: "logs_only (say ms c) cv = logs_only c cv"
  by (simp add: logs_only_def say_def)

definition logs_texts :: "(yaml \<Rightarrow> string) \<Rightarrow> (string \<times> yaml) list \<Rightarrow> string list" where
  "logs_texts emit_yaml nodes = map (\<lambda>i. node_text emit_yaml (snd i)) (filter (\<lambda>i. fst i = ''logs'') nodes)"

lemma load_member_logs:
  assumes "logs_only c cv" and "valid_name name" and "load_member emit_yaml (c, w) (name, node) = (c', w')"
  shows "\<exists>cv'. logs_only c' cv' \<and> reconfigure (logs_texts emit_yaml [(name, node)]) cv w = (cv', w')"
proof (cases "name = ''logs''")
  case True
  moreover have "map tolower ''logs'' = ''logs''" using assms(2) True valid_name_lower by blast
  ultimately have f: "Config_LookupBase (map tolower name) c = Some 0" "cf_vars c = [cv]"
    using assms(1) by (simp_all add: Config_LookupBase_def logs_only_def)
  obtain ok cv' w1 ms where "ConfigVar_fromString (node_text emit_yaml node) cv w = (ok, cv', w1, ms)"
    by (rule prod_cases4)
  with f assms(1,3) True show ?thesis
    by (auto simp: load_member_def logs_only_def logs_texts_def say_def)
next
  case False
  then have "Config_LookupBase (map tolower name) c = None"
    using assms(1) valid_name_lower [OF assms(2)] by (simp add: Config_LookupBase_def logs_only_def)
  with assms(1,3) False show ?thesis by (auto simp: load_member_def logs_texts_def split: if_splits)
qed

lemma load_members_logs:
  assumes "logs_only c cv" and "\<forall>i \<in> set nodes. valid_name (fst i)"
    and "foldl (load_member emit_yaml) (c, w) nodes = (c', w')"
  shows "\<exists>cv'. logs_only c' cv' \<and> reconfigure (logs_texts emit_yaml nodes) cv w = (cv', w')"
  using assms
proof (induction nodes arbitrary: c cv w)
  case (Cons i nodes)
  obtain name node where i: "i = (name, node)" by force
  obtain c1 w1 where 1: "load_member emit_yaml (c, w) (name, node) = (c1, w1)" by force
  obtain cv1 where cv1: "logs_only c1 cv1" "reconfigure (logs_texts emit_yaml [(name, node)]) cv w = (cv1, w1)"
    using load_member_logs [OF Cons.prems(1) _ 1] Cons.prems(2) i by auto
  obtain cv' where "logs_only c' cv'" "reconfigure (logs_texts emit_yaml nodes) cv1 w1 = (cv', w')"
    using Cons.IH [OF cv1(1)] Cons.prems(2,3) i 1 by auto
  moreover have "logs_texts emit_yaml (i # nodes) = logs_texts emit_yaml [(name, node)] @ logs_texts emit_yaml nodes"
    by (simp add: i logs_texts_def)
  ultimately show ?case using cv1(2) by (simp add: reconfigure_append)
qed (simp add: logs_texts_def)

definition load_documents ::
  "(yaml \<Rightarrow> string) \<Rightarrow> yaml list \<Rightarrow> (log_define std_set, log_error + log_store) config \<Rightarrow> log_error + log_store \<Rightarrow>
     (log_define std_set, log_error + log_store) config \<times> (log_error + log_store)"
where
  "load_documents emit_yaml roots c w = foldl (\<lambda>(c, w) root. Config_LoadFromYaml emit_yaml root c w) (c, w) roots"

definition documents_texts :: "(yaml \<Rightarrow> string) \<Rightarrow> yaml list \<Rightarrow> string list" where
  "documents_texts emit_yaml roots = concat (map (\<lambda>root. logs_texts emit_yaml (fst (ListAllMember emit_yaml [] root))) roots)"

lemma load_documents_logs:
  assumes "logs_only c cv" and "load_documents emit_yaml roots c w = (c', w')"
  shows "\<exists>cv'. logs_only c' cv' \<and> reconfigure (documents_texts emit_yaml roots) cv w = (cv', w')"
  using assms
proof (induction roots arbitrary: c cv w)
  case Nil
  then show ?case by (simp add: load_documents_def documents_texts_def)
next
  case (Cons root roots)
  obtain nodes ms where l: "ListAllMember emit_yaml [] root = (nodes, ms)" by force
  have names: "valid_name (fst i)" if "i \<in> set nodes" for i
  proof -
    obtain name n where i: "i = (name, n)" by force
    have "below [] root name n" using that l i list_below(1) [of name n emit_yaml "[]" root] by simp
    then show ?thesis using below_valid i by auto
  qed
  obtain c1 w1 where 1: "Config_LoadFromYaml emit_yaml root c w = (c1, w1)" by force
  then have "foldl (load_member emit_yaml) (say ms c, w) nodes = (c1, w1)"
    unfolding Config_LoadFromYaml_def l by simp
  from load_members_logs [OF _ _ this, of cv] Cons.prems(1) names obtain cv1 where
    cv1: "logs_only c1 cv1" "reconfigure (logs_texts emit_yaml nodes) cv w = (cv1, w1)" by auto
  have "load_documents emit_yaml roots c1 w1 = (c', w')" using Cons.prems(2) 1 by (simp add: load_documents_def)
  from Cons.IH [OF cv1(1) this] obtain cv' where
    "logs_only c' cv'" "reconfigure (documents_texts emit_yaml roots) cv1 w1 = (cv', w')" by blast
  moreover have "documents_texts emit_yaml (root # roots) = logs_texts emit_yaml nodes @ documents_texts emit_yaml roots"
    by (simp add: documents_texts_def l del: ListAllMember.simps)
  ultimately show ?case using cv1(2) by (simp add: reconfigure_append)
qed

lemma static_init_logs:
  assumes "g_log_defines lib tn config_empty = (FoundVar v, c)"
  shows "v = 0" and "\<exists>cv0. logs_only c cv0" and "logs_only (c\<lparr>cf_vars := (cf_vars c)[v := cv]\<rparr>) cv"
  using assms
  by (auto simp: g_log_defines_def Config_LookUp_default_def config_empty_def logs_only_def Let_def split: if_splits)

text \<open>
  C3: From YAML documents to the console: after the static initialisation any documents are
  loaded one after the other, and the loggers do not crash. The value of \<open>logs\<close> and the definitions
  in force are those that the texts listed under its name in the documents mean, one after
  the other. Take a definition in force that has appenders: a message of a level that it lets pass,
  logged through the macro to the logger of its name, adds to the console exactly the lines of the
  console appenders of this definition whose level passes, in order, each formatted with the
  formatter of the appender when it is valid and with that of the logger otherwise, which is the
  definition's when that is valid. (All files can be opened, as a stream that fails reports itself on
  the console; the store before is one that calls without null formatters reach; the registry has
  the one variable \<open>logs\<close>, as variables of other types keep apart.)
\<close>

theorem document_output:
  assumes "log_reach strf s" and "g_log_defines lib tn config_empty = (FoundVar v, c)"
    and "LogIniter strf cx src s_fun_id (cf_vars c ! v) = (i, j, cv)"
    and "load_documents emit_yaml roots (c\<lparr>cf_vars := (cf_vars c)[v := cv]\<rparr>) (Inr s) = (c', w')"
    and "logs_history lib tn (documents_texts emit_yaml roots) = (val, force)"
    and "d \<in> set force" and "ld_level d \<le> level" and "files_ready s"
  shows "\<exists>s' a lf. w' = Inr s' \<and> ConfigVar_getValue (cf_vars c' ! v) = val \<and> list_all2 same_header val force \<and>
    configured s' d \<and> map_find (st_mgr_loggers s') (ld_name d) = Some a \<and>
    lf = lg_formatter (st_loggers s' ! a) \<and> (valid_formatter (ld_formatter d) \<noteq> None \<longrightarrow> lf = valid_formatter (ld_formatter d)) \<and>
    (ld_appenders d \<noteq> [] \<longrightarrow> (\<exists>s2. gwn_LOG_LEVEL strf cx' file line a level msg s' = Inr s2 \<and>
       w_cout (st_world s2) = w_cout (st_world s') @ concat (map (define_line (store_env strf s') lf level
         (macro_event cx' file line a level msg)) (ld_appenders d))))"
proof -
  obtain cv' where r: "logs_only c' cv'" "reconfigure (documents_texts emit_yaml roots) cv (Inr s) = (cv', w')"
    using load_documents_logs [OF static_init_logs(3) [OF assms(2)] assms(4)] by blast
  from reconfigure_in_force [OF assms(1-3) r(2)] assms(5) obtain s' where
    s': "w' = Inr s'" "cv_val cv' = val" "list_all2 same_header val force" by auto
  have "ConfigVar_getValue (cf_vars c' ! v) = val"
    using s'(2) r(1) static_init_logs(1) [OF assms(2)] by (simp add: logs_only_def ConfigVar_getValue_def)
  moreover have "d \<in> set (snd (logs_history lib tn (documents_texts emit_yaml roots)))" using assms(5,6) by simp
  from in_force_output [OF assms(1-3) r(2) [unfolded s'(1)] this assms(7,8), of cx' "file" line msg]
  show ?thesis using s'(1,3) calculation by blast
qed

text \<open>
  The example: a document with one definition, whose first appender writes to a file and
  whose second one prints the level on the console.
\<close>

definition demo_root :: yaml where
  "demo_root = YMap [(YScalar ''logs'', YSeq [LogDefine_node demo_define])]"

lemma demo_root_members: "ListAllMember emit_yaml [] demo_root =
    ([([], demo_root), (''logs'', YSeq [LogDefine_node demo_define])], [])"
  by (simp add: demo_root_def ListAllMember.simps valid_name_def name_chars_def member_name_def)

lemma demo_root_texts: "logs_texts (yl_emit logs_lib) (fst (ListAllMember (yl_emit logs_lib) [] demo_root)) = [''- x'']"
  unfolding demo_root_members by (simp add: logs_texts_def node_text_def logs_lib_def)

lemma demo_pattern: "valid_formatter ''%p'' = Some \<lparr>fm_pattern = ''%p'', fm_items = [LevelFormatItem], fm_error = False\<rparr>"
  by code_simp

lemma demo_line:
  "concat (map (define_line env lf WARN e) (ld_appenders (drop_levels demo_define))) = ''WARN''"
  by (simp add: demo_define_def drop_levels_def define_line_def demo_pattern LogLevel_ToString_def)

theorem document_output_witness:
  "\<exists>s s' c cv a. log_reach (\<lambda>f t. f) s \<and>
     snd (load_documents (yl_emit logs_lib) [demo_root] (c\<lparr>cf_vars := [cv]\<rparr>) (Inr s)) = Inr s' \<and>
     configured s' (drop_levels demo_define) \<and> map_find (st_mgr_loggers s') ''system'' = Some a \<and>
     (\<exists>s2. gwn_LOG_LEVEL (\<lambda>f t. f) example_context ''a.cc'' 7 a WARN ''hello'' s' = Inr s2 \<and>
       w_cout (st_world s2) = w_cout (st_world s') @ ''WARN'')"
proof -
  let ?d = "drop_levels demo_define"
  obtain s where s: "LoggerManager_new example_world = Inr s" by (simp add: LoggerManager_new_eq)
  then have r: "log_reach (\<lambda>f t. f) s" by (rule log_reach.start)
  obtain c where c: "g_log_defines logs_lib ''set'' config_empty = (FoundVar 0, c)"
    by (simp add: g_log_defines_def Config_LookUp_default_def config_empty_def valid_name_def name_chars_def)
  obtain i j cv where i: "LogIniter (\<lambda>f t. f) example_context ''log.cc'' 0 (cf_vars c ! 0) = (i, j, cv)"
    by (cases "LogIniter (\<lambda>f t. f) example_context ''log.cc'' 0 (cf_vars c ! 0)") auto
  let ?c = "c\<lparr>cf_vars := (cf_vars c)[0 := cv]\<rparr>"
  obtain c' w' where load: "load_documents (yl_emit logs_lib) [demo_root] ?c (Inr s) = (c', w')" by force
  have h: "logs_history logs_lib ''set'' (documents_texts (yl_emit logs_lib) [demo_root]) = ([?d], [?d])"
    by (simp add: documents_texts_def demo_root_texts demo_history del: ListAllMember.simps)
  have ready: "files_ready s"
    using s by (auto simp: LoggerManager_new_eq files_ready_def example_world_def StdoutLogAppender_def)
  have d: "ld_level ?d \<le> WARN" "ld_name ?d = ''system''" "ld_appenders ?d \<noteq> []" "?d \<in> set [?d]"
    by (simp_all add: drop_levels_def demo_define_def less_eq_log_level_def)
  from document_output [OF r c i load h d(4,1) ready, of example_context "''a.cc''" 7 "''hello''"] d(2,3)
  obtain s' a where "w' = Inr s'" "configured s' ?d" "map_find (st_mgr_loggers s') ''system'' = Some a"
    "\<exists>s2. gwn_LOG_LEVEL (\<lambda>f t. f) example_context ''a.cc'' 7 a WARN ''hello'' s' = Inr s2 \<and>
       w_cout (st_world s2) = w_cout (st_world s') @ ''WARN''"
    by (auto simp: demo_line)
  moreover have "(cf_vars c)[0 := cv] = [cv]" using static_init_logs(2) [OF c] by (auto simp: logs_only_def)
  ultimately show ?thesis using r load by (metis snd_conv)
qed

end
