(* ===== verification/Fiber.thy ===== *)
theory Fiber
  imports Log_Level
begin

text \<open>
  \<open>Fiber\<close> (gwn/fiber.h, gwn/fiber.cc): coroutines over \<open>ucontext\<close>. The fibers of the process
  are a list, addresses are indices. A saved context says whose code runs when it is switched
  to: the entry function of a fresh fiber, or the interrupted code of some fiber; so a context
  that is saved in the wrong place is visible in the model. Messages for the "system" logger
  are collected with their level. \<open>getcontext\<close> and \<open>swapcontext\<close> are taken to succeed, as
  they do on Linux for valid arguments.
\<close>

section \<open>State\<close>

datatype fiber_state = INIT | HOLD | EXEC | TERM' | READY | EXCEPT

datatype fiber_entry = NoEntry | MainFunc | CallerMainFunc

datatype fiber_ctx = CtxUnset | CtxEntry | CtxResume nat

text \<open>
  The state \<open>TERM\<close> of the code is \<open>TERM'\<close> here, since \<open>TERM\<close> is a keyword of the logic.
  \<open>fb_stack_refs\<close> counts the \<open>Fiber::ptr\<close> variables on the fiber's own stack that point to
  the fiber itself: \<open>cur\<close> of \<open>MainFunc\<close>, and \<open>cur\<close> of \<open>YieldToReady\<close> or \<open>YieldToHold\<close>.
\<close>

record fiber =
  fb_id :: u64
  fb_stacksize :: u32
  fb_state :: fiber_state
  fb_ctx :: fiber_ctx
  fb_entry :: fiber_entry
  fb_stack :: bool
  fb_cb :: "nat option"
  fb_stack_refs :: nat

record fiber_heap =
  fh_fibers :: "fiber list"
  fh_fiber_id :: u64
  fh_fiber_count :: u64
  fh_stack_size :: u32
  fh_log :: "(log_level \<times> string) list"

text \<open>
  The thread-local variables of fiber.cc and scheduler.cc, and the fiber whose code the thread
  is executing (\<open>None\<close> before the thread has any fiber).
\<close>

record thread_locals =
  tl_fiber :: "nat option"
  tl_threadFiber :: "nat option"
  tl_scheduler_fiber :: "nat option"
  tl_running :: "nat option"

definition thread_locals_new :: thread_locals where
  "thread_locals_new =
     \<lparr>tl_fiber = None, tl_threadFiber = None, tl_scheduler_fiber = None, tl_running = None\<rparr>"

datatype fiber_error = AssertionFailed | NullFiber | BadContext

type_synonym fiber_result = "fiber_error + fiber_heap \<times> thread_locals"

definition emit :: "log_level \<Rightarrow> string \<Rightarrow> fiber_heap \<Rightarrow> fiber_heap" where
  "emit l t h = h\<lparr>fh_log := fh_log h @ [(l, t)]\<rparr>"

definition upd_fiber :: "nat \<Rightarrow> (fiber \<Rightarrow> fiber) \<Rightarrow> fiber_heap \<Rightarrow> fiber_heap" where
  "upd_fiber f g h = h\<lparr>fh_fibers := (fh_fibers h)[f := g (fh_fibers h ! f)]\<rparr>"

definition set_state :: "nat \<Rightarrow> fiber_state \<Rightarrow> fiber_heap \<Rightarrow> fiber_heap" where
  "set_state f st = upd_fiber f (\<lambda>b. b\<lparr>fb_state := st\<rparr>)"

abbreviation fiber_at :: "fiber_heap \<Rightarrow> nat \<Rightarrow> fiber" where
  "fiber_at h f \<equiv> fh_fibers h ! f"

lemma upd_fiber_length [simp]: "length (fh_fibers (upd_fiber f g h)) = length (fh_fibers h)"
  by (simp add: upd_fiber_def)

lemma fiber_at_upd:
  "k < length (fh_fibers h) \<Longrightarrow>
     fiber_at (upd_fiber f g h) k = (if k = f then g (fiber_at h f) else fiber_at h k)"
  by (simp add: upd_fiber_def nth_update)

definition Fiber_getId :: "nat \<Rightarrow> fiber_heap \<Rightarrow> u64" where
  "Fiber_getId f h = fb_id (fiber_at h f)"

definition Fiber_getState :: "nat \<Rightarrow> fiber_heap \<Rightarrow> fiber_state" where
  "Fiber_getState f h = fb_state (fiber_at h f)"

lemma set_state_length [simp]: "length (fh_fibers (set_state f st h)) = length (fh_fibers h)"
  by (simp add: set_state_def)

lemma fiber_at_set_state:
  "k < length (fh_fibers h) \<Longrightarrow>
     fiber_at (set_state f st h) k = (if k = f then (fiber_at h f)\<lparr>fb_state := st\<rparr> else fiber_at h k)"
  by (simp add: set_state_def fiber_at_upd)

lemma emit_fibers [simp]: "fh_fibers (emit l t h) = fh_fibers h"
  by (simp add: emit_def)

section \<open>Construction, reset and destruction\<close>

definition Fiber_SetThis :: "nat option \<Rightarrow> thread_locals \<Rightarrow> thread_locals" where
  "Fiber_SetThis f t = t\<lparr>tl_fiber := f\<rparr>"

text \<open>
  The private constructor: the fiber that stands for the code the thread is already running.
\<close>

definition Fiber_main_new :: "fiber_heap \<Rightarrow> thread_locals \<Rightarrow> nat \<times> fiber_heap \<times> thread_locals" where
  "Fiber_main_new h t =
     (let f = length (fh_fibers h);
          b = \<lparr>fb_id = 0, fb_stacksize = 0, fb_state = EXEC, fb_ctx = CtxUnset, fb_entry = NoEntry,
               fb_stack = False, fb_cb = None, fb_stack_refs = 0\<rparr>
      in (f, emit DEBUG ''Fiber::Fiber main''
               (h\<lparr>fh_fibers := fh_fibers h @ [b], fh_fiber_count := fh_fiber_count h + 1\<rparr>),
          (Fiber_SetThis (Some f) t)\<lparr>tl_running := Some f\<rparr>))"

definition Fiber_GetThis :: "fiber_heap \<Rightarrow> thread_locals \<Rightarrow> fiber_error + nat \<times> fiber_heap \<times> thread_locals" where
  "Fiber_GetThis h t =
     (case tl_fiber t of
        Some f \<Rightarrow> Inr (f, h, t)
      | None \<Rightarrow>
          (case Fiber_main_new h t of
             (main_fiber, h', t') \<Rightarrow>
               (if tl_fiber t' \<noteq> Some main_fiber then Inl AssertionFailed
                else Inr (main_fiber, h', t'\<lparr>tl_threadFiber := Some main_fiber\<rparr>))))"

definition Fiber_GetFiberId :: "fiber_heap \<Rightarrow> thread_locals \<Rightarrow> u64" where
  "Fiber_GetFiberId h t = (case tl_fiber t of Some f \<Rightarrow> fb_id (fiber_at h f) | None \<Rightarrow> 0)"

definition Fiber_TotalFibers :: "fiber_heap \<Rightarrow> u64" where
  "Fiber_TotalFibers h = fh_fiber_count h"

text \<open>
  The public constructor. \<open>m_stacksize\<close> is 32 bits wide, so a 64-bit argument is truncated.
\<close>

definition Fiber_new :: "nat option \<Rightarrow> u64 \<Rightarrow> bool \<Rightarrow> fiber_heap \<Rightarrow> nat \<times> fiber_heap" where
  "Fiber_new cb stacksize use_caller h =
     (let ident = fh_fiber_id h + 1;
          b = \<lparr>fb_id = ident,
               fb_stacksize = (if stacksize \<noteq> 0 then ucast stacksize else fh_stack_size h),
               fb_state = INIT, fb_ctx = CtxEntry,
               fb_entry = (if \<not> use_caller then MainFunc else CallerMainFunc),
               fb_stack = True, fb_cb = cb, fb_stack_refs = 0\<rparr>
      in (length (fh_fibers h),
          emit DEBUG ('' id='' @ dec_nat (unat ident))
            (h\<lparr>fh_fibers := fh_fibers h @ [b], fh_fiber_id := ident,
               fh_fiber_count := fh_fiber_count h + 1\<rparr>)))"

definition resettable :: "fiber_state \<Rightarrow> bool" where
  "resettable st \<longleftrightarrow> st = TERM' \<or> st = EXCEPT \<or> st = INIT"

text \<open>
  \<open>reset\<close> gives the fiber a new function and a fresh context; the entry point is always
  \<open>MainFunc\<close>, also for a fiber that was constructed with \<open>use_caller\<close>.
\<close>

definition Fiber_reset :: "nat \<Rightarrow> nat option \<Rightarrow> fiber_heap \<Rightarrow> fiber_error + fiber_heap" where
  "Fiber_reset f cb h =
     (if \<not> fb_stack (fiber_at h f) then Inl AssertionFailed
      else if \<not> resettable (fb_state (fiber_at h f)) then Inl AssertionFailed
      else Inr (upd_fiber f (\<lambda>b. b\<lparr>fb_cb := cb, fb_ctx := CtxEntry, fb_entry := MainFunc,
                  fb_state := INIT\<rparr>) h))"

text \<open>The destructor: the assertions on the state, then the message with the new total.\<close>

definition Fiber_destroy :: "nat \<Rightarrow> fiber_heap \<Rightarrow> thread_locals \<Rightarrow> fiber_result" where
  "Fiber_destroy f h t =
     (let b = fiber_at h f;
          h1 = h\<lparr>fh_fiber_count := fh_fiber_count h - 1\<rparr>;
          msg = ''Fiber::~Fiber id='' @ dec_nat (unat (fb_id b)) @ '' total='' @
                dec_nat (unat (fh_fiber_count h1))
      in if fb_stack b then
           (if \<not> resettable (fb_state b) then Inl AssertionFailed
            else Inr (emit DEBUG msg (upd_fiber f (\<lambda>b. b\<lparr>fb_stack := False\<rparr>) h1), t))
         else if fb_cb b \<noteq> None then Inl AssertionFailed
         else if fb_state b \<noteq> EXEC then Inl AssertionFailed
         else Inr (emit DEBUG msg h1, if tl_fiber t = Some f then Fiber_SetThis None t else t))"

section \<open>Context switches\<close>

text \<open>
  \<open>swapcontext(&from, &to)\<close>: the code that is running is saved in \<open>from\<close>, and the code
  that \<open>to\<close> stands for runs.
\<close>

definition swap_context :: "nat \<Rightarrow> nat \<Rightarrow> fiber_heap \<Rightarrow> thread_locals \<Rightarrow> fiber_result" where
  "swap_context from to h t =
     (case tl_running t of
        None \<Rightarrow> Inl BadContext
      | Some r \<Rightarrow>
          (let h1 = upd_fiber from (\<lambda>b. b\<lparr>fb_ctx := CtxResume r\<rparr>) h
           in case fb_ctx (fiber_at h1 to) of
                CtxUnset \<Rightarrow> Inl BadContext
              | CtxEntry \<Rightarrow> Inr (h1, t\<lparr>tl_running := Some to\<rparr>)
              | CtxResume k \<Rightarrow> Inr (h1, t\<lparr>tl_running := Some k\<rparr>)))"

text \<open>
  The first thing the code does that a switch reaches: \<open>MainFunc\<close> and \<open>CallerMainFunc\<close> take
  a pointer to the current fiber, an interrupted yield returns and drops the one it held.
\<close>

definition fiber_enter :: "nat \<Rightarrow> fiber_heap \<Rightarrow> fiber_heap" where
  "fiber_enter f = upd_fiber f (\<lambda>b. b\<lparr>fb_stack_refs :=
     (if fb_stack_refs b = 0 then 1 else fb_stack_refs b - 1)\<rparr>)"

definition Fiber_swapIn :: "nat \<Rightarrow> fiber_heap \<Rightarrow> thread_locals \<Rightarrow> fiber_result" where
  "Fiber_swapIn f h t =
     (let t1 = Fiber_SetThis (Some f) t
      in if fb_state (fiber_at h f) = EXEC then Inl AssertionFailed
         else (let h1 = set_state f EXEC h
               in case tl_scheduler_fiber t1 of
                    None \<Rightarrow> Inl NullFiber
                  | Some m \<Rightarrow>
                      (case swap_context m f h1 t1 of
                         Inl e \<Rightarrow> Inl e
                       | Inr (h2, t2) \<Rightarrow> Inr (fiber_enter f h2, t2))))"

definition Fiber_swapOut :: "nat \<Rightarrow> fiber_heap \<Rightarrow> thread_locals \<Rightarrow> fiber_result" where
  "Fiber_swapOut f h t =
     (let t1 = Fiber_SetThis (tl_threadFiber t) t
      in case tl_scheduler_fiber t1 of
           None \<Rightarrow> Inl NullFiber
         | Some m \<Rightarrow> swap_context f m h t1)"

definition Fiber_call :: "nat \<Rightarrow> fiber_heap \<Rightarrow> thread_locals \<Rightarrow> fiber_result" where
  "Fiber_call f h t =
     (let t1 = Fiber_SetThis (Some f) t
      in if fb_state (fiber_at h f) = EXEC then Inl AssertionFailed
         else (let h1 = set_state f EXEC h
               in case tl_threadFiber t1 of
                    None \<Rightarrow> Inl NullFiber
                  | Some m \<Rightarrow>
                      (case swap_context m f h1 t1 of
                         Inl e \<Rightarrow> Inl e
                       | Inr (h2, t2) \<Rightarrow> Inr (fiber_enter f h2, t2))))"

text \<open>What is left of \<open>call\<close> when the called fiber comes back.\<close>

definition Fiber_call_return :: "fiber_heap \<Rightarrow> fiber_heap" where
  "Fiber_call_return h = emit DEBUG ''for debug'' h"

definition Fiber_back :: "nat \<Rightarrow> fiber_heap \<Rightarrow> thread_locals \<Rightarrow> fiber_result" where
  "Fiber_back f h t =
     (let t1 = Fiber_SetThis (tl_threadFiber t) t
      in case tl_threadFiber t1 of
           None \<Rightarrow> Inl NullFiber
         | Some m \<Rightarrow> swap_context f m h t1)"

text \<open>Both yields: \<open>cur\<close> is on the stack of the fiber while it is suspended.\<close>

definition Fiber_yield :: "fiber_state \<Rightarrow> fiber_heap \<Rightarrow> thread_locals \<Rightarrow> fiber_result" where
  "Fiber_yield st h t =
     (case Fiber_GetThis h t of
        Inl e \<Rightarrow> Inl e
      | Inr (cur, h1, t1) \<Rightarrow>
          (if fb_state (fiber_at h1 cur) \<noteq> EXEC then Inl AssertionFailed
           else Fiber_swapOut cur
                  (upd_fiber cur (\<lambda>b. b\<lparr>fb_state := st, fb_stack_refs := fb_stack_refs b + 1\<rparr>) h1) t1))"

definition Fiber_YieldToReady :: "fiber_heap \<Rightarrow> thread_locals \<Rightarrow> fiber_result" where
  "Fiber_YieldToReady h t = Fiber_yield READY h t"

definition Fiber_YieldToHold :: "fiber_heap \<Rightarrow> thread_locals \<Rightarrow> fiber_result" where
  "Fiber_YieldToHold h t = Fiber_yield HOLD h t"

text \<open>
  How the function of a fiber can end: it returns, throws a \<open>std::exception\<close> with a text, or
  throws anything else. \<open>bt\<close> is the text of the backtrace.
\<close>

datatype cb_end = Returned | Threw string | ThrewUnknown

definition cb_finished :: "cb_end \<Rightarrow> string \<Rightarrow> nat \<Rightarrow> fiber_heap \<Rightarrow> fiber_heap" where
  "cb_finished out bt cur h =
     (let ident = dec_nat (unat (fb_id (fiber_at h cur)))
      in case out of
           Returned \<Rightarrow> upd_fiber cur (\<lambda>b. b\<lparr>fb_cb := None, fb_state := TERM'\<rparr>) h
         | Threw what \<Rightarrow>
             emit ERROR (''Fiber Except: '' @ what @ '' fiber_id='' @ ident @ [newline] @ bt)
               (set_state cur EXCEPT h)
         | ThrewUnknown \<Rightarrow>
             emit ERROR (''Fiber Except'' @ '' fiber_id='' @ ident @ [newline] @ bt)
               (set_state cur EXCEPT h))"

text \<open>
  The rest of \<open>MainFunc\<close> and \<open>CallerMainFunc\<close> after the function has ended: the state, the
  pointer \<open>cur\<close> is dropped, and the switch to the scheduling fiber or the thread's main fiber.
\<close>

definition MainFunc_end :: "cb_end \<Rightarrow> string \<Rightarrow> nat \<Rightarrow> fiber_heap \<Rightarrow> thread_locals \<Rightarrow> fiber_result" where
  "MainFunc_end out bt cur h t =
     Fiber_swapOut cur (upd_fiber cur (\<lambda>b. b\<lparr>fb_stack_refs := fb_stack_refs b - 1\<rparr>)
       (cb_finished out bt cur h)) t"

definition CallerMainFunc_end ::
  "cb_end \<Rightarrow> string \<Rightarrow> nat \<Rightarrow> fiber_heap \<Rightarrow> thread_locals \<Rightarrow> fiber_result"
where
  "CallerMainFunc_end out bt cur h t =
     Fiber_back cur (upd_fiber cur (\<lambda>b. b\<lparr>fb_stack_refs := fb_stack_refs b - 1\<rparr>)
       (cb_finished out bt cur h)) t"

end
