(* ===== verification/Fiber_Facts.thy ===== *)
theory Fiber_Facts
  imports Fiber
begin

text \<open>
  Fibers under several threads: the switches of worker threads (threads whose main fiber is
  their scheduling fiber) as a step relation over the shared fibers and the thread-local
  variables of every thread, an invariant that all steps keep, and what follows from it for
  the assertions and the contexts of fiber.cc and for the life time of suspended fibers.
\<close>

section \<open>The switches, evaluated\<close>

definition switched_to :: "nat \<Rightarrow> thread_locals \<Rightarrow> thread_locals" where
  "switched_to f t = t\<lparr>tl_fiber := Some f, tl_running := Some f\<rparr>"

definition saved :: "nat \<Rightarrow> fiber_heap \<Rightarrow> fiber_heap" where
  "saved f = upd_fiber f (\<lambda>b. b\<lparr>fb_ctx := CtxResume f\<rparr>)"

lemma saved_length [simp]: "length (fh_fibers (saved f h)) = length (fh_fibers h)"
  by (simp add: saved_def)

lemma fiber_enter_length [simp]: "length (fh_fibers (fiber_enter f h)) = length (fh_fibers h)"
  by (simp add: fiber_enter_def)

lemma fiber_at_saved:
  "k < length (fh_fibers h) \<Longrightarrow>
     fiber_at (saved f h) k = (if k = f then (fiber_at h f)\<lparr>fb_ctx := CtxResume f\<rparr> else fiber_at h k)"
  by (simp add: saved_def fiber_at_upd)

lemma fiber_at_enter:
  "k < length (fh_fibers h) \<Longrightarrow>
     fiber_at (fiber_enter f h) k =
       (if k = f then (fiber_at h f)\<lparr>fb_stack_refs :=
          (if fb_stack_refs (fiber_at h f) = 0 then 1 else fb_stack_refs (fiber_at h f) - 1)\<rparr>
        else fiber_at h k)"
  by (simp add: fiber_enter_def fiber_at_upd)

lemmas fiber_at_simps = fiber_at_upd fiber_at_set_state fiber_at_saved fiber_at_enter

lemma swapIn_eq:
  assumes "tl_scheduler_fiber t = Some m" "tl_running t = Some m" "m \<noteq> f"
    and "m < length (fh_fibers h)" "f < length (fh_fibers h)"
    and "fb_state (fiber_at h f) \<noteq> EXEC"
    and "fb_ctx (fiber_at h f) = CtxEntry \<or> fb_ctx (fiber_at h f) = CtxResume f"
  shows "Fiber_swapIn f h t =
    Inr (fiber_enter f (saved m (set_state f EXEC h)), switched_to f t)"
  using assms
  by (auto simp: Fiber_swapIn_def swap_context_def Let_def Fiber_SetThis_def saved_def
      switched_to_def fiber_at_simps)

lemma swapOut_eq:
  assumes "tl_scheduler_fiber t = Some m" "tl_threadFiber t = Some m" "tl_running t = Some f" "m \<noteq> f"
    and "m < length (fh_fibers h)" "f < length (fh_fibers h)" "fb_ctx (fiber_at h m) = CtxResume m"
  shows "Fiber_swapOut f h t = Inr (saved f h, switched_to m t)"
  using assms
  by (simp add: Fiber_swapOut_def swap_context_def Let_def Fiber_SetThis_def saved_def
      switched_to_def fiber_at_simps)

lemma yield_eq:
  assumes "tl_scheduler_fiber t = Some m" "tl_threadFiber t = Some m" "tl_running t = Some f"
    and "tl_fiber t = Some f" "m \<noteq> f" "m < length (fh_fibers h)" "f < length (fh_fibers h)"
    and "fb_ctx (fiber_at h m) = CtxResume m" "fb_state (fiber_at h f) = EXEC"
  shows "Fiber_yield st h t =
    Inr (saved f (upd_fiber f (\<lambda>b. b\<lparr>fb_state := st, fb_stack_refs := fb_stack_refs b + 1\<rparr>) h),
         switched_to m t)"
  using assms by (simp add: Fiber_yield_def Fiber_GetThis_def swapOut_eq fiber_at_simps)

definition end_state :: "cb_end \<Rightarrow> fiber_state" where
  "end_state out = (if out = Returned then TERM' else EXCEPT)"

lemma cb_finished_at:
  assumes "k < length (fh_fibers h)"
  shows "length (fh_fibers (cb_finished out bt f h)) = length (fh_fibers h)"
    and "k \<noteq> f \<Longrightarrow> fiber_at (cb_finished out bt f h) k = fiber_at h k"
    and "k = f \<Longrightarrow> fb_state (fiber_at (cb_finished out bt f h) k) = end_state out"
    and "fb_stack (fiber_at (cb_finished out bt f h) k) = fb_stack (fiber_at h k)"
    and "fb_ctx (fiber_at (cb_finished out bt f h) k) = fb_ctx (fiber_at h k)"
    and "fb_stack_refs (fiber_at (cb_finished out bt f h) k) = fb_stack_refs (fiber_at h k)"
  using assms
  by (auto simp: cb_finished_def Let_def end_state_def fiber_at_upd fiber_at_set_state
      split: cb_end.splits)

section \<open>Threads and steps\<close>

definition is_main :: "thread_locals list \<Rightarrow> nat \<Rightarrow> bool" where
  "is_main ts f \<longleftrightarrow> (\<exists>i < length ts. tl_threadFiber (ts ! i) = Some f)"

definition on_cpu :: "thread_locals list \<Rightarrow> nat \<Rightarrow> bool" where
  "on_cpu ts f \<longleftrightarrow> (\<exists>i < length ts. tl_running (ts ! i) = Some f)"

text \<open>
  The steps of the threads: a worker starts (\<open>run\<close> makes the thread's main fiber and takes it
  as scheduling fiber), a fiber is created or reset by code of some thread, the scheduling
  fiber of a thread resumes a fiber that has not ended, and the fiber that runs on a thread
  yields or ends. These are the operations of fiber.cc; the states that \<open>Scheduler::run\<close> stores
  with \<open>setState\<close> are added in \<open>Fiber_Runs\<close>.
\<close>

inductive fib_step ::
  "fiber_heap \<times> thread_locals list \<Rightarrow> fiber_heap \<times> thread_locals list \<Rightarrow> bool"
where
  attach: "Fiber_GetThis h thread_locals_new = Inr (m, h', t) \<Longrightarrow>
    fib_step (h, ts) (h', ts @ [t\<lparr>tl_scheduler_fiber := Some m\<rparr>])"
| create: "Fiber_new cb sz False h = (f, h') \<Longrightarrow> fib_step (h, ts) (h', ts)"
| reset: "f < length (fh_fibers h) \<Longrightarrow> Fiber_reset f cb h = Inr h' \<Longrightarrow> fib_step (h, ts) (h', ts)"
| resume: "i < length ts \<Longrightarrow> tl_running (ts ! i) = tl_scheduler_fiber (ts ! i) \<Longrightarrow>
    f < length (fh_fibers h) \<Longrightarrow> \<not> resettable (fb_state (fiber_at h f)) \<or> fb_state (fiber_at h f) = INIT \<Longrightarrow>
    Fiber_swapIn f h (ts ! i) = Inr (h', t) \<Longrightarrow> fib_step (h, ts) (h', ts[i := t])"
| yield: "i < length ts \<Longrightarrow> tl_running (ts ! i) \<noteq> tl_scheduler_fiber (ts ! i) \<Longrightarrow>
    st = HOLD \<or> st = READY \<Longrightarrow> Fiber_yield st h (ts ! i) = Inr (h', t) \<Longrightarrow>
    fib_step (h, ts) (h', ts[i := t])"
| finish: "i < length ts \<Longrightarrow> tl_running (ts ! i) = Some f \<Longrightarrow>
    tl_running (ts ! i) \<noteq> tl_scheduler_fiber (ts ! i) \<Longrightarrow>
    MainFunc_end out bt f h (ts ! i) = Inr (h', t) \<Longrightarrow> fib_step (h, ts) (h', ts[i := t])"

section \<open>The invariant\<close>

definition thread_ok :: "fiber_heap \<Rightarrow> thread_locals \<Rightarrow> bool" where
  "thread_ok h t \<longleftrightarrow> (\<exists>m r. tl_threadFiber t = Some m \<and> tl_scheduler_fiber t = Some m \<and>
     tl_fiber t = Some r \<and> tl_running t = Some r \<and>
     m < length (fh_fibers h) \<and> r < length (fh_fibers h))"

definition main_ok :: "bool \<Rightarrow> nat \<Rightarrow> fiber \<Rightarrow> bool" where
  "main_ok running f b \<longleftrightarrow> \<not> fb_stack b \<and> fb_state b = EXEC \<and> (running \<or> fb_ctx b = CtxResume f)"

definition task_ok :: "bool \<Rightarrow> nat \<Rightarrow> fiber \<Rightarrow> bool" where
  "task_ok running f b \<longleftrightarrow> fb_stack b \<and>
     (if running then fb_state b = EXEC \<and> fb_stack_refs b = 1
      else fb_state b = INIT \<and> fb_ctx b = CtxEntry \<and> fb_stack_refs b = 0 \<or>
           (fb_state b = HOLD \<or> fb_state b = READY) \<and> fb_ctx b = CtxResume f \<and> fb_stack_refs b = 2 \<or>
           (fb_state b = TERM' \<or> fb_state b = EXCEPT) \<and> fb_stack_refs b = 0)"

definition fibers_ok :: "fiber_heap \<Rightarrow> thread_locals list \<Rightarrow> bool" where
  "fibers_ok h ts \<longleftrightarrow> (\<forall>f < length (fh_fibers h).
     if is_main ts f then main_ok (on_cpu ts f) f (fiber_at h f)
     else task_ok (on_cpu ts f) f (fiber_at h f))"

definition threads_apart :: "thread_locals list \<Rightarrow> bool" where
  "threads_apart ts \<longleftrightarrow>
     (\<forall>i < length ts. \<forall>j < length ts. i \<noteq> j \<longrightarrow>
        tl_running (ts ! i) \<noteq> tl_running (ts ! j) \<and>
        tl_threadFiber (ts ! i) \<noteq> tl_threadFiber (ts ! j) \<and>
        tl_running (ts ! i) \<noteq> tl_threadFiber (ts ! j))"

definition sys_ok :: "fiber_heap \<times> thread_locals list \<Rightarrow> bool" where
  "sys_ok s \<longleftrightarrow> (case s of (h, ts) \<Rightarrow>
     (\<forall>t \<in> set ts. thread_ok h t) \<and> fibers_ok h ts \<and> threads_apart ts)"

lemma sys_okI:
  "(\<And>t. t \<in> set ts \<Longrightarrow> thread_ok h t) \<Longrightarrow> fibers_ok h ts \<Longrightarrow> threads_apart ts \<Longrightarrow> sys_ok (h, ts)"
  by (simp add: sys_ok_def)

lemma sys_ok_thread:
  assumes "sys_ok (h, ts)" and "i < length ts"
  obtains m r where "tl_threadFiber (ts ! i) = Some m" "tl_scheduler_fiber (ts ! i) = Some m"
    "tl_fiber (ts ! i) = Some r" "tl_running (ts ! i) = Some r"
    "m < length (fh_fibers h)" "r < length (fh_fibers h)"
proof -
  have "thread_ok h (ts ! i)" using assms by (simp add: sys_ok_def)
  then show thesis by (auto simp: thread_ok_def intro: that)
qed

lemma thread_ok_longer:
  "thread_ok h t \<Longrightarrow> length (fh_fibers h) \<le> length (fh_fibers h') \<Longrightarrow> thread_ok h' t"
  by (auto simp: thread_ok_def)

text \<open>How the two views of the threads change when thread \<open>i\<close> switches to fiber \<open>g\<close>.\<close>

lemma switched_nth:
  assumes "j < length ts"
  shows "tl_threadFiber (ts[i := switched_to g (ts ! i)] ! j) = tl_threadFiber (ts ! j)"
    and "tl_scheduler_fiber (ts[i := switched_to g (ts ! i)] ! j) = tl_scheduler_fiber (ts ! j)"
    and "tl_running (ts[i := switched_to g (ts ! i)] ! j) =
      (if j = i then Some g else tl_running (ts ! j))"
  using assms by (simp_all add: nth_update switched_to_def)

lemma is_main_switched:
  "i < length ts \<Longrightarrow> is_main (ts[i := switched_to g (ts ! i)]) f = is_main ts f"
  by (auto simp: is_main_def switched_nth)

lemma apart_running:
  assumes "threads_apart ts" and "i < length ts" and "j < length ts"
    and "tl_running (ts ! i) = Some r" and "tl_running (ts ! j) = Some r"
  shows "i = j"
  using assms by (metis threads_apart_def)

lemma on_cpu_switched:
  assumes "threads_apart ts" and i: "i < length ts" and r: "tl_running (ts ! i) = Some r"
  shows "on_cpu (ts[i := switched_to g (ts ! i)]) f \<longleftrightarrow> f = g \<or> (f \<noteq> r \<and> on_cpu ts f)"
proof -
  have "on_cpu (ts[i := switched_to g (ts ! i)]) f \<longleftrightarrow>
      f = g \<or> (\<exists>j < length ts. j \<noteq> i \<and> tl_running (ts ! j) = Some f)"
    using i by (auto simp: on_cpu_def switched_nth cong: conj_cong split: if_splits)
  also have "(\<exists>j < length ts. j \<noteq> i \<and> tl_running (ts ! j) = Some f) \<longleftrightarrow> f \<noteq> r \<and> on_cpu ts f"
    using apart_running [OF assms(1) i _ r] r unfolding on_cpu_def by (metis option.inject)
  finally show ?thesis .
qed

text \<open>
  A switch of thread \<open>i\<close> to \<open>g\<close> keeps the threads apart when nobody else runs \<open>g\<close> and \<open>g\<close>
  is not the main fiber of another thread.
\<close>

lemma threads_apart_switched:
  assumes "threads_apart ts" and i: "i < length ts"
    and "\<And>j. j < length ts \<Longrightarrow> j \<noteq> i \<Longrightarrow>
      tl_running (ts ! j) \<noteq> Some g \<and> tl_threadFiber (ts ! j) \<noteq> Some g"
  shows "threads_apart (ts[i := switched_to g (ts ! i)])"
  unfolding threads_apart_def
proof (intro allI impI)
  fix j k
  assume "j < length (ts[i := switched_to g (ts ! i)])" "k < length (ts[i := switched_to g (ts ! i)])"
    and "j \<noteq> k"
  then have jk: "j < length ts" "k < length ts" "j \<noteq> k" by simp_all
  show "tl_running (ts[i := switched_to g (ts ! i)] ! j) \<noteq> tl_running (ts[i := switched_to g (ts ! i)] ! k) \<and>
    tl_threadFiber (ts[i := switched_to g (ts ! i)] ! j) \<noteq> tl_threadFiber (ts[i := switched_to g (ts ! i)] ! k) \<and>
    tl_running (ts[i := switched_to g (ts ! i)] ! j) \<noteq> tl_threadFiber (ts[i := switched_to g (ts ! i)] ! k)"
    using assms(1) [unfolded threads_apart_def, rule_format, OF jk] assms(3) [of j] assms(3) [of k] jk
    unfolding switched_nth [OF jk(1)] switched_nth [OF jk(2)]
    by (cases "j = i"; cases "k = i") auto
qed

section \<open>Every step keeps the invariant\<close>

lemma sys_ok_fiber:
  assumes "sys_ok (h, ts)" and "f < length (fh_fibers h)"
  shows "if is_main ts f then main_ok (on_cpu ts f) f (fiber_at h f)
    else task_ok (on_cpu ts f) f (fiber_at h f)"
  using assms by (simp add: sys_ok_def fibers_ok_def)

lemma main_apart:
  assumes "sys_ok (h, ts)" and "i < length ts" and "is_main ts f" and "tl_running (ts ! i) = Some f"
  shows "tl_threadFiber (ts ! i) = Some f"
  using assms by (auto simp: sys_ok_def threads_apart_def is_main_def) metis

lemma switch_preserves:
  assumes ok: "sys_ok (h, ts)" and i: "i < length ts" and r: "tl_running (ts ! i) = Some r"
    and g: "g < length (fh_fibers h)" "r \<noteq> g" "\<not> on_cpu ts g"
    and own: "is_main ts g \<Longrightarrow> tl_threadFiber (ts ! i) = Some g"
    and len: "length (fh_fibers h') = length (fh_fibers h)"
    and frame: "\<And>k. k < length (fh_fibers h) \<Longrightarrow> k \<noteq> r \<Longrightarrow> k \<noteq> g \<Longrightarrow> fiber_at h' k = fiber_at h k"
    and g_ok: "if is_main ts g then main_ok True g (fiber_at h' g) else task_ok True g (fiber_at h' g)"
    and r_ok: "if is_main ts r then main_ok False r (fiber_at h' r) else task_ok False r (fiber_at h' r)"
  shows "sys_ok (h', ts[i := switched_to g (ts ! i)])"
proof (rule sys_okI)
  have apart: "threads_apart ts" using ok by (simp add: sys_ok_def)
  fix t assume "t \<in> set (ts[i := switched_to g (ts ! i)])"
  then have "t = switched_to g (ts ! i) \<or> t \<in> set ts"
    using set_update_subset_insert by fastforce
  moreover have "thread_ok h (ts ! i)" "\<forall>t \<in> set ts. thread_ok h t" using ok i by (simp_all add: sys_ok_def)
  ultimately show "thread_ok h' t" using g len by (auto simp: thread_ok_def switched_to_def)
next
  have apart: "threads_apart ts" using ok by (simp add: sys_ok_def)
  show "fibers_ok h' (ts[i := switched_to g (ts ! i)])"
    unfolding fibers_ok_def
  proof (intro allI impI)
    fix k assume "k < length (fh_fibers h')"
    then have k: "k < length (fh_fibers h)" by (simp add: len)
    show "if is_main (ts[i := switched_to g (ts ! i)]) k
      then main_ok (on_cpu (ts[i := switched_to g (ts ! i)]) k) k (fiber_at h' k)
      else task_ok (on_cpu (ts[i := switched_to g (ts ! i)]) k) k (fiber_at h' k)"
      using sys_ok_fiber [OF ok k] frame [OF k] g_ok r_ok g(2)
      by (cases "k = g"; cases "k = r")
         (simp_all add: is_main_switched [OF i] on_cpu_switched [OF apart i r])
  qed
next
  have apart: "threads_apart ts" using ok by (simp add: sys_ok_def)
  show "threads_apart (ts[i := switched_to g (ts ! i)])"
  proof (rule threads_apart_switched [OF apart i])
    fix j assume j: "j < length ts" "j \<noteq> i"
    have "tl_running (ts ! j) \<noteq> Some g" using g(3) j by (auto simp: on_cpu_def)
    moreover have "tl_threadFiber (ts ! j) \<noteq> Some g"
    proof
      assume a: "tl_threadFiber (ts ! j) = Some g"
      then have "is_main ts g" using j by (auto simp: is_main_def)
      then have "tl_threadFiber (ts ! i) = Some g" by (rule own)
      with a apart i j show False unfolding threads_apart_def by metis
    qed
    ultimately show "tl_running (ts ! j) \<noteq> Some g \<and> tl_threadFiber (ts ! j) \<noteq> Some g" by simp
  qed
qed

text \<open>What the invariant says of the fibers a thread works with.\<close>

lemma main_of_thread:
  assumes "sys_ok (h, ts)" and "i < length ts" and "tl_threadFiber (ts ! i) = Some m"
    and "m < length (fh_fibers h)"
  shows "is_main ts m" and "main_ok (on_cpu ts m) m (fiber_at h m)"
    and "tl_running (ts ! i) \<noteq> Some m \<Longrightarrow> \<not> on_cpu ts m \<and> fb_ctx (fiber_at h m) = CtxResume m"
proof -
  show m: "is_main ts m" using assms by (auto simp: is_main_def)
  then show ok: "main_ok (on_cpu ts m) m (fiber_at h m)" using sys_ok_fiber [OF assms(1,4)] by simp
  show "\<not> on_cpu ts m \<and> fb_ctx (fiber_at h m) = CtxResume m" if "tl_running (ts ! i) \<noteq> Some m"
  proof -
    have "\<not> on_cpu ts m"
      using assms that by (auto simp: on_cpu_def sys_ok_def threads_apart_def) metis
    with ok show ?thesis by (simp add: main_ok_def)
  qed
qed

lemma task_of_thread:
  assumes "sys_ok (h, ts)" and "i < length ts" and "tl_running (ts ! i) = Some r"
    and "tl_threadFiber (ts ! i) \<noteq> Some r" and "r < length (fh_fibers h)"
  shows "\<not> is_main ts r" and "task_ok True r (fiber_at h r)"
proof -
  show n: "\<not> is_main ts r" using main_apart [OF assms(1,2) _ assms(3)] assms(4) by auto
  have "on_cpu ts r" using assms by (auto simp: on_cpu_def)
  with n sys_ok_fiber [OF assms(1,5)] show "task_ok True r (fiber_at h r)" by simp
qed

lemma not_exec_is_task:
  assumes "sys_ok (h, ts)" and "f < length (fh_fibers h)" and "fb_state (fiber_at h f) \<noteq> EXEC"
  shows "\<not> is_main ts f" and "\<not> on_cpu ts f" and "task_ok False f (fiber_at h f)"
  using sys_ok_fiber [OF assms(1,2)] assms(3)
  by (auto simp: main_ok_def task_ok_def split: if_splits)

lemma resume_runs:
  assumes ok: "sys_ok (h, ts)" and i: "i < length ts"
    and "tl_running (ts ! i) = tl_scheduler_fiber (ts ! i)" and f: "f < length (fh_fibers h)"
    and "fb_state (fiber_at h f) \<in> {INIT, HOLD, READY}"
  shows "\<exists>h'. Fiber_swapIn f h (ts ! i) = Inr (h', switched_to f (ts ! i)) \<and>
    fb_state (fiber_at h' f) = EXEC \<and> sys_ok (h', ts[i := switched_to f (ts ! i)])"
proof -
  obtain m r where t: "tl_threadFiber (ts ! i) = Some m" "tl_scheduler_fiber (ts ! i) = Some m"
    "tl_running (ts ! i) = Some m" "m < length (fh_fibers h)"
    using sys_ok_thread [OF ok i] assms(3) by metis
  have state: "fb_state (fiber_at h f) \<noteq> EXEC" using assms(5) by auto
  note task = not_exec_is_task [OF ok f state]
  note main = main_of_thread [OF ok i t(1,4)]
  have "m \<noteq> f" using main(1) task(1) by auto
  let ?h = "fiber_enter f (saved m (set_state f EXEC h))"
  have run: "Fiber_swapIn f h (ts ! i) = Inr (?h, switched_to f (ts ! i))"
    using task(3) assms(5) t f \<open>m \<noteq> f\<close> state by (intro swapIn_eq) (auto simp: task_ok_def)
  have at: "fiber_at ?h f = (fiber_at h f)\<lparr>fb_state := EXEC, fb_stack_refs :=
      (if fb_stack_refs (fiber_at h f) = 0 then 1 else fb_stack_refs (fiber_at h f) - 1)\<rparr>"
    "fiber_at ?h m = (fiber_at h m)\<lparr>fb_ctx := CtxResume m\<rparr>"
    using f t(4) \<open>m \<noteq> f\<close> by (simp_all add: fiber_at_simps)
  have "sys_ok (?h, ts[i := switched_to f (ts ! i)])"
  proof (rule switch_preserves [OF ok i t(3) f \<open>m \<noteq> f\<close> task(2)])
    show "if is_main ts f then main_ok True f (fiber_at ?h f) else task_ok True f (fiber_at ?h f)"
      using task assms(5) by (auto simp: at task_ok_def)
    show "if is_main ts m then main_ok False m (fiber_at ?h m) else task_ok False m (fiber_at ?h m)"
      using main by (simp add: at main_ok_def)
  qed (use task f t(4) in \<open>simp_all add: fiber_at_simps\<close>)
  with run show ?thesis using at(1) by auto
qed

lemma suspend_runs:
  assumes ok: "sys_ok (h, ts)" and i: "i < length ts" and r: "tl_running (ts ! i) = Some r"
    and n: "tl_running (ts ! i) \<noteq> tl_scheduler_fiber (ts ! i)"
  obtains m where "tl_threadFiber (ts ! i) = Some m" "tl_scheduler_fiber (ts ! i) = Some m"
    "tl_fiber (ts ! i) = Some r" "m \<noteq> r" "m < length (fh_fibers h)" "r < length (fh_fibers h)"
    "\<not> on_cpu ts m" "fb_ctx (fiber_at h m) = CtxResume m" "main_ok True m (fiber_at h m)"
    "\<not> is_main ts r" "task_ok True r (fiber_at h r)" "is_main ts m"
proof -
  obtain m where t: "tl_threadFiber (ts ! i) = Some m" "tl_scheduler_fiber (ts ! i) = Some m"
    "tl_fiber (ts ! i) = Some r" "m < length (fh_fibers h)" "r < length (fh_fibers h)"
    using sys_ok_thread [OF ok i] r by (metis option.inject)
  have "m \<noteq> r" using n r t by auto
  note main = main_of_thread [OF ok i t(1,4)]
  have "tl_threadFiber (ts ! i) \<noteq> Some r" using t \<open>m \<noteq> r\<close> by simp
  note task = task_of_thread [OF ok i r this t(5)]
  show thesis
    by (rule that [OF t(1-3) \<open>m \<noteq> r\<close> t(4,5)])
       (use main task r \<open>m \<noteq> r\<close> in \<open>auto simp: main_ok_def\<close>)
qed

lemma yield_runs:
  assumes ok: "sys_ok (h, ts)" and i: "i < length ts" and r: "tl_running (ts ! i) = Some r"
    and n: "tl_running (ts ! i) \<noteq> tl_scheduler_fiber (ts ! i)" and st: "st = HOLD \<or> st = READY"
  shows "\<exists>h' m. tl_scheduler_fiber (ts ! i) = Some m \<and>
    Fiber_yield st h (ts ! i) = Inr (h', switched_to m (ts ! i)) \<and>
    fb_state (fiber_at h' r) = st \<and> sys_ok (h', ts[i := switched_to m (ts ! i)])"
proof -
  obtain m where t: "tl_threadFiber (ts ! i) = Some m" "tl_scheduler_fiber (ts ! i) = Some m"
    "tl_fiber (ts ! i) = Some r" "m \<noteq> r" "m < length (fh_fibers h)" "r < length (fh_fibers h)"
    "\<not> on_cpu ts m" "fb_ctx (fiber_at h m) = CtxResume m" "main_ok True m (fiber_at h m)"
    "\<not> is_main ts r" "task_ok True r (fiber_at h r)" "is_main ts m"
    by (rule suspend_runs [OF ok i r n])
  let ?h = "saved r (upd_fiber r (\<lambda>b. b\<lparr>fb_state := st, fb_stack_refs := fb_stack_refs b + 1\<rparr>) h)"
  have run: "Fiber_yield st h (ts ! i) = Inr (?h, switched_to m (ts ! i))"
    using t r by (intro yield_eq) (auto simp: task_ok_def)
  have "sys_ok (?h, ts[i := switched_to m (ts ! i)])"
    by (rule switch_preserves [OF ok i r t(5) t(4) [symmetric] t(7)])
       (use t st in \<open>auto simp: fiber_at_simps task_ok_def\<close>)
  with run t show ?thesis by (auto simp: fiber_at_simps)
qed

lemma finish_runs:
  assumes ok: "sys_ok (h, ts)" and i: "i < length ts" and r: "tl_running (ts ! i) = Some r"
    and n: "tl_running (ts ! i) \<noteq> tl_scheduler_fiber (ts ! i)"
  shows "\<exists>h' m. tl_scheduler_fiber (ts ! i) = Some m \<and>
    MainFunc_end out bt r h (ts ! i) = Inr (h', switched_to m (ts ! i)) \<and>
    fb_state (fiber_at h' r) = end_state out \<and> sys_ok (h', ts[i := switched_to m (ts ! i)])"
proof -
  obtain m where t: "tl_threadFiber (ts ! i) = Some m" "tl_scheduler_fiber (ts ! i) = Some m"
    "tl_fiber (ts ! i) = Some r" "m \<noteq> r" "m < length (fh_fibers h)" "r < length (fh_fibers h)"
    "\<not> on_cpu ts m" "fb_ctx (fiber_at h m) = CtxResume m" "main_ok True m (fiber_at h m)"
    "\<not> is_main ts r" "task_ok True r (fiber_at h r)" "is_main ts m"
    by (rule suspend_runs [OF ok i r n])
  note fin = cb_finished_at [where h = h and out = out and bt = bt and f = r]
  let ?h1 = "upd_fiber r (\<lambda>b. b\<lparr>fb_stack_refs := fb_stack_refs b - 1\<rparr>) (cb_finished out bt r h)"
  have len: "length (fh_fibers ?h1) = length (fh_fibers h)" using fin(1) [OF t(6)] by simp
  have "fb_ctx (fiber_at ?h1 m) = CtxResume m"
    using t fin(1,2) [OF t(5)] by (simp add: fiber_at_upd)
  then have run: "MainFunc_end out bt r h (ts ! i) = Inr (saved r ?h1, switched_to m (ts ! i))"
    using t r len by (simp add: MainFunc_end_def swapOut_eq)
  have "sys_ok (saved r ?h1, ts[i := switched_to m (ts ! i)])"
    by (rule switch_preserves [OF ok i r t(5) t(4) [symmetric] t(7)])
       (use t len fin(1) [OF t(6)] fin(2) fin(3,4,6) [OF t(6)] in
         \<open>auto simp: fiber_at_simps task_ok_def end_state_def\<close>)
  moreover have "fb_state (fiber_at (saved r ?h1) r) = end_state out"
    using t fin(1,3) [OF t(6)] by (simp add: fiber_at_simps)
  ultimately show ?thesis using run t by blast
qed

lemma sys_ok_bounds:
  assumes ok: "sys_ok (h, ts)" and i: "i < length ts"
  shows "tl_threadFiber (ts ! i) \<noteq> Some (length (fh_fibers h))"
    and "tl_running (ts ! i) \<noteq> Some (length (fh_fibers h))"
  by (rule sys_ok_thread [OF ok i], simp)+

lemma no_thread_at_end:
  assumes ok: "sys_ok (h, ts)"
  shows "\<not> is_main ts (length (fh_fibers h))" and "\<not> on_cpu ts (length (fh_fibers h))"
  using sys_ok_bounds [OF ok] by (auto simp: is_main_def on_cpu_def)

text \<open>A new fiber that nobody runs is added at the end of the list.\<close>

lemma sys_ok_append:
  assumes ok: "sys_ok (h, ts)" and h': "fh_fibers h' = fh_fibers h @ [b]"
    and b: "task_ok False (length (fh_fibers h)) b"
  shows "sys_ok (h', ts)"
proof (rule sys_okI)
  show "thread_ok h' t" if "t \<in> set ts" for t
    using ok that h' by (auto simp: sys_ok_def intro: thread_ok_longer)
  show "fibers_ok h' ts"
    unfolding fibers_ok_def
  proof (intro allI impI)
    fix k assume "k < length (fh_fibers h')"
    then have "k < length (fh_fibers h) \<or> k = length (fh_fibers h)" by (auto simp: h')
    then show "if is_main ts k then main_ok (on_cpu ts k) k (fiber_at h' k)
      else task_ok (on_cpu ts k) k (fiber_at h' k)"
      using sys_ok_fiber [OF ok, of k] no_thread_at_end [OF ok] b by (auto simp: h' nth_append)
  qed
  show "threads_apart ts" using ok by (simp add: sys_ok_def)
qed

lemma create_preserves:
  assumes "sys_ok (h, ts)" and "Fiber_new cb sz False h = (f, h')"
  shows "sys_ok (h', ts)"
proof (rule sys_ok_append [OF assms(1)])
  show "fh_fibers h' = fh_fibers h @ [last (fh_fibers h')]"
    using assms(2) by (auto simp: Fiber_new_def Let_def)
  show "task_ok False (length (fh_fibers h)) (last (fh_fibers h'))"
    using assms(2) by (auto simp: Fiber_new_def Let_def task_ok_def)
qed

lemma reset_preserves:
  assumes ok: "sys_ok (h, ts)" and f: "f < length (fh_fibers h)" and run: "Fiber_reset f cb h = Inr h'"
  shows "sys_ok (h', ts)"
proof (rule sys_okI)
  let ?g = "\<lambda>b. b\<lparr>fb_cb := cb, fb_ctx := CtxEntry, fb_entry := MainFunc, fb_state := INIT\<rparr>"
  have h': "h' = upd_fiber f ?g h" and st: "resettable (fb_state (fiber_at h f))"
    and stack: "fb_stack (fiber_at h f)"
    using run by (auto simp: Fiber_reset_def split: if_splits)
  show "thread_ok h' t" if "t \<in> set ts" for t
    using ok that by (auto simp: sys_ok_def h' intro: thread_ok_longer)
  have "fb_state (fiber_at h f) \<noteq> EXEC" using st by (auto simp: resettable_def)
  note task = not_exec_is_task [OF ok f this]
  show "fibers_ok h' ts"
    unfolding fibers_ok_def
  proof (intro allI impI)
    fix k assume "k < length (fh_fibers h')"
    then have k: "k < length (fh_fibers h)" by (simp add: h')
    show "if is_main ts k then main_ok (on_cpu ts k) k (fiber_at h' k)
      else task_ok (on_cpu ts k) k (fiber_at h' k)"
      using sys_ok_fiber [OF ok k] task st k
      by (cases "k = f") (auto simp: h' fiber_at_upd task_ok_def resettable_def)
  qed
  show "threads_apart ts" using ok by (simp add: sys_ok_def)
qed

lemma is_main_set: "is_main ts f \<longleftrightarrow> Some f \<in> tl_threadFiber ` set ts"
  unfolding is_main_def image_iff by (metis in_set_conv_nth)

lemma on_cpu_set: "on_cpu ts f \<longleftrightarrow> Some f \<in> tl_running ` set ts"
  unfolding on_cpu_def image_iff by (metis in_set_conv_nth)

lemma is_main_append: "is_main (ts @ [t]) f \<longleftrightarrow> is_main ts f \<or> tl_threadFiber t = Some f"
  unfolding is_main_set by auto

lemma on_cpu_append: "on_cpu (ts @ [t]) f \<longleftrightarrow> on_cpu ts f \<or> tl_running t = Some f"
  unfolding on_cpu_set by auto

lemma attach_preserves:
  assumes ok: "sys_ok (h, ts)" and run: "Fiber_GetThis h thread_locals_new = Inr (m, h', t)"
  shows "sys_ok (h', ts @ [t\<lparr>tl_scheduler_fiber := Some m\<rparr>])"
proof -
  let ?n = "length (fh_fibers h)"
  define b where "b = \<lparr>fb_id = 0, fb_stacksize = 0, fb_state = EXEC, fb_ctx = CtxUnset,
    fb_entry = NoEntry, fb_stack = False, fb_cb = None, fb_stack_refs = 0\<rparr>"
  let ?t = "t\<lparr>tl_scheduler_fiber := Some m\<rparr>"
  have m: "m = ?n" and h': "fh_fibers h' = fh_fibers h @ [b]"
    and t: "tl_threadFiber ?t = Some ?n" "tl_running ?t = Some ?n" "tl_fiber ?t = Some ?n"
      "tl_scheduler_fiber ?t = Some ?n"
    using run by (auto simp: Fiber_GetThis_def Fiber_main_new_def Fiber_SetThis_def Let_def
        thread_locals_new_def b_def)
  note old = sys_ok_bounds [OF ok]
  show ?thesis
  proof (rule sys_okI)
    have new: "thread_ok h' ?t"
      unfolding thread_ok_def t by (simp add: h')
    have "thread_ok h' u" if "u \<in> set ts" for u
      by (rule thread_ok_longer [of h]) (use ok that in \<open>simp_all add: sys_ok_def h'\<close>)
    with new show "thread_ok h' u" if "u \<in> set (ts @ [?t])" for u
      using that by auto
    show "fibers_ok h' (ts @ [?t])"
      unfolding fibers_ok_def
    proof (intro allI impI)
      fix k assume "k < length (fh_fibers h')"
      then have "k < ?n \<or> k = ?n" by (auto simp: h')
      then show "if is_main (ts @ [?t]) k then main_ok (on_cpu (ts @ [?t]) k) k (fiber_at h' k)
        else task_ok (on_cpu (ts @ [?t]) k) k (fiber_at h' k)"
      proof
        assume "k < ?n"
        then show ?thesis
          using sys_ok_fiber [OF ok \<open>k < ?n\<close>] unfolding is_main_append on_cpu_append t
          by (simp add: h' nth_append)
      next
        assume "k = ?n"
        then show ?thesis unfolding is_main_append on_cpu_append t
          by (simp add: h' main_ok_def b_def)
      qed
    qed
    show "threads_apart (ts @ [?t])"
      unfolding threads_apart_def
    proof (intro allI impI)
      fix i j assume "i < length (ts @ [?t])" "j < length (ts @ [?t])" "i \<noteq> j"
      then consider "i < length ts" "j < length ts" | "i < length ts" "j = length ts"
        | "i = length ts" "j < length ts" by fastforce
      then show "tl_running ((ts @ [?t]) ! i) \<noteq> tl_running ((ts @ [?t]) ! j) \<and>
        tl_threadFiber ((ts @ [?t]) ! i) \<noteq> tl_threadFiber ((ts @ [?t]) ! j) \<and>
        tl_running ((ts @ [?t]) ! i) \<noteq> tl_threadFiber ((ts @ [?t]) ! j)"
      proof cases
        case 1
        with ok \<open>i \<noteq> j\<close> show ?thesis by (simp add: sys_ok_def threads_apart_def nth_append)
      next
        case 2
        with old [of i] t show ?thesis by (simp add: nth_append)
      next
        case 3
        with old [of j] t show ?thesis by (simp add: nth_append)
      qed
    qed
  qed
qed


end
