(* ===== verification/Fiber_Runs.thy ===== *)
theory Fiber_Runs
  imports Fiber_Facts
begin

text \<open>
  The runs of worker threads over shared fibers, and the properties of fiber.cc that hold in
  every state they reach: a switch never hits a null scheduling fiber or a context that was never
  saved; it reaches the fiber it names; a yield meets its assertion exactly when a scheduler has
  stored \<open>HOLD\<close> in a running fiber; a suspended fiber stays alive by itself; identifiers are not reused. The last section shows the thread that was taken
  into the scheduler, and the calls that fail.
\<close>

section \<open>Reachable states\<close>

definition fiber_heap_new :: fiber_heap where
  "fiber_heap_new =
     \<lparr>fh_fibers = [], fh_fiber_id = 0, fh_fiber_count = 0, fh_stack_size = 128 * 1024, fh_log = []\<rparr>"

inductive fib_reach :: "fiber_heap \<times> thread_locals list \<Rightarrow> bool" where
  start: "fib_reach (fiber_heap_new, [])"
| step: "fib_reach s \<Longrightarrow> fib_step s s' \<Longrightarrow> fib_reach s'"

inductive_cases fib_stepE: "fib_step (h, ts) s'"

lemma fib_step_preserves:
  assumes "fib_step s s'" and "sys_ok s"
  shows "sys_ok s'"
  using assms
proof (induction rule: fib_step.induct)
  case (resume i ts f h h' t)
  then have "fb_state (fiber_at h f) \<in> {INIT, HOLD, READY}"
    using resume.hyps(5) by (cases "fb_state (fiber_at h f)")
      (auto simp: resettable_def Fiber_swapIn_def Let_def split: if_splits)
  from resume_runs [OF \<open>sys_ok (h, ts)\<close> resume.hyps(1-3) this] resume.hyps(5)
  show ?case by auto
next
  case (yield i ts st h h' t)
  obtain r where "tl_running (ts ! i) = Some r"
    by (rule sys_ok_thread [OF \<open>sys_ok (h, ts)\<close> yield.hyps(1)])
  from yield_runs [OF \<open>sys_ok (h, ts)\<close> yield.hyps(1) this yield.hyps(2,3)] yield.hyps(4)
  show ?case by auto
next
  case (finish i ts f out bt h h' t)
  from finish_runs [OF \<open>sys_ok (h, ts)\<close> finish.hyps(1-3), of out bt] finish.hyps(4)
  show ?case by auto
qed (auto intro: attach_preserves create_preserves reset_preserves)

lemma fib_reach_ok: "fib_reach s \<Longrightarrow> sys_ok s"
proof (induction rule: fib_reach.induct)
  case start
  show ?case by (simp add: sys_ok_def fibers_ok_def threads_apart_def fiber_heap_new_def)
next
  case (step s s')
  show ?case by (rule fib_step_preserves [OF step.hyps(2) step.IH])
qed

text \<open>A run that the examples below share: one worker, one fiber, resumed once, then suspended.\<close>

definition demo_attached :: "fiber_heap \<times> thread_locals list" where
  "demo_attached = (case Fiber_GetThis fiber_heap_new thread_locals_new of
     Inr (m, h, t) \<Rightarrow> (h, [t\<lparr>tl_scheduler_fiber := Some m\<rparr>]) | Inl _ \<Rightarrow> (fiber_heap_new, []))"

definition demo_created :: "fiber_heap \<times> thread_locals list" where
  "demo_created = (case demo_attached of (h, ts) \<Rightarrow> (snd (Fiber_new (Some 7) 0 False h), ts))"

definition demo_resumed :: "fiber_heap \<times> thread_locals list" where
  "demo_resumed = (case demo_created of (h, ts) \<Rightarrow>
     (case Fiber_swapIn 1 h (ts ! 0) of Inr (h', t) \<Rightarrow> (h', ts[0 := t]) | Inl _ \<Rightarrow> (h, ts)))"

definition demo_held :: "fiber_heap \<times> thread_locals list" where
  "demo_held = (case demo_resumed of (h, ts) \<Rightarrow>
     (case Fiber_yield HOLD h (ts ! 0) of Inr (h', t) \<Rightarrow> (h', ts[0 := t]) | Inl _ \<Rightarrow> (h, ts)))"

lemmas demo_defs = demo_held_def demo_resumed_def demo_created_def demo_attached_def
  Fiber_GetThis_def Fiber_main_new_def Fiber_SetThis_def Fiber_new_def Fiber_swapIn_def
  Fiber_yield_def Fiber_swapOut_def swap_context_def fiber_enter_def upd_fiber_def set_state_def
  emit_def fiber_heap_new_def thread_locals_new_def Let_def

lemma demo_threads:
  "snd demo_created = [\<lparr>tl_fiber = Some 0, tl_threadFiber = Some 0, tl_scheduler_fiber = Some 0, tl_running = Some 0\<rparr>]"
  "snd demo_resumed = [\<lparr>tl_fiber = Some 1, tl_threadFiber = Some 0, tl_scheduler_fiber = Some 0, tl_running = Some 1\<rparr>]"
  "snd demo_held = [\<lparr>tl_fiber = Some 0, tl_threadFiber = Some 0, tl_scheduler_fiber = Some 0, tl_running = Some 0\<rparr>]"
  by (simp_all add: demo_defs)

lemma demo_fiber:
  "length (fh_fibers (fst demo_created)) = 2" "fb_state (fiber_at (fst demo_created) 1) = INIT"
  "length (fh_fibers (fst demo_resumed)) = 2" "fb_state (fiber_at (fst demo_resumed) 1) = EXEC"
  "length (fh_fibers (fst demo_held)) = 2" "fb_state (fiber_at (fst demo_held) 1) = HOLD"
  by (simp_all add: demo_defs)

lemma demo_reach:
  "fib_reach (fst demo_created, snd demo_created)" "fib_reach (fst demo_resumed, snd demo_resumed)"
  "fib_reach (fst demo_held, snd demo_held)"
proof -
  have "fib_step (fiber_heap_new, []) demo_attached"
    using fib_step.attach [of fiber_heap_new _ _ _ "[]"]
    by (auto simp: demo_attached_def Fiber_GetThis_def Fiber_main_new_def Fiber_SetThis_def
        thread_locals_new_def Let_def)
  then have 1: "fib_reach demo_attached" by (rule fib_reach.step [OF fib_reach.start])
  have "fib_step (fst demo_attached, snd demo_attached) demo_created"
    unfolding demo_created_def case_prod_beta by (rule fib_step.create [OF prod.collapse [symmetric]])
  with 1 have 2: "fib_reach demo_created" by (simp add: fib_reach.step)
  have "fib_step (fst demo_created, snd demo_created) demo_resumed"
    using fib_step.resume [of 0 "snd demo_created" 1 "fst demo_created"] demo_threads demo_fiber
    by (simp add: demo_defs)
  with 2 have 3: "fib_reach demo_resumed" by (simp add: fib_reach.step)
  have "fib_step (fst demo_resumed, snd demo_resumed) demo_held"
    using fib_step.yield [of 0 "snd demo_resumed" HOLD "fst demo_resumed"] demo_threads demo_fiber
    by (simp add: demo_defs)
  with 3 have "fib_reach demo_held" by (simp add: fib_reach.step)
  with 2 3 show "fib_reach (fst demo_created, snd demo_created)"
    "fib_reach (fst demo_resumed, snd demo_resumed)" "fib_reach (fst demo_held, snd demo_held)"
    by simp_all
qed

section \<open>Switches, and the state that the scheduler stores\<close>

text \<open>
  \<open>Scheduler::run\<close> stores \<open>HOLD\<close> in a fiber after \<open>swapIn\<close> has returned. By then the fiber may have
  been resumed by another thread, so the store can hit a fiber that runs. The steps of the threads
  with such stores: at any time and whatever the state of the fiber is. What still holds is
  that the context of a fiber is its own and that of a scheduling fiber waits on its thread.
\<close>

inductive work_step ::
  "fiber_heap \<times> thread_locals list \<Rightarrow> fiber_heap \<times> thread_locals list \<Rightarrow> bool"
where
  switches: "fib_step s s' \<Longrightarrow> work_step s s'"
| stores_hold: "f < length (fh_fibers h) \<Longrightarrow> fb_stack (fiber_at h f) \<Longrightarrow>
    work_step (h, ts) (set_state f HOLD h, ts)"

inductive work_reach :: "fiber_heap \<times> thread_locals list \<Rightarrow> bool" where
  start: "work_reach (fiber_heap_new, [])"
| step: "work_reach s \<Longrightarrow> work_step s s' \<Longrightarrow> work_reach s'"

lemma fib_reach_work: "fib_reach s \<Longrightarrow> work_reach s"
  by (induction rule: fib_reach.induct) (auto intro: work_reach.intros work_step.switches)

definition main_kept :: "thread_locals list \<Rightarrow> nat \<Rightarrow> fiber \<Rightarrow> bool" where
  "main_kept ts f b \<longleftrightarrow> \<not> fb_stack b \<and> fb_state b = EXEC \<and> (on_cpu ts f \<or> fb_ctx b = CtxResume f)"

definition task_kept :: "nat \<Rightarrow> fiber \<Rightarrow> bool" where
  "task_kept f b \<longleftrightarrow> fb_stack b \<and> (fb_ctx b = CtxEntry \<or> fb_ctx b = CtxResume f)"

definition contexts_ok :: "fiber_heap \<times> thread_locals list \<Rightarrow> bool" where
  "contexts_ok s \<longleftrightarrow> (case s of (h, ts) \<Rightarrow>
     (\<forall>t \<in> set ts. thread_ok h t) \<and>
     (\<forall>f < length (fh_fibers h).
        if is_main ts f then main_kept ts f (fiber_at h f) else task_kept f (fiber_at h f)) \<and>
     (\<forall>i < length ts. \<forall>j < length ts. i \<noteq> j \<longrightarrow>
        tl_threadFiber (ts ! i) \<noteq> tl_threadFiber (ts ! j) \<and>
        tl_running (ts ! i) \<noteq> tl_threadFiber (ts ! j)))"

lemma contexts_okI:
  "(\<And>t. t \<in> set ts \<Longrightarrow> thread_ok h t) \<Longrightarrow>
   (\<And>f. f < length (fh_fibers h) \<Longrightarrow>
      if is_main ts f then main_kept ts f (fiber_at h f) else task_kept f (fiber_at h f)) \<Longrightarrow>
   (\<And>i j. i < length ts \<Longrightarrow> j < length ts \<Longrightarrow> i \<noteq> j \<Longrightarrow>
      tl_threadFiber (ts ! i) \<noteq> tl_threadFiber (ts ! j) \<and> tl_running (ts ! i) \<noteq> tl_threadFiber (ts ! j)) \<Longrightarrow>
   contexts_ok (h, ts)"
  by (simp add: contexts_ok_def)

lemma contexts_ok_at:
  "contexts_ok (h, ts) \<Longrightarrow> f < length (fh_fibers h) \<Longrightarrow>
     if is_main ts f then main_kept ts f (fiber_at h f) else task_kept f (fiber_at h f)"
  by (simp add: contexts_ok_def)

lemma contexts_ok_apart:
  "contexts_ok (h, ts) \<Longrightarrow> i < length ts \<Longrightarrow> j < length ts \<Longrightarrow> i \<noteq> j \<Longrightarrow>
     tl_threadFiber (ts ! i) \<noteq> tl_threadFiber (ts ! j) \<and> tl_running (ts ! i) \<noteq> tl_threadFiber (ts ! j)"
  by (simp add: contexts_ok_def)

lemma contexts_ok_thread:
  assumes "contexts_ok (h, ts)" and "i < length ts"
  obtains m r where "tl_threadFiber (ts ! i) = Some m" "tl_scheduler_fiber (ts ! i) = Some m"
    "tl_fiber (ts ! i) = Some r" "tl_running (ts ! i) = Some r"
    "m < length (fh_fibers h)" "r < length (fh_fibers h)" "is_main ts m"
    "r \<noteq> m \<Longrightarrow> \<not> is_main ts r" "r \<noteq> m \<Longrightarrow> fb_ctx (fiber_at h m) = CtxResume m"
proof -
  have "thread_ok h (ts ! i)" using assms by (simp add: contexts_ok_def)
  then obtain m r where t: "tl_threadFiber (ts ! i) = Some m" "tl_scheduler_fiber (ts ! i) = Some m"
    "tl_fiber (ts ! i) = Some r" "tl_running (ts ! i) = Some r"
    "m < length (fh_fibers h)" "r < length (fh_fibers h)"
    by (auto simp: thread_ok_def)
  have main: "is_main ts m" using t(1) assms(2) by (auto simp: is_main_def)
  have own: "j = i" if "j < length ts" "tl_running (ts ! j) = Some m" for j
    using contexts_ok_apart [OF assms(1) that(1) assms(2)] that(2) t(1) by metis
  have r: "\<not> is_main ts r" if "r \<noteq> m"
  proof
    assume "is_main ts r"
    then obtain j where j: "j < length ts" "tl_threadFiber (ts ! j) = Some r" by (auto simp: is_main_def)
    then have "j \<noteq> i" using t(1) that by auto
    with contexts_ok_apart [OF assms(1,2) j(1)] j(2) t(4) show False by auto
  qed
  have "fb_ctx (fiber_at h m) = CtxResume m" if "r \<noteq> m"
  proof -
    have "\<not> on_cpu ts m" using own t(4) that by (auto simp: on_cpu_def)
    with contexts_ok_at [OF assms(1) t(5)] main show ?thesis by (simp add: main_kept_def)
  qed
  with t main r show thesis by (rule that)
qed

text \<open>
  A switch of a thread from \<open>r\<close> to \<open>g\<close>, its own scheduling fiber or a task, that changes other
  fibers in their states and counts only.
\<close>

lemma contexts_switch:
  assumes ok: "contexts_ok (h, ts)" and i: "i < length ts" and r: "tl_running (ts ! i) = Some r"
    and g: "g < length (fh_fibers h)" and own: "is_main ts g \<Longrightarrow> tl_threadFiber (ts ! i) = Some g"
    and len: "length (fh_fibers h') = length (fh_fibers h)"
    and stack: "\<And>k. k < length (fh_fibers h) \<Longrightarrow> fb_stack (fiber_at h' k) = fb_stack (fiber_at h k)"
    and mains: "\<And>k. k < length (fh_fibers h) \<Longrightarrow> is_main ts k \<Longrightarrow> fb_state (fiber_at h' k) = fb_state (fiber_at h k)"
    and ctx: "\<And>k. k < length (fh_fibers h) \<Longrightarrow>
      fb_ctx (fiber_at h' k) = (if k = r then CtxResume r else fb_ctx (fiber_at h k))"
  shows "contexts_ok (h', ts[i := switched_to g (ts ! i)])"
proof (rule contexts_okI)
  fix t assume "t \<in> set (ts[i := switched_to g (ts ! i)])"
  then have "t = switched_to g (ts ! i) \<or> t \<in> set ts" using set_update_subset_insert by fastforce
  moreover have "thread_ok h (ts ! i)" "\<forall>t \<in> set ts. thread_ok h t" using ok i by (simp_all add: contexts_ok_def)
  ultimately show "thread_ok h' t" using g len by (auto simp: thread_ok_def switched_to_def)
next
  fix k assume "k < length (fh_fibers h')"
  then have k: "k < length (fh_fibers h)" by (simp add: len)
  have on: "on_cpu (ts[i := switched_to g (ts ! i)]) k" if "on_cpu ts k" "k \<noteq> r"
  proof -
    obtain j where j: "j < length ts" "tl_running (ts ! j) = Some k" using \<open>on_cpu ts k\<close> by (auto simp: on_cpu_def)
    with \<open>k \<noteq> r\<close> r have "j \<noteq> i" by auto
    with j show ?thesis by (auto simp: on_cpu_def switched_nth intro!: exI [of _ j])
  qed
  show "if is_main (ts[i := switched_to g (ts ! i)]) k
      then main_kept (ts[i := switched_to g (ts ! i)]) k (fiber_at h' k) else task_kept k (fiber_at h' k)"
    using contexts_ok_at [OF ok k] stack [OF k] mains [OF k] ctx [OF k] on
    by (cases "k = r") (auto simp: is_main_switched [OF i] main_kept_def task_kept_def)
next
  fix j k assume "j < length (ts[i := switched_to g (ts ! i)])" "k < length (ts[i := switched_to g (ts ! i)])"
    and "j \<noteq> k"
  then have jk: "j < length ts" "k < length ts" "j \<noteq> k" by simp_all
  have "Some g \<noteq> tl_threadFiber (ts ! k)" if "k \<noteq> i"
  proof
    assume a: "Some g = tl_threadFiber (ts ! k)"
    then have "is_main ts g" using jk(2) by (auto simp: is_main_def)
    from own [OF this] a contexts_ok_apart [OF ok i jk(2)] that show False by auto
  qed
  with contexts_ok_apart [OF ok jk] jk(3)
  show "tl_threadFiber (ts[i := switched_to g (ts ! i)] ! j) \<noteq> tl_threadFiber (ts[i := switched_to g (ts ! i)] ! k) \<and>
    tl_running (ts[i := switched_to g (ts ! i)] ! j) \<noteq> tl_threadFiber (ts[i := switched_to g (ts ! i)] ! k)"
    unfolding switched_nth [OF jk(1)] switched_nth [OF jk(2)] by auto
qed

lemma work_resume:
  assumes ok: "contexts_ok (h, ts)" and i: "i < length ts"
    and "tl_running (ts ! i) = tl_scheduler_fiber (ts ! i)" and f: "f < length (fh_fibers h)"
    and state: "fb_state (fiber_at h f) \<noteq> EXEC"
  shows "\<exists>h'. Fiber_swapIn f h (ts ! i) = Inr (h', switched_to f (ts ! i)) \<and>
    fb_state (fiber_at h' f) = EXEC \<and> contexts_ok (h', ts[i := switched_to f (ts ! i)])"
proof -
  obtain m where t: "tl_threadFiber (ts ! i) = Some m" "tl_scheduler_fiber (ts ! i) = Some m"
    "tl_running (ts ! i) = Some m" "m < length (fh_fibers h)" "is_main ts m"
    using contexts_ok_thread [OF ok i] assms(3) by metis
  have task: "\<not> is_main ts f" "task_kept f (fiber_at h f)"
    using contexts_ok_at [OF ok f] state by (auto simp: main_kept_def split: if_splits)
  then have "m \<noteq> f" using t(5) by auto
  let ?h = "fiber_enter f (saved m (set_state f EXEC h))"
  have run: "Fiber_swapIn f h (ts ! i) = Inr (?h, switched_to f (ts ! i))"
    using task(2) t f \<open>m \<noteq> f\<close> state by (intro swapIn_eq) (auto simp: task_kept_def)
  have "contexts_ok (?h, ts[i := switched_to f (ts ! i)])"
    by (rule contexts_switch [OF ok i t(3) f]) (use task f t(4) \<open>m \<noteq> f\<close> in \<open>auto simp: fiber_at_simps\<close>)
  moreover have "fb_state (fiber_at ?h f) = EXEC" using f \<open>m \<noteq> f\<close> by (simp add: fiber_at_simps)
  ultimately show ?thesis using run by blast
qed

lemma work_leave:
  assumes ok: "contexts_ok (h, ts)" and i: "i < length ts" and r: "tl_running (ts ! i) = Some r"
    and n: "tl_running (ts ! i) \<noteq> tl_scheduler_fiber (ts ! i)"
  obtains m where "tl_threadFiber (ts ! i) = Some m" "tl_scheduler_fiber (ts ! i) = Some m"
    "tl_fiber (ts ! i) = Some r" "m \<noteq> r" "m < length (fh_fibers h)" "r < length (fh_fibers h)"
    "fb_ctx (fiber_at h m) = CtxResume m" "\<not> is_main ts r"
proof -
  from contexts_ok_thread [OF ok i] obtain m r' where t: "tl_threadFiber (ts ! i) = Some m"
    "tl_scheduler_fiber (ts ! i) = Some m" "tl_fiber (ts ! i) = Some r'" "tl_running (ts ! i) = Some r'"
    "m < length (fh_fibers h)" "r' < length (fh_fibers h)"
    "r' \<noteq> m \<Longrightarrow> \<not> is_main ts r'" "r' \<noteq> m \<Longrightarrow> fb_ctx (fiber_at h m) = CtxResume m" by metis
  with r n show thesis by (intro that [of m]) auto
qed

lemma work_yield:
  assumes ok: "contexts_ok (h, ts)" and i: "i < length ts" and r: "tl_running (ts ! i) = Some r"
    and n: "tl_running (ts ! i) \<noteq> tl_scheduler_fiber (ts ! i)"
  shows "if fb_state (fiber_at h r) = EXEC
    then \<exists>h' m. tl_scheduler_fiber (ts ! i) = Some m \<and>
      Fiber_yield st h (ts ! i) = Inr (h', switched_to m (ts ! i)) \<and>
      fb_state (fiber_at h' r) = st \<and> contexts_ok (h', ts[i := switched_to m (ts ! i)])
    else Fiber_yield st h (ts ! i) = Inl AssertionFailed"
proof -
  obtain m where t: "tl_threadFiber (ts ! i) = Some m" "tl_scheduler_fiber (ts ! i) = Some m"
    "tl_fiber (ts ! i) = Some r" "m \<noteq> r" "m < length (fh_fibers h)" "r < length (fh_fibers h)"
    "fb_ctx (fiber_at h m) = CtxResume m" "\<not> is_main ts r"
    by (rule work_leave [OF ok i r n])
  let ?h = "saved r (upd_fiber r (\<lambda>b. b\<lparr>fb_state := st, fb_stack_refs := fb_stack_refs b + 1\<rparr>) h)"
  show ?thesis
  proof (cases "fb_state (fiber_at h r) = EXEC")
    case True
    have run: "Fiber_yield st h (ts ! i) = Inr (?h, switched_to m (ts ! i))"
      using t r True by (intro yield_eq) auto
    have "contexts_ok (?h, ts[i := switched_to m (ts ! i)])"
      by (rule contexts_switch [OF ok i r t(5)]) (use t in \<open>auto simp: fiber_at_simps\<close>)
    with True run t show ?thesis by (auto simp: fiber_at_simps)
  qed (simp add: Fiber_yield_def Fiber_GetThis_def t(3))
qed

lemma work_finish:
  assumes ok: "contexts_ok (h, ts)" and i: "i < length ts" and r: "tl_running (ts ! i) = Some r"
    and n: "tl_running (ts ! i) \<noteq> tl_scheduler_fiber (ts ! i)"
  shows "\<exists>h' m. tl_scheduler_fiber (ts ! i) = Some m \<and>
    MainFunc_end out bt r h (ts ! i) = Inr (h', switched_to m (ts ! i)) \<and>
    fb_state (fiber_at h' r) = end_state out \<and> contexts_ok (h', ts[i := switched_to m (ts ! i)])"
proof -
  obtain m where t: "tl_threadFiber (ts ! i) = Some m" "tl_scheduler_fiber (ts ! i) = Some m"
    "tl_fiber (ts ! i) = Some r" "m \<noteq> r" "m < length (fh_fibers h)" "r < length (fh_fibers h)"
    "fb_ctx (fiber_at h m) = CtxResume m" "\<not> is_main ts r"
    by (rule work_leave [OF ok i r n])
  note fin = cb_finished_at [where h = h and out = out and bt = bt and f = r]
  let ?h1 = "upd_fiber r (\<lambda>b. b\<lparr>fb_stack_refs := fb_stack_refs b - 1\<rparr>) (cb_finished out bt r h)"
  have len: "length (fh_fibers ?h1) = length (fh_fibers h)" using fin(1) [OF t(6)] by simp
  have "fb_ctx (fiber_at ?h1 m) = CtxResume m"
    using t fin(1,2) [OF t(5)] by (simp add: fiber_at_upd)
  then have run: "MainFunc_end out bt r h (ts ! i) = Inr (saved r ?h1, switched_to m (ts ! i))"
    using t r len by (simp add: MainFunc_end_def swapOut_eq)
  have "contexts_ok (saved r ?h1, ts[i := switched_to m (ts ! i)])"
    by (rule contexts_switch [OF ok i r t(5)])
       (use t len fin(1) [OF t(6)] fin(2,4,5) in \<open>auto simp: fiber_at_simps\<close>)
  moreover have "fb_state (fiber_at (saved r ?h1) r) = end_state out"
    using t fin(1,3) [OF t(6)] by (simp add: fiber_at_simps)
  ultimately show ?thesis using run t by blast
qed

text \<open>Steps that switch nothing: a fiber changes, or one is added that no thread knows.\<close>

lemma contexts_ok_frame:
  assumes ok: "contexts_ok (h, ts)" and len: "length (fh_fibers h') = length (fh_fibers h)"
    and mains: "\<And>k. k < length (fh_fibers h) \<Longrightarrow> is_main ts k \<Longrightarrow> fiber_at h' k = fiber_at h k"
    and tasks: "\<And>k. k < length (fh_fibers h) \<Longrightarrow> \<not> is_main ts k \<Longrightarrow> task_kept k (fiber_at h k) \<Longrightarrow> task_kept k (fiber_at h' k)"
  shows "contexts_ok (h', ts)"
proof (rule contexts_okI)
  show "thread_ok h' t" if "t \<in> set ts" for t
    using ok that len by (auto simp: contexts_ok_def intro: thread_ok_longer)
  show "if is_main ts k then main_kept ts k (fiber_at h' k) else task_kept k (fiber_at h' k)"
    if "k < length (fh_fibers h')" for k
    using contexts_ok_at [OF ok, of k] mains [of k] tasks [of k] that len by (cases "is_main ts k") simp_all
qed (rule contexts_ok_apart [OF ok])

lemma work_reset:
  assumes ok: "contexts_ok (h, ts)" and f: "f < length (fh_fibers h)" and run: "Fiber_reset f cb h = Inr h'"
  shows "contexts_ok (h', ts)"
proof (rule contexts_ok_frame [OF ok])
  have "\<not> is_main ts f" using run contexts_ok_at [OF ok f] by (auto simp: Fiber_reset_def main_kept_def split: if_splits)
  then show "fiber_at h' k = fiber_at h k" if "k < length (fh_fibers h)" "is_main ts k" for k
    using run that by (auto simp: Fiber_reset_def fiber_at_upd split: if_splits)
qed (use run in \<open>auto simp: Fiber_reset_def fiber_at_upd task_kept_def split: if_splits\<close>)

lemma work_hold:
  assumes ok: "contexts_ok (h, ts)" and f: "f < length (fh_fibers h)" and "fb_stack (fiber_at h f)"
  shows "contexts_ok (set_state f HOLD h, ts)"
proof (rule contexts_ok_frame [OF ok])
  have "\<not> is_main ts f" using contexts_ok_at [OF ok f] assms(3) by (auto simp: main_kept_def)
  then show "fiber_at (set_state f HOLD h) k = fiber_at h k" if "k < length (fh_fibers h)" "is_main ts k" for k
    using that by (auto simp: fiber_at_set_state)
qed (auto simp: fiber_at_set_state task_kept_def)

lemma contexts_ok_bounds:
  assumes ok: "contexts_ok (h, ts)" and i: "i < length ts"
  shows "tl_threadFiber (ts ! i) \<noteq> Some (length (fh_fibers h))"
    and "tl_running (ts ! i) \<noteq> Some (length (fh_fibers h))"
  by (rule contexts_ok_thread [OF ok i], simp)+

lemma work_create:
  assumes ok: "contexts_ok (h, ts)" and new: "Fiber_new cb sz False h = (f, h')"
  shows "contexts_ok (h', ts)"
proof (rule contexts_okI)
  have h': "fh_fibers h' = fh_fibers h @ [last (fh_fibers h')]" "task_kept (length (fh_fibers h)) (last (fh_fibers h'))"
    using new by (auto simp: Fiber_new_def Let_def task_kept_def)
  then have len: "length (fh_fibers h') = Suc (length (fh_fibers h))" by (metis length_append_singleton)
  show "thread_ok h' t" if "t \<in> set ts" for t
    using ok that len by (auto simp: contexts_ok_def intro: thread_ok_longer)
  have no: "\<not> is_main ts (length (fh_fibers h))" using contexts_ok_bounds [OF ok] by (auto simp: is_main_def)
  show "if is_main ts k then main_kept ts k (fiber_at h' k) else task_kept k (fiber_at h' k)"
    if "k < length (fh_fibers h')" for k
  proof (cases "k = length (fh_fibers h)")
    case True
    then have "fiber_at h' k = last (fh_fibers h')" using h'(1) by (metis nth_append_length)
    with True no h'(2) show ?thesis by simp
  next
    case False
    then have k: "k < length (fh_fibers h)" using that len by simp
    then have "fiber_at h' k = fiber_at h k" using h'(1) by (metis nth_append)
    with contexts_ok_at [OF ok k] show ?thesis by simp
  qed
qed (rule contexts_ok_apart [OF ok])

lemma work_attach:
  assumes ok: "contexts_ok (h, ts)" and run: "Fiber_GetThis h thread_locals_new = Inr (m, h', t)"
  shows "contexts_ok (h', ts @ [t\<lparr>tl_scheduler_fiber := Some m\<rparr>])"
proof (rule contexts_okI)
  let ?n = "length (fh_fibers h)"
  let ?t = "t\<lparr>tl_scheduler_fiber := Some m\<rparr>"
  let ?b = "last (fh_fibers h')"
  have h': "fh_fibers h' = fh_fibers h @ [?b]" "\<not> fb_stack ?b" "fb_state ?b = EXEC"
    and t: "tl_threadFiber ?t = Some ?n" "tl_running ?t = Some ?n" "tl_fiber ?t = Some ?n"
      "tl_scheduler_fiber ?t = Some ?n"
    using run by (auto simp: Fiber_GetThis_def Fiber_main_new_def Fiber_SetThis_def Let_def thread_locals_new_def)
  then have len: "length (fh_fibers h') = Suc ?n" by (metis length_append_singleton)
  have new: "thread_ok h' ?t" unfolding thread_ok_def t by (simp add: len)
  have "thread_ok h' u" if "u \<in> set ts" for u
    using ok that len by (auto simp: contexts_ok_def intro: thread_ok_longer)
  with new show "thread_ok h' u" if "u \<in> set (ts @ [?t])" for u using that by auto
  show "if is_main (ts @ [?t]) k then main_kept (ts @ [?t]) k (fiber_at h' k) else task_kept k (fiber_at h' k)"
    if "k < length (fh_fibers h')" for k
  proof (cases "k = ?n")
    case True
    then have "fiber_at h' k = ?b" using h'(1) by (metis nth_append_length)
    with True h'(2,3) show ?thesis unfolding is_main_append main_kept_def on_cpu_append t by simp
  next
    case False
    then have k: "k < ?n" using that len by simp
    then have "fiber_at h' k = fiber_at h k" using h'(1) by (metis nth_append)
    with contexts_ok_at [OF ok k] False show ?thesis unfolding is_main_append main_kept_def on_cpu_append t by simp
  qed
  fix i j assume "i < length (ts @ [?t])" "j < length (ts @ [?t])" "i \<noteq> j"
  then consider "i < length ts" "j < length ts" | "i < length ts" "j = length ts"
    | "i = length ts" "j < length ts" by fastforce
  then show "tl_threadFiber ((ts @ [?t]) ! i) \<noteq> tl_threadFiber ((ts @ [?t]) ! j) \<and>
    tl_running ((ts @ [?t]) ! i) \<noteq> tl_threadFiber ((ts @ [?t]) ! j)"
  proof cases
    case 1
    with contexts_ok_apart [OF ok 1 \<open>i \<noteq> j\<close>] show ?thesis by (simp add: nth_append)
  next
    case 2
    with contexts_ok_bounds [OF ok, of i] t show ?thesis by (simp add: nth_append)
  next
    case 3
    with contexts_ok_bounds [OF ok, of j] t show ?thesis by (simp add: nth_append)
  qed
qed

lemma fib_step_contexts:
  assumes "fib_step s s'" and "contexts_ok s"
  shows "contexts_ok s'"
  using assms
proof (induction rule: fib_step.induct)
  case (resume i ts f h h' t)
  then have "fb_state (fiber_at h f) \<noteq> EXEC" by (auto simp: Fiber_swapIn_def Let_def)
  from work_resume [OF resume.prems resume.hyps(1-3) this] resume.hyps(5) show ?case by auto
next
  case (yield i ts st h h' t)
  obtain r where "tl_running (ts ! i) = Some r"
    using contexts_ok_thread [OF yield.prems yield.hyps(1)] by metis
  from work_yield [OF yield.prems yield.hyps(1) this yield.hyps(2), of st] yield.hyps(4)
  show ?case by (auto split: if_splits)
next
  case (finish i ts f out bt h h' t)
  from work_finish [OF finish.prems finish.hyps(1-3), of out bt] finish.hyps(4) show ?case by auto
qed (auto intro: work_attach work_create work_reset)

lemma work_reach_ok: "work_reach s \<Longrightarrow> contexts_ok s"
proof (induction rule: work_reach.induct)
  case start
  show ?case by (simp add: contexts_ok_def fiber_heap_new_def)
next
  case (step s s')
  from step.hyps(2) step.IH show ?case
    by (induction rule: work_step.induct) (auto intro: fib_step_contexts work_hold)
qed

text \<open>In the example: another thread stores \<open>HOLD\<close> in the fiber while it runs.\<close>

lemma demo_raced: "work_reach (set_state 1 HOLD (fst demo_resumed), snd demo_resumed)"
  by (rule work_reach.step [OF fib_reach_work [OF demo_reach(2)] work_step.stores_hold])
    (simp_all add: demo_defs)

section \<open>Switches between worker threads\<close>

text \<open>
  C26: In every state the worker threads can reach, with a scheduler that stores \<open>HOLD\<close> in fibers
  at any time, the scheduling fiber of a thread can resume any fiber whose state is that of a fresh
  or suspended one: \<open>swapIn\<close> meets no assertion, no null pointer and no unusable context;
  afterwards the thread runs exactly that fiber, \<open>t_fiber\<close> names it, and its state is \<open>EXEC\<close>. (The
  state is all that \<open>swapIn\<close> looks at; with the race of \<open>Scheduler_Runs\<close> the fiber may run elsewhere.)
\<close>

theorem resume_enters_fiber:
  assumes "work_reach (h, ts)" and "i < length ts"
    and "tl_running (ts ! i) = tl_scheduler_fiber (ts ! i)" and "f < length (fh_fibers h)"
    and "fb_state (fiber_at h f) \<in> {INIT, HOLD, READY}"
  shows "\<exists>h' t. Fiber_swapIn f h (ts ! i) = Inr (h', t) \<and> tl_running t = Some f \<and>
    tl_fiber t = Some f \<and> fb_state (fiber_at h' f) = EXEC \<and>
    Fiber_GetFiberId h' t = fb_id (fiber_at h' f)"
proof -
  have "fb_state (fiber_at h f) \<noteq> EXEC" using assms(5) by auto
  from work_resume [OF work_reach_ok [OF assms(1)] assms(2-4) this] show ?thesis
    by (auto simp: switched_to_def Fiber_GetFiberId_def)
qed

theorem resume_enters_fiber_witness:
  "\<exists>h' t. Fiber_swapIn 1 (fst demo_held) (snd demo_held ! 0) = Inr (h', t) \<and> tl_running t = Some 1 \<and>
    tl_fiber t = Some 1 \<and> fb_state (fiber_at h' 1) = EXEC \<and>
    Fiber_GetFiberId h' t = fb_id (fiber_at h' 1)"
  by (rule resume_enters_fiber [OF fib_reach_work [OF demo_reach(3)]])
    (simp_all add: demo_threads demo_fiber [simplified])

text \<open>
  C8: In every state the worker threads can reach, with a scheduler that stores \<open>HOLD\<close> in fibers
  at any time, as \<open>run\<close> does after \<open>swapIn\<close>: a fiber that runs on a worker thread and ends (by
  returning or by any exception) gives the thread back to its scheduling fiber, no switch fails,
  \<open>t_fiber\<close> names the scheduling fiber again, and the fiber's state says how it left. The same
  for both yields as long as the state of the fiber is \<open>EXEC\<close>, which it always is when no \<open>HOLD\<close> is
  stored in a running fiber; otherwise the assertion of the yield fails and nothing else happens.
\<close>

theorem leaving_returns_to_scheduler:
  assumes "work_reach (h, ts)" and "i < length ts" and "tl_running (ts ! i) = Some r"
    and "tl_running (ts ! i) \<noteq> tl_scheduler_fiber (ts ! i)"
  shows "(if fb_state (fiber_at h r) = EXEC then
      (\<exists>h' t. Fiber_YieldToReady h (ts ! i) = Inr (h', t) \<and> fb_state (fiber_at h' r) = READY \<and>
        tl_running t = tl_scheduler_fiber (ts ! i) \<and> tl_fiber t = tl_scheduler_fiber (ts ! i)) \<and>
      (\<exists>h' t. Fiber_YieldToHold h (ts ! i) = Inr (h', t) \<and> fb_state (fiber_at h' r) = HOLD \<and>
        tl_running t = tl_scheduler_fiber (ts ! i) \<and> tl_fiber t = tl_scheduler_fiber (ts ! i))
    else Fiber_YieldToReady h (ts ! i) = Inl AssertionFailed \<and> Fiber_YieldToHold h (ts ! i) = Inl AssertionFailed) \<and>
    (\<exists>h' t. MainFunc_end out bt r h (ts ! i) = Inr (h', t) \<and>
      fb_state (fiber_at h' r) = (if out = Returned then TERM' else EXCEPT) \<and>
      tl_running t = tl_scheduler_fiber (ts ! i) \<and> tl_fiber t = tl_scheduler_fiber (ts ! i)) \<and>
    (fib_reach (h, ts) \<longrightarrow> fb_state (fiber_at h r) = EXEC)"
proof -
  note ok = work_reach_ok [OF assms(1)]
  have "fb_state (fiber_at h r) = EXEC" if "fib_reach (h, ts)"
    by (rule suspend_runs [OF fib_reach_ok [OF that] assms(2-4)]) (simp add: task_ok_def)
  with work_yield [OF ok assms(2-4), of READY] work_yield [OF ok assms(2-4), of HOLD]
    work_finish [OF ok assms(2-4), of out bt] show ?thesis
    by (auto simp: Fiber_YieldToReady_def Fiber_YieldToHold_def switched_to_def end_state_def)
qed

theorem leaving_returns_to_scheduler_witness:
  "(\<exists>h' t. MainFunc_end (Threw ''bad'') ''bt'' 1 (fst demo_resumed) (snd demo_resumed ! 0) = Inr (h', t) \<and>
     fb_state (fiber_at h' 1) = EXCEPT \<and> tl_running t = tl_scheduler_fiber (snd demo_resumed ! 0) \<and>
     tl_fiber t = tl_scheduler_fiber (snd demo_resumed ! 0)) \<and>
   (\<exists>h' t. Fiber_YieldToHold (fst demo_resumed) (snd demo_resumed ! 0) = Inr (h', t) \<and> fb_state (fiber_at h' 1) = HOLD) \<and>
   Fiber_YieldToHold (set_state 1 HOLD (fst demo_resumed)) (snd demo_resumed ! 0) = Inl AssertionFailed"
proof -
  have t: "0 < length (snd demo_resumed)" "tl_running (snd demo_resumed ! 0) = Some 1"
    "tl_running (snd demo_resumed ! 0) \<noteq> tl_scheduler_fiber (snd demo_resumed ! 0)"
    by (simp_all add: demo_threads)
  note one = leaving_returns_to_scheduler [OF fib_reach_work [OF demo_reach(2)] t, of "Threw ''bad''" "''bt''"]
    and two = leaving_returns_to_scheduler [OF demo_raced t]
  have "fb_state (fiber_at (set_state 1 HOLD (fst demo_resumed)) 1) = HOLD"
    using demo_fiber(3) by (simp add: fiber_at_set_state)
  with two have "Fiber_YieldToHold (set_state 1 HOLD (fst demo_resumed)) (snd demo_resumed ! 0) = Inl AssertionFailed"
    by simp
  with one demo_fiber(4) show ?thesis by auto
qed

text \<open>
  C36: In every state that the switches of fiber.cc reach, a suspended fiber cannot be destroyed by
  dropping the last outside pointer to it: its own stack holds two \<open>Fiber::ptr\<close> to it (the one of
  \<open>MainFunc\<close> and the one of the yield). So \<open>cb_fiber.reset()\<close> in \<open>Scheduler::run\<close>, about which the
  code asks whether it destroys the fiber, does not; and a destructor run at that point would
  stop at its assertion.
\<close>

theorem suspended_fiber_stays_alive:
  assumes "fib_reach (h, ts)" and "f < length (fh_fibers h)"
    and "fb_state (fiber_at h f) = HOLD \<or> fb_state (fiber_at h f) = READY"
  shows "fb_stack_refs (fiber_at h f) = 2 \<and> Fiber_destroy f h t = Inl AssertionFailed"
proof -
  have "fb_state (fiber_at h f) \<noteq> EXEC" using assms(3) by auto
  from not_exec_is_task(3) [OF fib_reach_ok [OF assms(1)] assms(2) this] assms(3)
  show ?thesis by (auto simp: task_ok_def Fiber_destroy_def resettable_def Let_def)
qed

theorem suspended_fiber_stays_alive_witness:
  "fb_stack_refs (fiber_at (fst demo_held) 1) = 2 \<and>
   Fiber_destroy 1 (fst demo_held) thread_locals_new = Inl AssertionFailed"
  by (rule suspended_fiber_stays_alive [OF demo_reach(3)]) (simp_all add: demo_fiber [simplified])

section \<open>Identifiers\<close>

text \<open>What the identifiers depend on: only construction changes it.\<close>

definition ident_view :: "fiber_heap \<Rightarrow> (u64 \<times> bool) list \<times> u64 \<times> u64" where
  "ident_view h =
     (map (\<lambda>b. (fb_id b, fb_stack b)) (fh_fibers h), fh_fiber_id h, fh_fiber_count h)"

lemma ident_view_upd:
  "(\<And>b. fb_id (g b) = fb_id b \<and> fb_stack (g b) = fb_stack b) \<Longrightarrow>
     ident_view (upd_fiber f g h) = ident_view h"
  by (cases "f < length (fh_fibers h)")
     (auto simp: ident_view_def upd_fiber_def map_update list_update_same_conv list_update_beyond)

lemma ident_view_simps [simp]:
  "ident_view (set_state f st h) = ident_view h"
  "ident_view (fiber_enter f h) = ident_view h"
  "ident_view (emit l t h) = ident_view h"
  "ident_view (cb_finished out bt f h) = ident_view h"
proof -
  show emit: "ident_view (emit l t h) = ident_view h" for l t h by (simp add: ident_view_def emit_def)
  show "ident_view (set_state f st h) = ident_view h" "ident_view (fiber_enter f h) = ident_view h"
    "ident_view (cb_finished out bt f h) = ident_view h"
    by (simp_all add: set_state_def fiber_enter_def cb_finished_def Let_def ident_view_upd emit
        split: cb_end.split)
qed

lemma ident_view_switch:
  "swap_context a b h t = Inr (h', t') \<Longrightarrow> ident_view h' = ident_view h"
  "Fiber_swapIn f h t = Inr (h', t') \<Longrightarrow> ident_view h' = ident_view h"
  "Fiber_swapOut f h t = Inr (h', t') \<Longrightarrow> ident_view h' = ident_view h"
proof -
  show swap: "ident_view h' = ident_view h" if "swap_context a b h t = Inr (h', t')" for a b h t h' t'
    using that by (auto simp: swap_context_def Let_def ident_view_upd split: option.splits fiber_ctx.splits)
  show "Fiber_swapIn f h t = Inr (h', t') \<Longrightarrow> ident_view h' = ident_view h"
    by (auto simp: Fiber_swapIn_def Let_def dest!: swap split: option.splits sum.splits if_splits)
  show "Fiber_swapOut f h t = Inr (h', t') \<Longrightarrow> ident_view h' = ident_view h"
    by (auto simp: Fiber_swapOut_def Let_def dest!: swap split: option.splits)
qed

definition idents :: "fiber_heap \<Rightarrow> u64 list" where
  "idents h = map fb_id (filter fb_stack (fh_fibers h))"

definition idents_ok :: "fiber_heap \<Rightarrow> bool" where
  "idents_ok h \<longleftrightarrow> idents h = map (\<lambda>k. of_nat (Suc k)) [0..<length (idents h)] \<and>
     fh_fiber_id h = of_nat (length (idents h)) \<and>
     fh_fiber_count h = of_nat (length (fh_fibers h))"

lemma idents_view: "idents h = map fst (filter snd (fst (ident_view h)))"
  by (simp add: idents_def ident_view_def filter_map comp_def)

lemma idents_ok_view: "ident_view h' = ident_view h \<Longrightarrow> idents_ok h \<Longrightarrow> idents_ok h'"
proof -
  assume v: "ident_view h' = ident_view h" and ok: "idents_ok h"
  have "length (fh_fibers h') = length (fh_fibers h)" "fh_fiber_id h' = fh_fiber_id h"
    "fh_fiber_count h' = fh_fiber_count h"
    using v by (auto simp: ident_view_def dest: map_eq_imp_length_eq)
  with v ok show "idents_ok h'" by (simp add: idents_ok_def idents_view)
qed

lemma idents_ok_GetThis: "Fiber_GetThis h t = Inr (m, h', t') \<Longrightarrow> idents_ok h \<Longrightarrow> idents_ok h'"
  by (auto simp: Fiber_GetThis_def Fiber_main_new_def Let_def idents_ok_def idents_def emit_def
      split: option.splits if_splits)

lemma idents_ok_step:
  assumes "fib_step s s'" and "idents_ok (fst s)"
  shows "idents_ok (fst s')"
  using assms
proof (induction rule: fib_step.induct)
  case (attach h m h' t ts)
  then show ?case by (auto dest: idents_ok_GetThis)
next
  case (create cb sz h f h' ts)
  then show ?case by (auto simp: Fiber_new_def Let_def idents_ok_def idents_def emit_def)
next
  case (reset f h cb h' ts)
  then show ?case
    by (auto simp: Fiber_reset_def ident_view_upd split: if_splits intro: idents_ok_view [rotated])
next
  case (resume i ts f h h' t)
  then show ?case by (auto dest: ident_view_switch idents_ok_view)
next
  case (yield i ts st h h' t)
  then obtain m h1 t1 where "Fiber_GetThis h (ts ! i) = Inr (m, h1, t1)" "ident_view h' = ident_view h1"
    by (auto simp: Fiber_yield_def ident_view_upd split: sum.splits if_splits
        dest!: ident_view_switch(3))
  with yield.prems show ?case by (metis fst_conv idents_ok_GetThis idents_ok_view)
next
  case (finish i ts f out bt h h' t)
  then show ?case
    by (auto simp: MainFunc_end_def ident_view_upd dest!: ident_view_switch(3) intro: idents_ok_view [rotated])
qed

lemma fib_reach_idents: "fib_reach s \<Longrightarrow> idents_ok (fst s)"
proof (induction rule: fib_reach.induct)
  case start
  show ?case by (simp add: fiber_heap_new_def idents_ok_def idents_def)
next
  case (step s s')
  show ?case by (rule idents_ok_step [OF step.hyps(2) step.IH])
qed

lemma idents_filter_nth:
  "f < length bs \<Longrightarrow> g < length bs \<Longrightarrow> f \<noteq> g \<Longrightarrow> P (bs ! f) \<Longrightarrow> P (bs ! g) \<Longrightarrow>
     distinct (map k (filter P bs)) \<Longrightarrow> k (bs ! f) \<noteq> k (bs ! g)"
proof (induction bs arbitrary: f g)
  case (Cons b bs)
  show ?case
  proof (cases "f = 0 \<or> g = 0")
    case True
    with Cons.prems show ?thesis by (cases f; cases g) (auto simp: image_iff)
  next
    case False
    then show ?thesis using Cons.prems Cons.IH [of "f - 1" "g - 1"]
      by (cases f; cases g) (auto split: if_splits)
  qed
qed simp

text \<open>
  As long as fewer than 2^64 fibers with a stack were constructed, in every reachable state
  their identifiers are different from each other and from the identifier 0 of the main
  fibers, and \<open>TotalFibers\<close> is the number of fibers constructed.
\<close>

theorem fiber_ids_unique:
  assumes "fib_reach (h, ts)" and "length (filter fb_stack (fh_fibers h)) < 2 ^ 64 - 1"
    and "f < length (fh_fibers h)" "g < length (fh_fibers h)" "f \<noteq> g"
    and "fb_stack (fiber_at h f)" "fb_stack (fiber_at h g)"
  shows "fb_id (fiber_at h f) \<noteq> fb_id (fiber_at h g) \<and> fb_id (fiber_at h f) \<noteq> 0 \<and>
    Fiber_TotalFibers h = of_nat (length (fh_fibers h))"
proof -
  have ok: "idents_ok h" using fib_reach_idents [OF assms(1)] by simp
  have small: "of_nat (Suc k) \<noteq> (0 :: u64)" "unat (of_nat (Suc k) :: u64) = Suc k"
    if "k < length (idents h)" for k
  proof -
    from that assms(2) have "Suc k < 2 ^ 64" by (simp add: idents_def)
    then show u: "unat (of_nat (Suc k) :: u64) = Suc k"
      by (simp add: unat_of_nat take_bit_nat_eq_self del: of_nat_Suc)
    then show "of_nat (Suc k) \<noteq> (0 :: u64)" by (metis nat.distinct(1) unat_0)
  qed
  have eq: "idents h = map (\<lambda>k. of_nat (Suc k)) [0..<length (idents h)]"
    using ok by (simp add: idents_ok_def)
  have "distinct (map (\<lambda>k. of_nat (Suc k) :: u64) [0..<length (idents h)])"
    unfolding distinct_map
  proof
    show "inj_on (\<lambda>k. of_nat (Suc k) :: u64) (set [0..<length (idents h)])"
      by (rule inj_onI) (metis Suc_inject atLeastLessThan_iff set_upt small(2))
  qed simp
  with eq have dist: "distinct (idents h)" by simp
  have "fb_id (fiber_at h f) \<in> set (idents h)" using assms by (auto simp: idents_def)
  with eq small(1) have "fb_id (fiber_at h f) \<noteq> 0" by (metis (no_types, lifting) imageE list.set_map atLeastLessThan_iff set_upt)
  moreover have "fb_id (fiber_at h f) \<noteq> fb_id (fiber_at h g)"
    using idents_filter_nth [OF assms(3-7)] dist by (simp add: idents_def)
  ultimately show ?thesis using ok by (simp add: idents_ok_def Fiber_TotalFibers_def)
qed

text \<open>
  For the instance: the run above with a second fiber.
\<close>

definition demo_two :: fiber_heap where
  "demo_two = snd (Fiber_new (Some 8) 0 False (fst demo_held))"

lemma demo_two_reach: "fib_reach (demo_two, snd demo_held)"
  unfolding demo_two_def
  by (rule fib_reach.step [OF demo_reach(3)], rule fib_step.create [OF prod.collapse [symmetric]])

lemma demo_two_fibers:
  "length (fh_fibers demo_two) = 3" "map fb_stack (fh_fibers demo_two) = [False, True, True]"
  by (simp_all add: demo_two_def demo_defs)

theorem fiber_ids_unique_witness:
  "fb_id (fiber_at demo_two 1) \<noteq> fb_id (fiber_at demo_two 2) \<and> fb_id (fiber_at demo_two 1) \<noteq> 0 \<and>
   Fiber_TotalFibers demo_two = of_nat (length (fh_fibers demo_two))"
  by (rule fiber_ids_unique [OF demo_two_reach]) (simp_all add: demo_two_def demo_defs)

section \<open>The caller's thread, and the calls that fail\<close>

text \<open>
  With \<open>use_caller\<close> the scheduling fiber of the constructing thread is the root fiber, which is
  not its main fiber (\<open>Scheduler::Scheduler\<close>). The example: main fiber 0, root fiber 1 that
  the main fiber calls, and a task 2 that the root fiber resumes.
\<close>

definition caller_root :: "fiber_heap \<times> thread_locals" where
  "caller_root = (case Fiber_GetThis fiber_heap_new thread_locals_new of
     Inr (m, h, t) \<Rightarrow>
       (case Fiber_call 1 (snd (Fiber_new (Some 5) 0 True h)) (t\<lparr>tl_scheduler_fiber := Some 1\<rparr>) of
          Inr ht \<Rightarrow> ht | Inl _ \<Rightarrow> (h, t))
   | Inl _ \<Rightarrow> (fiber_heap_new, thread_locals_new))"

definition caller_task :: "fiber_heap \<times> thread_locals" where
  "caller_task = (case caller_root of (h, t) \<Rightarrow>
     (case Fiber_swapIn 2 (snd (Fiber_new (Some 6) 0 False h)) t of Inr ht \<Rightarrow> ht | Inl _ \<Rightarrow> (h, t)))"

text \<open>
  On the caller's thread a task that is swapped out leaves \<open>t_fiber\<close> wrong: control goes to
  the root fiber, but \<open>swapOut\<close> stores the main fiber of the thread, so \<open>GetFiberId\<close> reports
  the identifier of the main fiber while the root fiber runs (every event that the scheduling
  loop logs carries it).
\<close>

theorem caller_thread_misreports_fiber:
  assumes "tl_threadFiber t = Some m" and "tl_scheduler_fiber t = Some r" and "m \<noteq> r"
    and "tl_running t = Some f" and "f \<noteq> r" and "r < length (fh_fibers h)"
    and "fb_ctx (fiber_at h r) = CtxResume r" and "f < length (fh_fibers h)" and "m < length (fh_fibers h)"
  shows "\<exists>h' t'. Fiber_swapOut f h t = Inr (h', t') \<and> tl_running t' = Some r \<and>
    tl_fiber t' = Some m \<and> Fiber_GetFiberId h' t' = fb_id (fiber_at h m)"
  using assms
  by (simp add: Fiber_swapOut_def swap_context_def Let_def Fiber_SetThis_def Fiber_GetFiberId_def
      fiber_at_simps)

lemmas caller_defs = caller_task_def caller_root_def Fiber_call_def demo_defs

theorem caller_thread_misreports_fiber_witness:
  "\<exists>h' t'. Fiber_swapOut 2 (fst caller_task) (snd caller_task) = Inr (h', t') \<and>
     tl_running t' = Some 1 \<and> tl_fiber t' = Some 0 \<and>
     Fiber_GetFiberId h' t' = fb_id (fiber_at (fst caller_task) 0)"
  by (rule caller_thread_misreports_fiber) (simp_all add: caller_defs)

text \<open>
  A thread that no scheduler has taken over has no scheduling fiber: \<open>swapIn\<close>, and both
  yields of the running fiber, dereference null there (tests/fiber_test.cc calls \<open>swapIn\<close> on
  such threads).
\<close>

theorem no_scheduler_null_fiber:
  assumes "tl_scheduler_fiber t = None" and "fb_state (fiber_at h f) \<noteq> EXEC"
    and "tl_fiber t = Some r" and "fb_state (fiber_at h r) = EXEC"
  shows "Fiber_swapIn f h t = Inl NullFiber \<and> Fiber_YieldToReady h t = Inl NullFiber \<and>
    Fiber_YieldToHold h t = Inl NullFiber"
  using assms
  by (simp add: Fiber_swapIn_def Fiber_SetThis_def Let_def Fiber_YieldToReady_def
      Fiber_YieldToHold_def Fiber_yield_def Fiber_GetThis_def Fiber_swapOut_def)

definition plain_thread :: "fiber_heap \<times> thread_locals" where
  "plain_thread = (case Fiber_GetThis fiber_heap_new thread_locals_new of
     Inr (m, h, t) \<Rightarrow> (snd (Fiber_new (Some 5) 0 False h), t) | Inl _ \<Rightarrow> (fiber_heap_new, thread_locals_new))"

theorem no_scheduler_null_fiber_witness:
  "Fiber_swapIn 1 (fst plain_thread) (snd plain_thread) = Inl NullFiber \<and>
   Fiber_YieldToReady (fst plain_thread) (snd plain_thread) = Inl NullFiber \<and>
   Fiber_YieldToHold (fst plain_thread) (snd plain_thread) = Inl NullFiber"
  by (rule no_scheduler_null_fiber [of _ _ _ 0]) (simp_all add: plain_thread_def demo_defs)

text \<open>
  \<open>reset\<close> succeeds exactly on fibers with a stack that are fresh or have ended, and makes
  them fresh; the entry point is then \<open>MainFunc\<close>, so a fiber constructed with \<open>use_caller\<close> no
  longer returns to the main fiber that calls it.
\<close>

theorem reset_functional:
  assumes "f < length (fh_fibers h)"
  shows "(\<exists>h'. Fiber_reset f cb h = Inr h' \<and> fb_state (fiber_at h' f) = INIT \<and>
      fb_cb (fiber_at h' f) = cb \<and> fb_entry (fiber_at h' f) = MainFunc \<and>
      fb_ctx (fiber_at h' f) = CtxEntry \<and> fb_id (fiber_at h' f) = fb_id (fiber_at h f)) \<longleftrightarrow>
    fb_stack (fiber_at h f) \<and> fb_state (fiber_at h f) \<in> {INIT, TERM', EXCEPT}"
  using assms by (auto simp: Fiber_reset_def resettable_def fiber_at_upd)

theorem reset_functional_witness:
  "(\<exists>h'. Fiber_reset 1 None (fst plain_thread) = Inr h' \<and> fb_state (fiber_at h' 1) = INIT \<and>
      fb_cb (fiber_at h' 1) = None \<and> fb_entry (fiber_at h' 1) = MainFunc \<and>
      fb_ctx (fiber_at h' 1) = CtxEntry \<and> fb_id (fiber_at h' 1) = fb_id (fiber_at (fst plain_thread) 1)) \<longleftrightarrow>
    fb_stack (fiber_at (fst plain_thread) 1) \<and> fb_state (fiber_at (fst plain_thread) 1) \<in> {INIT, TERM', EXCEPT}"
  by (rule reset_functional) (simp add: plain_thread_def demo_defs)

text \<open>A size of the stack that does not fit into 32 bits is cut: 2 to the 32 becomes 0.\<close>

lemma stack_size_truncated:
  "Fiber_new cb stacksize uc h = (f, h') \<Longrightarrow> stacksize \<noteq> 0 \<Longrightarrow>
     unat (fb_stacksize (fiber_at h' f)) = unat stacksize mod 2 ^ 32"
  by (auto simp: Fiber_new_def Let_def emit_def unsigned_ucast_eq take_bit_eq_mod)

end
