(* ===== verification/Scheduler.thy ===== *)
theory Scheduler
  imports Fiber
begin

text \<open>
  \<open>Scheduler\<close> (gwn/scheduler.h, gwn/scheduler.cc): threads that take fibers and functions from a
  shared queue. One scheduler object with an address \<open>self\<close>; its mutex appears as the
  granularity of the operations: what the code does under one lock, or between two switches,
  is one operation here. Functions that can be scheduled are numbers.
\<close>

section \<open>The task queue\<close>

record fiber_and_thread =
  ft_fiber :: "nat option"
  ft_cb :: "nat option"
  ft_thread :: int

text \<open>The argument of \<open>schedule\<close>: a \<open>Fiber::ptr\<close> or a \<open>std::function\<close>, either may be null.\<close>

datatype fiber_or_cb = OfFiber "nat option" | OfCb "nat option"

definition FiberAndThread_empty :: fiber_and_thread where
  "FiberAndThread_empty = \<lparr>ft_fiber = None, ft_cb = None, ft_thread = - 1\<rparr>"

primrec FiberAndThread :: "fiber_or_cb \<Rightarrow> int \<Rightarrow> fiber_and_thread" where
  "FiberAndThread (OfFiber f) thr = \<lparr>ft_fiber = f, ft_cb = None, ft_thread = thr\<rparr>"
| "FiberAndThread (OfCb f) thr = \<lparr>ft_fiber = None, ft_cb = f, ft_thread = thr\<rparr>"

text \<open>The constructors that take a pointer swap the object out: null is left behind.\<close>

primrec swapped_out :: "fiber_or_cb \<Rightarrow> fiber_or_cb" where
  "swapped_out (OfFiber f) = OfFiber None"
| "swapped_out (OfCb f) = OfCb None"

record scheduler =
  sc_threadIds :: "int list"
  sc_threadCount :: u64
  sc_activeThreadCount :: u64
  sc_idleThreadCount :: u64
  sc_stopping :: bool
  sc_autoStop :: bool
  sc_rootThread :: int
  sc_threads :: "(int \<times> string) list"
  sc_fibers :: "fiber_and_thread list"
  sc_rootFiber :: "nat option"
  sc_name :: string

definition Scheduler_tickle :: "fiber_heap \<Rightarrow> fiber_heap" where
  "Scheduler_tickle h = emit INFO ''tickle'' h"

definition scheduleNoLock :: "fiber_or_cb \<Rightarrow> int \<Rightarrow> scheduler \<Rightarrow> bool \<times> scheduler" where
  "scheduleNoLock fc thr s =
     (let need_tickle = sc_fibers s = [];
          ft = FiberAndThread fc thr
      in (need_tickle,
          if ft_fiber ft \<noteq> None \<or> ft_cb ft \<noteq> None
          then s\<lparr>sc_fibers := sc_fibers s @ [ft]\<rparr> else s))"

definition Scheduler_schedule ::
  "fiber_or_cb \<Rightarrow> int \<Rightarrow> fiber_heap \<Rightarrow> scheduler \<Rightarrow> fiber_heap \<times> scheduler"
where
  "Scheduler_schedule fc thr h s =
     (case scheduleNoLock fc thr s of
        (need_tickle, s') \<Rightarrow> (if need_tickle then Scheduler_tickle h else h, s'))"

text \<open>The loop of the second \<open>schedule\<close>, over the elements of the range.\<close>

fun schedule_each ::
  "fiber_or_cb list \<Rightarrow> bool \<Rightarrow> scheduler \<Rightarrow> fiber_or_cb list \<times> bool \<times> scheduler"
where
  "schedule_each [] need_tickle s = ([], need_tickle, s)"
| "schedule_each (x # xs) need_tickle s =
     (case scheduleNoLock x (- 1) s of
        (b, s1) \<Rightarrow>
          (case schedule_each xs (b \<or> need_tickle) s1 of
             (ys, b', s') \<Rightarrow> (swapped_out x # ys, b', s')))"

definition Scheduler_schedule_range ::
  "fiber_or_cb list \<Rightarrow> fiber_heap \<Rightarrow> scheduler \<Rightarrow> fiber_or_cb list \<times> fiber_heap \<times> scheduler"
where
  "Scheduler_schedule_range xs h s =
     (case schedule_each xs False s of
        (ys, need_tickle, s') \<Rightarrow> (ys, if need_tickle then Scheduler_tickle h else h, s'))"

definition Scheduler_stopping :: "scheduler \<Rightarrow> bool" where
  "Scheduler_stopping s \<longleftrightarrow>
     sc_autoStop s \<and> sc_stopping s \<and> sc_fibers s = [] \<and> sc_activeThreadCount s = 0"

section \<open>Threads\<close>

text \<open>
  Where a thread is in \<open>run\<close>. The names with \<open>In\<close> mean that a fiber runs on the thread, those
  with \<open>Back\<close> that \<open>swapIn\<close> has returned, those with \<open>Post\<close> that the counter was decremented.
\<close>

datatype run_pc = Outside | Scan | Dispatch | InFiber | BackFiber | PostFiber
  | InCb | BackCb | PostCb | InIdle | BackIdle | Left

text \<open>
  A thread: its id and name, its thread-local variables (\<open>th_scheduler\<close> is \<open>t_scheduler\<close>), and
  the local variables of \<open>run\<close>; \<open>th_idle_entered\<close> says that \<open>idle\<close> has logged its message.
\<close>

record sched_thread =
  th_id :: int
  th_name :: string
  th_locals :: thread_locals
  th_scheduler :: "nat option"
  th_pc :: run_pc
  th_idle_fiber :: nat
  th_cb_fiber :: "nat option"
  th_ft :: fiber_and_thread
  th_idle_entered :: bool

definition sched_thread_new :: "int \<Rightarrow> string \<Rightarrow> sched_thread" where
  "sched_thread_new i n =
     \<lparr>th_id = i, th_name = n, th_locals = thread_locals_new, th_scheduler = None, th_pc = Outside,
      th_idle_fiber = 0, th_cb_fiber = None, th_ft = FiberAndThread_empty, th_idle_entered = False\<rparr>"

definition Scheduler_GetThis :: "sched_thread \<Rightarrow> nat option" where
  "Scheduler_GetThis t = th_scheduler t"

definition Scheduler_GetMainFiber :: "sched_thread \<Rightarrow> nat option" where
  "Scheduler_GetMainFiber t = tl_scheduler_fiber (th_locals t)"

definition Scheduler_setThis :: "nat \<Rightarrow> sched_thread \<Rightarrow> sched_thread" where
  "Scheduler_setThis self t = t\<lparr>th_scheduler := Some self\<rparr>"

type_synonym sched_result = "fiber_error + fiber_heap \<times> scheduler \<times> sched_thread"

section \<open>Construction, start and stop\<close>

text \<open>The functions \<open>run\<close> and \<open>idle\<close> as functions that a fiber can have.\<close>

definition run_cb :: nat where
  "run_cb = 0"

definition idle_cb :: nat where
  "idle_cb = 1"

definition Scheduler_new ::
  "nat \<Rightarrow> u64 \<Rightarrow> bool \<Rightarrow> string \<Rightarrow> fiber_heap \<Rightarrow> sched_thread \<Rightarrow> sched_result"
where
  "Scheduler_new self threads cur_managed name h t =
     (let s = \<lparr>sc_threadIds = [], sc_threadCount = threads, sc_activeThreadCount = 0,
               sc_idleThreadCount = 0, sc_stopping = True, sc_autoStop = False, sc_rootThread = - 1,
               sc_threads = [], sc_fibers = [], sc_rootFiber = None, sc_name = name\<rparr>
      in if threads = 0 then Inl AssertionFailed
         else if cur_managed then
           (case Fiber_GetThis h (th_locals t) of
              Inl e \<Rightarrow> Inl e
            | Inr (_, h1, l1) \<Rightarrow>
                (if Scheduler_GetThis t \<noteq> None then Inl AssertionFailed
                 else (case Fiber_new (Some run_cb) 0 True h1 of
                   (root, h2) \<Rightarrow>
                     Inr (h2,
                       s\<lparr>sc_threadCount := threads - 1, sc_rootFiber := Some root,
                         sc_rootThread := th_id t, sc_threadIds := [th_id t]\<rparr>,
                       (Scheduler_setThis self t)
                         \<lparr>th_locals := l1\<lparr>tl_scheduler_fiber := Some root\<rparr>,
                          th_name := (if name = [] then th_name t else name)\<rparr>))))
         else Inr (h, s, t))"

definition Scheduler_destroy ::
  "nat \<Rightarrow> scheduler \<Rightarrow> sched_thread \<Rightarrow> fiber_error + sched_thread"
where
  "Scheduler_destroy self s t =
     (if \<not> sc_stopping s then Inl AssertionFailed
      else Inr (if Scheduler_GetThis t = Some self then t\<lparr>th_scheduler := None\<rparr> else t))"

text \<open>
  \<open>start\<close>: the pool; \<open>ids\<close> are the thread ids that the system gives to the new threads.
\<close>

definition Scheduler_start :: "(nat \<Rightarrow> int) \<Rightarrow> scheduler \<Rightarrow> fiber_error + scheduler" where
  "Scheduler_start ids s =
     (if \<not> sc_stopping s then Inr s
      else if sc_threads s \<noteq> [] then Inl AssertionFailed
      else (let n = unat (sc_threadCount s)
            in Inr (s\<lparr>sc_stopping := False,
                 sc_threads := map (\<lambda>i. (ids i, sc_name s @ ''_'' @ dec_nat i)) [0..<n],
                 sc_threadIds := sc_threadIds s @ map ids [0..<n]\<rparr>)))"

text \<open>
  \<open>stop\<close> up to the point where the root fiber is called or the pool is joined; \<open>addr\<close> is the
  text of the address of the scheduler in the message.
\<close>

datatype stop_next = StopReturn | StopCallRoot nat | StopJoin

definition root_ended_or_fresh :: "fiber_heap \<Rightarrow> scheduler \<Rightarrow> bool" where
  "root_ended_or_fresh h s \<longleftrightarrow>
     (case sc_rootFiber s of
        None \<Rightarrow> False
      | Some r \<Rightarrow> sc_threadCount s = 0 \<and>
          (fb_state (fiber_at h r) = TERM' \<or> fb_state (fiber_at h r) = INIT))"

definition Scheduler_stop ::
  "nat \<Rightarrow> string \<Rightarrow> fiber_heap \<Rightarrow> scheduler \<Rightarrow> sched_thread \<Rightarrow>
     fiber_error + stop_next \<times> fiber_heap \<times> scheduler"
where
  "Scheduler_stop self addr h s t =
     (let alone = root_ended_or_fresh h s;
          s1 = s\<lparr>sc_autoStop := True, sc_stopping := (if alone then True else sc_stopping s)\<rparr>;
          h1 = (if alone then emit INFO (addr @ '' stopped'') h else h);
          s2 = s1\<lparr>sc_stopping := True\<rparr>;
          h2 = (Scheduler_tickle ^^ unat (sc_threadCount s)) h1;
          h3 = (if sc_rootFiber s \<noteq> None then Scheduler_tickle h2 else h2)
      in if alone \<and> Scheduler_stopping s1 then Inr (StopReturn, h1, s1)
         else if sc_rootThread s \<noteq> - 1 \<and> Scheduler_GetThis t \<noteq> Some self then Inl AssertionFailed
         else if sc_rootThread s = - 1 \<and> Scheduler_GetThis t = Some self then Inl AssertionFailed
         else (case sc_rootFiber s of
                 Some r \<Rightarrow> (if \<not> Scheduler_stopping s2 then Inr (StopCallRoot r, h3, s2)
                            else Inr (StopJoin, h3, s2))
               | None \<Rightarrow> Inr (StopJoin, h3, s2)))"

text \<open>The end of \<open>stop\<close>: the pool is taken out; the threads returned are then joined.\<close>

definition Scheduler_stop_join :: "scheduler \<Rightarrow> int list \<times> scheduler" where
  "Scheduler_stop_join s = (map fst (sc_threads s), s\<lparr>sc_threads := []\<rparr>)"

end
