(* ===== verification/Scheduler_Run.thy ===== *)
theory Scheduler_Run
  imports Scheduler
begin

text \<open>
  \<open>Scheduler::run\<close> and \<open>Scheduler::idle\<close> (gwn/scheduler.cc) as operations between two switches
  or locks, the operation a thread executes next as a function of where it is, and the step
  relation of all the threads of a scheduler.
\<close>

section \<open>The operations of run\<close>

definition switched :: "run_pc \<Rightarrow> sched_thread \<Rightarrow> scheduler \<Rightarrow> fiber_result \<Rightarrow> sched_result" where
  "switched pc t s r =
     (case r of Inl e \<Rightarrow> Inl e | Inr (h, l) \<Rightarrow> Inr (h, s, t\<lparr>th_locals := l, th_pc := pc\<rparr>))"

text \<open>Before the loop: the scheduling fiber of the thread and the idle fiber.\<close>

definition run_begin ::
  "nat \<Rightarrow> fiber_heap \<Rightarrow> scheduler \<Rightarrow> sched_thread \<Rightarrow> sched_result"
where
  "run_begin self h s t =
     (let h1 = emit DEBUG (sc_name s @ '' run'') h;
          t1 = Scheduler_setThis self t;
          r = (if th_id t \<noteq> sc_rootThread s then
                 (case Fiber_GetThis h1 (th_locals t1) of
                    Inl e \<Rightarrow> Inl e
                  | Inr (f, h2, l) \<Rightarrow> Inr (h2, l\<lparr>tl_scheduler_fiber := Some f\<rparr>))
               else Inr (h1, th_locals t1))
      in case r of
           Inl e \<Rightarrow> Inl e
         | Inr (h2, l) \<Rightarrow>
             (case Fiber_new (Some idle_cb) 0 False h2 of
                (idle_fiber, h3) \<Rightarrow>
                  Inr (h3, s, t1\<lparr>th_locals := l, th_idle_fiber := idle_fiber, th_cb_fiber := None,
                         th_ft := FiberAndThread_empty, th_idle_entered := False, th_pc := Scan\<rparr>)))"

text \<open>
  The loop over the queue under the lock: items of other threads ask for a tickle, running
  fibers are passed over, the first other item is taken out.
\<close>

fun scan_fibers ::
  "fiber_heap \<Rightarrow> int \<Rightarrow> fiber_and_thread list \<Rightarrow> bool \<Rightarrow>
     fiber_error + fiber_and_thread option \<times> fiber_and_thread list \<times> bool"
where
  "scan_fibers h tid [] tickle_me = Inr (None, [], tickle_me)"
| "scan_fibers h tid (it # rest) tickle_me =
     (if ft_thread it \<noteq> - 1 \<and> ft_thread it \<noteq> tid then
        (case scan_fibers h tid rest True of
           Inl e \<Rightarrow> Inl e | Inr (ft, q, b) \<Rightarrow> Inr (ft, it # q, b))
      else if ft_fiber it = None \<and> ft_cb it = None then Inl AssertionFailed
      else if (\<exists>f \<in> set_option (ft_fiber it). fb_state (fiber_at h f) = EXEC) then
        (case scan_fibers h tid rest tickle_me of
           Inl e \<Rightarrow> Inl e | Inr (ft, q, b) \<Rightarrow> Inr (ft, it # q, b))
      else Inr (Some it, rest, tickle_me \<or> rest \<noteq> []))"

definition run_scan :: "fiber_heap \<Rightarrow> scheduler \<Rightarrow> sched_thread \<Rightarrow> sched_result" where
  "run_scan h s t =
     (case scan_fibers h (th_id t) (sc_fibers s) False of
        Inl e \<Rightarrow> Inl e
      | Inr (ft, q, tickle_me) \<Rightarrow>
          Inr (if tickle_me then Scheduler_tickle h else h,
               s\<lparr>sc_fibers := q, sc_activeThreadCount :=
                   (if ft \<noteq> None then sc_activeThreadCount s + 1 else sc_activeThreadCount s)\<rparr>,
               t\<lparr>th_ft := (case ft of None \<Rightarrow> FiberAndThread_empty | Some it \<Rightarrow> it),
                 th_pc := Dispatch\<rparr>))"

definition fiber_ended :: "fiber_heap \<Rightarrow> nat \<Rightarrow> bool" where
  "fiber_ended h f \<longleftrightarrow> fb_state (fiber_at h f) = TERM' \<or> fb_state (fiber_at h f) = EXCEPT"

text \<open>The three branches after the scan, up to the switch.\<close>

definition dispatch_cb :: "nat \<Rightarrow> fiber_heap \<Rightarrow> scheduler \<Rightarrow> sched_thread \<Rightarrow> sched_result" where
  "dispatch_cb cb h s t =
     (let r = (case th_cb_fiber t of
                 Some f \<Rightarrow> (case Fiber_reset f (Some cb) h of Inl e \<Rightarrow> Inl e | Inr h1 \<Rightarrow> Inr (f, h1))
               | None \<Rightarrow> Inr (Fiber_new (Some cb) 0 False h))
      in case r of
           Inl e \<Rightarrow> Inl e
         | Inr (f, h1) \<Rightarrow> switched InCb (t\<lparr>th_cb_fiber := Some f\<rparr>) s (Fiber_swapIn f h1 (th_locals t)))"

definition dispatch_idle :: "fiber_heap \<Rightarrow> scheduler \<Rightarrow> sched_thread \<Rightarrow> sched_result" where
  "dispatch_idle h s t =
     (if fb_state (fiber_at h (th_idle_fiber t)) = TERM' then
        Inr (emit INFO ''idle fiber term'' h, s, t\<lparr>th_pc := Left\<rparr>)
      else switched InIdle t (s\<lparr>sc_idleThreadCount := sc_idleThreadCount s + 1\<rparr>)
             (Fiber_swapIn (th_idle_fiber t) h (th_locals t)))"

definition run_dispatch :: "fiber_heap \<Rightarrow> scheduler \<Rightarrow> sched_thread \<Rightarrow> sched_result" where
  "run_dispatch h s t =
     (case ft_fiber (th_ft t) of
        Some f \<Rightarrow>
          (if \<not> fiber_ended h f then switched InFiber t s (Fiber_swapIn f h (th_locals t))
           else (case ft_cb (th_ft t) of Some cb \<Rightarrow> dispatch_cb cb h s t | None \<Rightarrow> dispatch_idle h s t))
      | None \<Rightarrow>
          (case ft_cb (th_ft t) of Some cb \<Rightarrow> dispatch_cb cb h s t | None \<Rightarrow> dispatch_idle h s t))"

definition run_back :: "run_pc \<Rightarrow> fiber_heap \<Rightarrow> scheduler \<Rightarrow> sched_thread \<Rightarrow> sched_result" where
  "run_back pc h s t =
     Inr (h, s\<lparr>sc_activeThreadCount := sc_activeThreadCount s - 1\<rparr>, t\<lparr>th_pc := pc\<rparr>)"

definition run_post_fiber :: "fiber_heap \<Rightarrow> scheduler \<Rightarrow> sched_thread \<Rightarrow> sched_result" where
  "run_post_fiber h s t =
     (case ft_fiber (th_ft t) of
        None \<Rightarrow> Inl NullFiber
      | Some f \<Rightarrow>
          (let t' = t\<lparr>th_ft := FiberAndThread_empty, th_pc := Scan\<rparr>
           in if fb_state (fiber_at h f) = READY then
                (case Scheduler_schedule (OfFiber (Some f)) (- 1) h s of (h', s') \<Rightarrow> Inr (h', s', t'))
              else if \<not> fiber_ended h f then Inr (set_state f HOLD h, s, t')
              else Inr (h, s, t')))"

definition run_post_cb :: "fiber_heap \<Rightarrow> scheduler \<Rightarrow> sched_thread \<Rightarrow> sched_result" where
  "run_post_cb h s t =
     (case th_cb_fiber t of
        None \<Rightarrow> Inl NullFiber
      | Some f \<Rightarrow>
          (let t' = t\<lparr>th_ft := FiberAndThread_empty, th_pc := Scan\<rparr>
           in if fb_state (fiber_at h f) = READY then
                (case Scheduler_schedule (OfFiber (Some f)) (- 1) h s of
                   (h', s') \<Rightarrow> Inr (h', s', t'\<lparr>th_cb_fiber := None\<rparr>))
              else if fiber_ended h f then
                (case Fiber_reset f None h of Inl e \<Rightarrow> Inl e | Inr h' \<Rightarrow> Inr (h', s, t'))
              else Inr (set_state f HOLD h, s, t'\<lparr>th_cb_fiber := None\<rparr>)))"

definition run_back_idle :: "fiber_heap \<Rightarrow> scheduler \<Rightarrow> sched_thread \<Rightarrow> sched_result" where
  "run_back_idle h s t =
     (let f = th_idle_fiber t
      in Inr (if \<not> fiber_ended h f then set_state f HOLD h else h,
              s\<lparr>sc_idleThreadCount := sc_idleThreadCount s - 1\<rparr>, t\<lparr>th_pc := Scan\<rparr>))"

text \<open>
  \<open>idle\<close>, on the idle fiber: one turn of its loop; when the loop ends the fiber ends.
\<close>

definition idle_turn :: "fiber_heap \<Rightarrow> scheduler \<Rightarrow> sched_thread \<Rightarrow> sched_result" where
  "idle_turn h s t =
     (let h1 = (if th_idle_entered t then h else emit INFO ''idle'' h);
          t1 = t\<lparr>th_idle_entered := True\<rparr>
      in switched BackIdle t1 s
           (if \<not> Scheduler_stopping s then Fiber_YieldToHold h1 (th_locals t)
            else MainFunc_end Returned [] (th_idle_fiber t) h1 (th_locals t)))"

section \<open>Steps\<close>

text \<open>What a thread does next where this does not depend on the code of a task.\<close>

definition thread_step :: "fiber_heap \<Rightarrow> scheduler \<Rightarrow> sched_thread \<Rightarrow> sched_result option" where
  "thread_step h s t =
     (case th_pc t of
        Scan \<Rightarrow> Some (run_scan h s t)
      | Dispatch \<Rightarrow> Some (run_dispatch h s t)
      | BackFiber \<Rightarrow> Some (run_back PostFiber h s t)
      | PostFiber \<Rightarrow> Some (run_post_fiber h s t)
      | BackCb \<Rightarrow> Some (run_back PostCb h s t)
      | PostCb \<Rightarrow> Some (run_post_cb h s t)
      | InIdle \<Rightarrow> Some (idle_turn h s t)
      | BackIdle \<Rightarrow> Some (run_back_idle h s t)
      | _ \<Rightarrow> None)"

text \<open>How the code of a task gives the thread back.\<close>

datatype task_leave = YieldReady | YieldHold | Ends cb_end string

definition task_step ::
  "task_leave \<Rightarrow> fiber_heap \<Rightarrow> scheduler \<Rightarrow> sched_thread \<Rightarrow> sched_result option"
where
  "task_step how h s t =
     (if th_pc t = InFiber \<or> th_pc t = InCb then
        Some (switched (if th_pc t = InFiber then BackFiber else BackCb) t s
          (case how of
             YieldReady \<Rightarrow> Fiber_YieldToReady h (th_locals t)
           | YieldHold \<Rightarrow> Fiber_YieldToHold h (th_locals t)
           | Ends out bt \<Rightarrow>
               (case tl_running (th_locals t) of
                  None \<Rightarrow> Inl BadContext
                | Some f \<Rightarrow> MainFunc_end out bt f h (th_locals t))))
      else None)"

type_synonym sched_state = "fiber_heap \<times> scheduler \<times> sched_thread list"

text \<open>
  A leaking dispatch: the scan took a fiber that has ended by now, the idle branch is entered
  and nothing decrements \<open>m_activeThreadCount\<close>.
\<close>

definition leaks :: "fiber_heap \<Rightarrow> sched_thread \<Rightarrow> bool" where
  "leaks h t \<longleftrightarrow> th_pc t = Dispatch \<and> ft_cb (th_ft t) = None \<and>
     (\<exists>f \<in> set_option (ft_fiber (th_ft t)). fiber_ended h f)"

text \<open>
  The steps of a scheduler \<open>self\<close>. The middle argument counts the leaking dispatches. Anyone
  may schedule at any time (a task, or a thread outside); \<open>stop\<close> sets its two flags in two
  steps, and may be called at any time.
\<close>

inductive sched_step :: "nat \<Rightarrow> sched_state \<Rightarrow> nat \<Rightarrow> sched_state \<Rightarrow> bool" for self where
  enter: "th_pc t = Outside \<Longrightarrow> run_begin self h s t = Inr (h', s', t') \<Longrightarrow>
    sched_step self (h, s, ts) 0 (h', s', ts @ [t'])"
| thread: "i < length ts \<Longrightarrow> thread_step h s (ts ! i) = Some (Inr (h', s', t')) \<Longrightarrow>
    sched_step self (h, s, ts) (if leaks h (ts ! i) then 1 else 0) (h', s', ts[i := t'])"
| task: "i < length ts \<Longrightarrow> task_step how h s (ts ! i) = Some (Inr (h', s', t')) \<Longrightarrow>
    sched_step self (h, s, ts) 0 (h', s', ts[i := t'])"
| schedule: "Scheduler_schedule fc thr h s = (h', s') \<Longrightarrow> sched_step self (h, s, ts) 0 (h', s', ts)"
| create: "Fiber_new cb sz False h = (f, h') \<Longrightarrow> sched_step self (h, s, ts) 0 (h', s, ts)"
| auto_stop: "sched_step self (h, s, ts) 0 (h, s\<lparr>sc_autoStop := True\<rparr>, ts)"
| stopping: "sched_step self (h, s, ts) 0 (h, s\<lparr>sc_stopping := True\<rparr>, ts)"

inductive sched_reach :: "nat \<Rightarrow> sched_state \<Rightarrow> nat \<Rightarrow> bool" for self where
  start: "sc_activeThreadCount s = 0 \<Longrightarrow> sc_idleThreadCount s = 0 \<Longrightarrow> sched_reach self (h, s, []) 0"
| step: "sched_reach self x n \<Longrightarrow> sched_step self x k y \<Longrightarrow> sched_reach self y (n + k)"

inductive_cases sched_stepE: "sched_step self (h, s, ts) k y"

end
