(* ===== verification/Scheduler_Facts.thy ===== *)
theory Scheduler_Facts
  imports Scheduler_Run Fiber_Runs "HOL-Library.Multiset"
begin

text \<open>
  What the queue and the counters of the scheduler promise: the interface of a queue that is
  put to at the end and taken from at the first eligible item, with the scan of \<open>run\<close> as its
  instance; the accounting of the two thread counters over all runs of all threads.
\<close>

section \<open>Queues with an eligibility test\<close>

text \<open>
  The interface \<open>run\<close> and \<open>schedule\<close> rely on. \<open>take q\<close> is \<open>None\<close> when it fails, and otherwise
  an item, if there is an eligible one, and the queue without it.
\<close>

locale eligible_queue =
  fixes put :: "'a \<Rightarrow> 'q \<Rightarrow> 'q"
    and take_first :: "'q \<Rightarrow> ('a option \<times> 'q) option"
    and items :: "'q \<Rightarrow> 'a list"
    and eligible :: "'a \<Rightarrow> bool"
    and valid :: "'q \<Rightarrow> bool"
  assumes items_put: "items (put x q) = items q @ [x]"
    and take_total: "valid q \<Longrightarrow> \<exists>r. take_first q = Some r"
    and take_none: "take_first q = Some (None, q') \<Longrightarrow> items q' = items q \<and> list_all (\<lambda>x. \<not> eligible x) (items q)"
    and take_some: "take_first q = Some (Some x, q') \<Longrightarrow>
      \<exists>pre post. items q = pre @ x # post \<and> items q' = pre @ post \<and> eligible x \<and>
        list_all (\<lambda>x. \<not> eligible x) pre"
    and take_valid: "valid q \<Longrightarrow> take_first q = Some (r, q') \<Longrightarrow> valid q'"
begin

text \<open>Taking as long as there is something eligible, at most \<open>n\<close> times.\<close>

fun take_all :: "nat \<Rightarrow> 'q \<Rightarrow> 'a list \<times> 'q" where
  "take_all 0 q = ([], q)"
| "take_all (Suc n) q =
     (case take_first q of
        Some (Some x, q') \<Rightarrow> (case take_all n q' of (xs, q'') \<Rightarrow> (x # xs, q''))
      | _ \<Rightarrow> ([], q))"

lemma take_conserves:
  assumes "take_first q = Some (r, q')"
  shows "mset (items q) = mset (items q') + mset_set (set_option r)"
  using assms take_none [of q q'] take_some [of q _ q'] by (cases r) auto

lemma filter_take:
  assumes "take_first q = Some (Some x, q')"
  shows "filter eligible (items q) = x # filter eligible (items q')"
    and "filter (\<lambda>x. \<not> eligible x) (items q) = filter (\<lambda>x. \<not> eligible x) (items q')"
    and "length (items q) = Suc (length (items q'))"
proof -
  obtain pre post where q: "items q = pre @ x # post" "items q' = pre @ post" "eligible x"
    "list_all (\<lambda>x. \<not> eligible x) pre"
    using take_some [OF assms] by blast
  have "filter eligible pre = []" using q(4) by (simp add: list_all_iff)
  then show "filter eligible (items q) = x # filter eligible (items q')"
    and "filter (\<lambda>x. \<not> eligible x) (items q) = filter (\<lambda>x. \<not> eligible x) (items q')"
    and "length (items q) = Suc (length (items q'))"
    using q by simp_all
qed

text \<open>The eligible items come out in the order in which they were put, the others stay.\<close>

lemma take_all_order:
  assumes "valid q" and "length (items q) \<le> n"
  shows "fst (take_all n q) = filter eligible (items q) \<and>
    items (snd (take_all n q)) = filter (\<lambda>x. \<not> eligible x) (items q)"
  using assms
proof (induction n arbitrary: q)
  case (Suc n)
  obtain r q' where t: "take_first q = Some (r, q')" using take_total [OF Suc.prems(1)] by force
  show ?case
  proof (cases r)
    case None
    with t take_none [of q q'] have "list_all (\<lambda>x. \<not> eligible x) (items q)" by simp
    then have "filter eligible (items q) = []" "filter (\<lambda>x. \<not> eligible x) (items q) = items q"
      by (simp_all add: list_all_iff filter_empty_conv filter_id_conv)
    with t None show ?thesis by simp
  next
    case (Some x)
    have "valid q'" using take_valid [OF Suc.prems(1) t] .
    moreover have "length (items q') \<le> n" using filter_take(3) [of q x q'] t Some Suc.prems(2) by simp
    ultimately show ?thesis
      using Suc.IH [of q'] t Some filter_take(1,2) [of q x q']
      by (cases "take_all n q'") simp
  qed
qed simp

lemma put_then_take_all:
  assumes "valid (put x q)" and "eligible x" and "length (items q) < n"
  shows "fst (take_all n (put x q)) = filter eligible (items q) @ [x]"
  using take_all_order [OF assms(1), of n] assms(2,3) by (simp add: items_put)

end

text \<open>The queue of the scheduler, as a thread with id \<open>tid\<close> sees it when the fibers are \<open>h\<close>.\<close>

definition item_put :: "fiber_and_thread \<Rightarrow> fiber_and_thread list \<Rightarrow> fiber_and_thread list" where
  "item_put x q = q @ [x]"

definition item_runnable :: "fiber_heap \<Rightarrow> int \<Rightarrow> fiber_and_thread \<Rightarrow> bool" where
  "item_runnable h tid it \<longleftrightarrow> (ft_thread it = - 1 \<or> ft_thread it = tid) \<and>
     (case ft_fiber it of None \<Rightarrow> True | Some f \<Rightarrow> fb_state (fiber_at h f) \<noteq> EXEC)"

definition item_set :: "fiber_and_thread \<Rightarrow> bool" where
  "item_set it \<longleftrightarrow> ft_fiber it \<noteq> None \<or> ft_cb it \<noteq> None"

definition scan_take ::
  "fiber_heap \<Rightarrow> int \<Rightarrow> fiber_and_thread list \<Rightarrow> (fiber_and_thread option \<times> fiber_and_thread list) option"
where
  "scan_take h tid q =
     (case scan_fibers h tid q False of Inl e \<Rightarrow> None | Inr (ft, q', b) \<Rightarrow> Some (ft, q'))"

text \<open>The scan, by cases on the first item.\<close>

definition pinned_elsewhere :: "int \<Rightarrow> fiber_and_thread \<Rightarrow> bool" where
  "pinned_elsewhere tid it \<longleftrightarrow> ft_thread it \<noteq> - 1 \<and> ft_thread it \<noteq> tid"

lemma scan_take_it:
  "item_runnable h tid it \<Longrightarrow> scan_fibers h tid (it # q) b =
     (if item_set it then Inr (Some it, q, b \<or> q \<noteq> []) else Inl AssertionFailed)"
  by (auto simp: item_runnable_def item_set_def simp del: not_None_eq split: option.splits)

lemma scan_skip:
  "\<not> item_runnable h tid it \<Longrightarrow> scan_fibers h tid (it # q) b =
     (case scan_fibers h tid q (b \<or> pinned_elsewhere tid it) of
        Inl e \<Rightarrow> Inl e | Inr (ft, q', b') \<Rightarrow> Inr (ft, it # q', b'))"
  by (auto simp: item_runnable_def pinned_elsewhere_def split: option.splits)

declare scan_fibers.simps(2) [simp del]

lemma scan_fibers_total:
  "list_all item_set q \<Longrightarrow> \<exists>r. scan_fibers h tid q b = Inr r"
proof (induction q arbitrary: b)
  case (Cons it q)
  then obtain r where "scan_fibers h tid q (b \<or> pinned_elsewhere tid it) = Inr r" by fastforce
  with Cons.prems show ?case
    by (cases "item_runnable h tid it") (auto simp: scan_take_it scan_skip split: prod.splits)
qed simp

lemma scan_fibers_None:
  "scan_fibers h tid q b = Inr (None, q', b') \<Longrightarrow>
     q' = q \<and> list_all (\<lambda>x. \<not> item_runnable h tid x) q \<and> b' = (b \<or> list_ex (pinned_elsewhere tid) q)"
proof (induction q arbitrary: b q' b')
  case (Cons it q)
  have no: "\<not> item_runnable h tid it" using Cons.prems by (auto simp: scan_take_it split: if_splits)
  then obtain q1 where "scan_fibers h tid q (b \<or> pinned_elsewhere tid it) = Inr (None, q1, b')" "q' = it # q1"
    using Cons.prems by (auto simp: scan_skip split: sum.splits prod.splits)
  with Cons.IH [of _ q1 b'] no show ?case by auto
qed simp

lemma scan_fibers_Some:
  "scan_fibers h tid q b = Inr (Some x, q', b') \<Longrightarrow>
     \<exists>pre post. q = pre @ x # post \<and> q' = pre @ post \<and> item_runnable h tid x \<and> item_set x \<and>
       list_all (\<lambda>x. \<not> item_runnable h tid x) pre \<and>
       b' = (b \<or> list_ex (pinned_elsewhere tid) pre \<or> post \<noteq> [])"
proof (induction q arbitrary: b q' b')
  case (Cons it q)
  show ?case
  proof (cases "item_runnable h tid it")
    case True
    with Cons.prems have "x = it" "q' = q" "item_set it" "b' = (b \<or> q \<noteq> [])"
      by (auto simp: scan_take_it split: if_splits)
    with True show ?thesis by (intro exI [of _ "[]"] exI [of _ q]) simp
  next
    case False
    then obtain q1 where q1: "scan_fibers h tid q (b \<or> pinned_elsewhere tid it) = Inr (Some x, q1, b')"
      "q' = it # q1"
      using Cons.prems by (auto simp: scan_skip split: sum.splits prod.splits)
    from Cons.IH [OF q1(1)] obtain pre post where
      "q = pre @ x # post" "q1 = pre @ post" "item_runnable h tid x" "item_set x"
      "list_all (\<lambda>x. \<not> item_runnable h tid x) pre"
      "b' = (b \<or> pinned_elsewhere tid it \<or> list_ex (pinned_elsewhere tid) pre \<or> post \<noteq> [])"
      by auto
    with False q1(2) show ?thesis by (intro exI [of _ "it # pre"] exI [of _ post]) auto
  qed
qed simp

lemma scan_take_cases:
  "scan_take h tid q = Some (None, q') \<Longrightarrow> q' = q \<and> list_all (\<lambda>x. \<not> item_runnable h tid x) q"
  "scan_take h tid q = Some (Some x, q') \<Longrightarrow>
     \<exists>pre post. q = pre @ x # post \<and> q' = pre @ post \<and> item_runnable h tid x \<and>
       list_all (\<lambda>x. \<not> item_runnable h tid x) pre"
proof -
  show "q' = q \<and> list_all (\<lambda>x. \<not> item_runnable h tid x) q" if "scan_take h tid q = Some (None, q')"
    using that scan_fibers_None [of h tid q False q'] by (auto simp: scan_take_def split: sum.splits)
  show "\<exists>pre post. q = pre @ x # post \<and> q' = pre @ post \<and> item_runnable h tid x \<and>
      list_all (\<lambda>x. \<not> item_runnable h tid x) pre" if taken: "scan_take h tid q = Some (Some x, q')"
  proof -
    obtain b where "scan_fibers h tid q False = Inr (Some x, q', b)"
      using taken by (auto simp: scan_take_def split: sum.splits)
    from scan_fibers_Some [OF this] show ?thesis by blast
  qed
qed

interpretation run_queue: eligible_queue item_put "scan_take h tid" "\<lambda>q. q" "item_runnable h tid"
  "list_all item_set" for h tid
proof
  show "item_put x q = q @ [x]" for x q by (simp add: item_put_def)
  show "\<exists>r. scan_take h tid q = Some r" if "list_all item_set q" for q
    using scan_fibers_total [OF that, of h tid False] by (auto simp: scan_take_def)
  show "q' = q \<and> list_all (\<lambda>x. \<not> item_runnable h tid x) q"
    if "scan_take h tid q = Some (None, q')" for q q'
    using that by (rule scan_take_cases)
  show "\<exists>pre post. q = pre @ x # post \<and> q' = pre @ post \<and> item_runnable h tid x \<and>
      list_all (\<lambda>x. \<not> item_runnable h tid x) pre"
    if "scan_take h tid q = Some (Some x, q')" for q x q'
    using that by (rule scan_take_cases)
  show "list_all item_set q'" if q: "list_all item_set q" and taken: "scan_take h tid q = Some (r, q')" for q r q'
  proof (cases r)
    case None
    with scan_take_cases(1) [of h tid q q'] q taken show ?thesis by simp
  next
    case (Some x)
    with scan_take_cases(2) [of h tid q x q'] taken obtain pre post where
      "q = pre @ x # post" "q' = pre @ post" by blast
    with q show ?thesis by simp
  qed
qed

text \<open>
  \<open>schedule\<close> puts the item it constructs, if it names a fiber or a function.
\<close>

lemma schedule_puts:
  "Scheduler_schedule fc thr h s = (h', s') \<Longrightarrow>
     s' = (if item_set (FiberAndThread fc thr)
           then s\<lparr>sc_fibers := item_put (FiberAndThread fc thr) (sc_fibers s)\<rparr> else s) \<and>
     h' = (if sc_fibers s = [] then Scheduler_tickle h else h)"
  by (auto simp: Scheduler_schedule_def scheduleNoLock_def Let_def item_set_def item_put_def
      split: if_splits)

text \<open>
  The scan of the queue by a thread takes the first item that is not pinned to another
  thread and whose fiber, if it names one, is not running; the rest of the queue keeps its
  order; \<open>m_activeThreadCount\<close> grows exactly when an item is taken; \<open>tickle\<close> is called when an
  item of another thread was passed or items are left behind the one taken.
\<close>

theorem scan_takes_first_runnable:
  assumes "list_all item_set (sc_fibers s)"
  shows "\<exists>h' s' t'. run_scan h s t = Inr (h', s', t') \<and>
    (case List.extract (item_runnable h (th_id t)) (sc_fibers s) of
       None \<Rightarrow> s' = s \<and> th_ft t' = FiberAndThread_empty \<and>
         h' = (if list_ex (pinned_elsewhere (th_id t)) (sc_fibers s) then Scheduler_tickle h else h)
     | Some (pre, it, post) \<Rightarrow>
         s' = s\<lparr>sc_fibers := pre @ post, sc_activeThreadCount := sc_activeThreadCount s + 1\<rparr> \<and>
         th_ft t' = it \<and>
         h' = (if list_ex (pinned_elsewhere (th_id t)) pre \<or> post \<noteq> [] then Scheduler_tickle h else h))"
proof -
  obtain ft q b where scan: "scan_fibers h (th_id t) (sc_fibers s) False = Inr (ft, q, b)"
    using scan_fibers_total [OF assms] by (metis prod_cases3)
  show ?thesis
  proof (cases ft)
    case None
    with scan scan_fibers_None [of h "th_id t" "sc_fibers s" False q b]
    have q: "q = sc_fibers s" "list_all (\<lambda>x. \<not> item_runnable h (th_id t) x) (sc_fibers s)"
      "b = list_ex (pinned_elsewhere (th_id t)) (sc_fibers s)" by simp_all
    then have "List.extract (item_runnable h (th_id t)) (sc_fibers s) = None"
      by (simp add: extract_None_iff list_all_iff)
    with scan None q show ?thesis by (simp add: run_scan_def)
  next
    case (Some x)
    with scan scan_fibers_Some [of h "th_id t" "sc_fibers s" False x q b] obtain pre post where
      q: "sc_fibers s = pre @ x # post" "q = pre @ post" "item_runnable h (th_id t) x"
      "list_all (\<lambda>x. \<not> item_runnable h (th_id t) x) pre"
      "b = (list_ex (pinned_elsewhere (th_id t)) pre \<or> post \<noteq> [])"
      by auto
    then have "List.extract (item_runnable h (th_id t)) (sc_fibers s) = Some (pre, x, post)"
      by (simp add: extract_Some_iff list_all_iff)
    with scan Some q show ?thesis by (auto simp: run_scan_def)
  qed
qed

definition demo_item :: "nat \<Rightarrow> int \<Rightarrow> fiber_and_thread" where
  "demo_item cb thr = \<lparr>ft_fiber = None, ft_cb = Some cb, ft_thread = thr\<rparr>"

definition demo_sched :: scheduler where
  "demo_sched = \<lparr>sc_threadIds = [], sc_threadCount = 1, sc_activeThreadCount = 0,
     sc_idleThreadCount = 0, sc_stopping = True, sc_autoStop = False, sc_rootThread = - 1,
     sc_threads = [], sc_fibers = [demo_item 5 9, demo_item 6 3, demo_item 7 (- 1)],
     sc_rootFiber = None, sc_name = ''test''\<rparr>"

theorem scan_takes_first_runnable_witness:
  "\<exists>h' s' t'. run_scan fiber_heap_new demo_sched (sched_thread_new 3 ''w'') = Inr (h', s', t') \<and>
     th_ft t' = demo_item 6 3 \<and> sc_fibers s' = [demo_item 5 9, demo_item 7 (- 1)]"
proof -
  have "list_all item_set (sc_fibers demo_sched)"
    by (simp add: demo_sched_def demo_item_def item_set_def)
  from scan_takes_first_runnable [OF this, of fiber_heap_new "sched_thread_new 3 ''w''"]
  show ?thesis
    by (auto simp: demo_sched_def demo_item_def item_runnable_def sched_thread_new_def List.extract_def)
qed

text \<open>
  Items are taken in the order in which they were scheduled: a thread that scans until
  nothing is runnable for it gets exactly the items runnable for it, oldest first, with a
  freshly scheduled one last; the others stay in the queue in their order.
\<close>

theorem queue_is_fifo:
  assumes "list_all item_set (sc_fibers s)" and "item_set (FiberAndThread fc thr)"
    and "item_runnable h tid (FiberAndThread fc thr)" and "length (sc_fibers s) < n"
    and "Scheduler_schedule fc thr h0 s = (h', s')"
  shows "run_queue.take_all h tid n (sc_fibers s') =
    (filter (item_runnable h tid) (sc_fibers s) @ [FiberAndThread fc thr],
     filter (\<lambda>x. \<not> item_runnable h tid x) (sc_fibers s))"
proof -
  have q: "sc_fibers s' = item_put (FiberAndThread fc thr) (sc_fibers s)"
    using schedule_puts [OF assms(5)] assms(2) by simp
  have valid: "list_all item_set (sc_fibers s')" using assms(1,2) q by (simp add: item_put_def)
  from run_queue.take_all_order [OF valid, of n h tid] assms(3,4)
  show ?thesis by (simp add: q item_put_def prod_eq_iff)
qed

theorem queue_is_fifo_witness:
  "run_queue.take_all fiber_heap_new 3 9 (sc_fibers (snd (Scheduler_schedule (OfCb (Some 8)) 3 fiber_heap_new demo_sched))) =
     ([demo_item 6 3, demo_item 7 (- 1), demo_item 8 3], [demo_item 5 9])"
  using queue_is_fifo [of demo_sched "OfCb (Some 8)" 3 fiber_heap_new 3 9 fiber_heap_new
      "fst (Scheduler_schedule (OfCb (Some 8)) 3 fiber_heap_new demo_sched)"
      "snd (Scheduler_schedule (OfCb (Some 8)) 3 fiber_heap_new demo_sched)"]
  by (simp add: demo_sched_def demo_item_def item_set_def item_runnable_def)

text \<open>
  Scheduling a range appends its non-null elements in order, unpinned, leaves null in
  every element of the range, and calls \<open>tickle\<close> exactly when the queue was empty and the
  range is not.
\<close>

lemma schedule_each_spec:
  "schedule_each xs b s = (map swapped_out xs,
     b \<or> (xs \<noteq> [] \<and> sc_fibers s = []),
     s\<lparr>sc_fibers := sc_fibers s @ filter item_set (map (\<lambda>x. FiberAndThread x (- 1)) xs)\<rparr>)"
proof (induction xs arbitrary: b s)
  case (Cons x xs)
  show ?case
    by (cases "sc_fibers s = []"; cases "item_set (FiberAndThread x (- 1))")
       (auto simp: scheduleNoLock_def Let_def Cons.IH item_set_def)
qed simp

theorem schedule_range_functional:
  "Scheduler_schedule_range xs h s =
     (map swapped_out xs,
      if xs \<noteq> [] \<and> sc_fibers s = [] then Scheduler_tickle h else h,
      s\<lparr>sc_fibers := sc_fibers s @ filter item_set (map (\<lambda>x. FiberAndThread x (- 1)) xs)\<rparr>)"
  by (simp add: Scheduler_schedule_range_def schedule_each_spec)

section \<open>The state that run stores\<close>

text \<open>
  What \<open>run\<close> does to the state of a fiber that came back and is not \<open>READY\<close>: nothing, a step of
  \<open>work_step\<close>, which is the store of \<open>HOLD\<close>, or the \<open>reset\<close> of the ended fiber kept for functions.
\<close>

lemma run_stores_hold:
  assumes "f < length (fh_fibers h)" and "fb_stack (fiber_at h f)" and "fb_state (fiber_at h f) \<noteq> READY"
  shows "run_post_fiber h s t = Inr (h', s', t') \<Longrightarrow> ft_fiber (th_ft t) = Some f \<Longrightarrow> h' = h \<or> work_step (h, ls) (h', ls)"
    and "run_post_cb h s t = Inr (h', s', t') \<Longrightarrow> th_cb_fiber t = Some f \<Longrightarrow> work_step (h, ls) (h', ls)"
    and "run_back_idle h s t = Inr (h', s', t') \<Longrightarrow> th_idle_fiber t = f \<Longrightarrow> h' = h \<or> work_step (h, ls) (h', ls)"
  using assms
  by (auto simp: run_post_fiber_def run_post_cb_def run_back_idle_def Let_def split: if_splits sum.splits
      intro: work_step.intros fib_step.reset)

section \<open>The counters\<close>

text \<open>A thread owes one to \<open>m_activeThreadCount\<close> between taking an item and decrementing.\<close>

definition is_busy :: "sched_thread \<Rightarrow> bool" where
  "is_busy t \<longleftrightarrow> (case th_pc t of
     Dispatch \<Rightarrow> item_set (th_ft t)
   | InFiber \<Rightarrow> True | BackFiber \<Rightarrow> True | InCb \<Rightarrow> True | BackCb \<Rightarrow> True | _ \<Rightarrow> False)"

definition is_idle :: "sched_thread \<Rightarrow> bool" where
  "is_idle t \<longleftrightarrow> th_pc t = InIdle \<or> th_pc t = BackIdle"

definition busy :: "sched_thread list \<Rightarrow> nat" where
  "busy ts = length (filter is_busy ts)"

definition idling :: "sched_thread list \<Rightarrow> nat" where
  "idling ts = length (filter is_idle ts)"

definition owes :: "bool \<Rightarrow> u64" where
  "owes b = (if b then 1 else 0)"

lemma count_update:
  "i < length ts \<Longrightarrow>
     length (filter P (ts[i := t])) + (if P (ts ! i) then 1 else 0) =
     length (filter P ts) + (if P t then 1 else 0)"
proof (induction ts arbitrary: i)
  case (Cons u ts)
  then show ?case by (cases i) auto
qed simp

lemma count_update_word:
  assumes "i < length ts"
  shows "of_nat (length (filter P (ts[i := t]))) + owes (P (ts ! i)) =
    (of_nat (length (filter P ts)) + owes (P t) :: u64)"
  using arg_cong [OF count_update [OF assms, of P t], of "of_nat :: nat \<Rightarrow> u64"]
  by (simp add: owes_def split: if_splits)

lemma switched_simps:
  "switched pc t s r = Inr (h', s', t') \<Longrightarrow>
     s' = s \<and> th_pc t' = pc \<and> th_ft t' = th_ft t"
  by (auto simp: switched_def split: sum.splits)

lemma dispatch_counts:
  assumes "run_dispatch h s t = Inr (h', s', t')" and "th_pc t = Dispatch"
  shows "sc_activeThreadCount s' = sc_activeThreadCount s"
    and "owes (is_busy t) = owes (is_busy t') + owes (leaks h t)"
    and "sc_idleThreadCount s' = sc_idleThreadCount s + owes (is_idle t')"
proof -
  have cb: "sc_activeThreadCount s' = sc_activeThreadCount s \<and> th_pc t' = InCb \<and>
      sc_idleThreadCount s' = sc_idleThreadCount s"
    if "dispatch_cb c h s t = Inr (h', s', t')" for c
    using that by (auto simp: dispatch_cb_def Let_def split: sum.splits prod.splits dest!: switched_simps)
  have idle: "sc_activeThreadCount s' = sc_activeThreadCount s \<and>
      (th_pc t' = Left \<and> sc_idleThreadCount s' = sc_idleThreadCount s \<or>
       th_pc t' = InIdle \<and> sc_idleThreadCount s' = sc_idleThreadCount s + 1)"
    if "dispatch_idle h s t = Inr (h', s', t')"
    using that by (auto simp: dispatch_idle_def split: if_splits dest!: switched_simps)
  show "sc_activeThreadCount s' = sc_activeThreadCount s"
    and "owes (is_busy t) = owes (is_busy t') + owes (leaks h t)"
    and "sc_idleThreadCount s' = sc_idleThreadCount s + owes (is_idle t')"
    using assms
    by (auto simp: run_dispatch_def is_busy_def is_idle_def leaks_def item_set_def owes_def
        split: option.splits if_splits dest!: cb idle switched_simps)
qed

lemma thread_step_counts:
  assumes "thread_step h s t = Some (Inr (h', s', t'))"
  shows "sc_activeThreadCount s' + owes (is_busy t) =
      sc_activeThreadCount s + owes (is_busy t') + owes (leaks h t)"
    and "sc_idleThreadCount s' + owes (is_idle t) = sc_idleThreadCount s + owes (is_idle t')"
proof -
  have scan: "sc_activeThreadCount s' = sc_activeThreadCount s + owes (is_busy t') \<and>
      sc_idleThreadCount s' = sc_idleThreadCount s \<and> th_pc t' = Dispatch"
    if "run_scan h s t = Inr (h', s', t')"
    using that scan_fibers_Some [of h "th_id t" "sc_fibers s" False]
    by (fastforce simp: run_scan_def is_busy_def owes_def item_set_def FiberAndThread_empty_def
        split: sum.splits option.splits)
  note simps = thread_step_def is_busy_def is_idle_def leaks_def owes_def
  show "sc_activeThreadCount s' + owes (is_busy t) =
      sc_activeThreadCount s + owes (is_busy t') + owes (leaks h t)"
  proof (cases "th_pc t")
    case Scan
    with assms scan show ?thesis by (simp add: simps)
  next
    case Dispatch
    with assms dispatch_counts [of h s t h' s' t'] show ?thesis by (simp add: thread_step_def)
  qed (use assms in \<open>auto simp: simps run_back_def run_post_fiber_def run_post_cb_def run_back_idle_def
      idle_turn_def Let_def split: option.splits if_splits sum.splits prod.splits
      dest!: schedule_puts switched_simps\<close>)
  show "sc_idleThreadCount s' + owes (is_idle t) = sc_idleThreadCount s + owes (is_idle t')"
  proof (cases "th_pc t")
    case Scan
    with assms scan show ?thesis by (simp add: simps)
  next
    case Dispatch
    with assms dispatch_counts [of h s t h' s' t'] show ?thesis by (simp add: thread_step_def is_idle_def owes_def)
  qed (use assms in \<open>auto simp: simps run_back_def run_post_fiber_def run_post_cb_def run_back_idle_def
      idle_turn_def Let_def split: option.splits if_splits sum.splits prod.splits
      dest!: schedule_puts switched_simps\<close>)
qed

end
