(* ===== verification/Scheduler_Runs.thy ===== *)
theory Scheduler_Runs
  imports Scheduler_Facts
begin

text \<open>
  Runs of the threads of a scheduler: the accounting of the counters in every reachable state,
  what an ended fiber in the queue does to it, and executable schedules of steps, on which the
  examples and the races of the code are evaluated.
\<close>

section \<open>Executable schedules\<close>

datatype action = Enter int string | Step nat | Task nat task_leave | Sched fiber_or_cb int
  | Create nat | AutoStop | Stopping

fun exec_action :: "nat \<Rightarrow> action \<Rightarrow> sched_state \<Rightarrow> (nat \<times> sched_state) option" where
  "exec_action self (Enter i n) (h, s, ts) =
     (case run_begin self h s (sched_thread_new i n) of
        Inl e \<Rightarrow> None | Inr (h', s', t') \<Rightarrow> Some (0, h', s', ts @ [t']))"
| "exec_action self (Step i) (h, s, ts) =
     (if i < length ts then
        (case thread_step h s (ts ! i) of
           Some (Inr (h', s', t')) \<Rightarrow> Some (if leaks h (ts ! i) then 1 else 0, h', s', ts[i := t'])
         | _ \<Rightarrow> None)
      else None)"
| "exec_action self (Task i how) (h, s, ts) =
     (if i < length ts then
        (case task_step how h s (ts ! i) of
           Some (Inr (h', s', t')) \<Rightarrow> Some (0, h', s', ts[i := t'])
         | _ \<Rightarrow> None)
      else None)"
| "exec_action self (Sched fc thr) (h, s, ts) =
     (case Scheduler_schedule fc thr h s of (h', s') \<Rightarrow> Some (0, h', s', ts))"
| "exec_action self (Create cb) (h, s, ts) = Some (0, snd (Fiber_new (Some cb) 0 False h), s, ts)"
| "exec_action self AutoStop (h, s, ts) = Some (0, h, s\<lparr>sc_autoStop := True\<rparr>, ts)"
| "exec_action self Stopping (h, s, ts) = Some (0, h, s\<lparr>sc_stopping := True\<rparr>, ts)"

fun exec_actions :: "nat \<Rightarrow> action list \<Rightarrow> nat \<times> sched_state \<Rightarrow> (nat \<times> sched_state) option" where
  "exec_actions self [] nx = Some nx"
| "exec_actions self (a # as) (n, x) =
     (case exec_action self a x of None \<Rightarrow> None | Some (k, y) \<Rightarrow> exec_actions self as (n + k, y))"

lemma exec_action_sound:
  "exec_action self a x = Some (k, y) \<Longrightarrow> sched_step self x k y"
proof (induction self a x rule: exec_action.induct)
  case (1 self i n h s ts)
  then show ?case
    by (auto split: sum.splits intro: sched_step.enter [of "sched_thread_new i n"] simp: sched_thread_new_def)
next
  case (2 self i h s ts)
  then obtain h' s' t' where "i < length ts" "thread_step h s (ts ! i) = Some (Inr (h', s', t'))"
    "k = (if leaks h (ts ! i) then 1 else 0)" "y = (h', s', ts[i := t'])"
    by (auto split: if_splits option.splits sum.splits)
  with sched_step.thread [of i ts h s h' s' t' self] show ?case by simp
next
  case (3 self i how h s ts)
  then show ?case by (auto split: if_splits option.splits sum.splits intro: sched_step.task)
next
  case (4 self fc thr h s ts)
  then show ?case by (auto split: prod.splits intro: sched_step.schedule)
next
  case (5 self cb h s ts)
  then show ?case by (auto intro: sched_step.create [OF prod.collapse [symmetric]])
qed (auto intro: sched_step.auto_stop sched_step.stopping)

lemma exec_actions_sound:
  "exec_actions self as (n, x) = Some (m, y) \<Longrightarrow> sched_reach self x n \<Longrightarrow> sched_reach self y m"
proof (induction as arbitrary: n x)
  case (Cons a as)
  then obtain k z where "exec_action self a x = Some (k, z)" "exec_actions self as (n + k, z) = Some (m, y)"
    by (auto split: option.splits)
  with Cons show ?case by (blast intro: sched_reach.step exec_action_sound)
qed simp

definition pool_start :: sched_state where
  "pool_start = (fiber_heap_new, demo_sched\<lparr>sc_fibers := []\<rparr>, [])"

lemma pool_start_reach: "sched_reach self pool_start 0"
  by (simp add: pool_start_def demo_sched_def sched_reach.start)

section \<open>The counters in every run\<close>

lemma balance:
  fixes a a' b b' m n p q l :: "'a :: ab_group_add"
  assumes "a' + p = a + q + l" and "a = b + n" and "b' + p = b + q"
  shows "a' = b' + (n + l)"
proof -
  have "a' + p = (b' + p) + (n + l)" using assms by (simp add: algebra_simps)
  then show ?thesis by (simp add: algebra_simps)
qed

lemma task_step_counts:
  assumes "task_step how h s t = Some (Inr (h', s', t'))"
  shows "s' = s" "is_busy t" "is_busy t'" "\<not> is_idle t" "\<not> is_idle t'"
  using assms
  by (auto simp: task_step_def is_busy_def is_idle_def split: if_splits dest!: switched_simps)

lemma run_begin_counts:
  "run_begin self h s t = Inr (h', s', t') \<Longrightarrow> s' = s \<and> \<not> is_busy t' \<and> \<not> is_idle t'"
  by (auto simp: run_begin_def Let_def is_busy_def is_idle_def split: sum.splits prod.splits if_splits)

text \<open>
  C9: In every reachable state \<open>m_activeThreadCount\<close> is the number of threads that have taken an
  item and not yet come back from it, plus the number of times an ended fiber was taken from
  the queue; \<open>m_idleThreadCount\<close> is the number of threads in their idle fiber.
\<close>

theorem counters_account_for_threads:
  assumes "sched_reach self (h, s, ts) n"
  shows "sc_activeThreadCount s = of_nat (busy ts + n) \<and> sc_idleThreadCount s = of_nat (idling ts)"
proof -
  have "sc_activeThreadCount (fst (snd x)) = of_nat (busy (snd (snd x)) + n) \<and>
    sc_idleThreadCount (fst (snd x)) = of_nat (idling (snd (snd x)))"
    if "sched_reach self x n" for x
    using that
  proof (induction rule: sched_reach.induct)
    case (start s h)
    then show ?case by (simp add: busy_def idling_def)
  next
    case (step x n k y)
    from step.hyps(2) step.IH show ?case
    proof (induction rule: sched_step.induct)
      case (enter t h s h' s' t' ts)
      with run_begin_counts [of self h s t h' s' t'] show ?case by (simp add: busy_def idling_def)
    next
      case (thread i ts h s h' s' t')
      let ?k = "if leaks h (ts ! i) then 1 else 0"
      have "sc_activeThreadCount s' = of_nat (busy (ts[i := t'])) + (of_nat n + owes (leaks h (ts ! i)))"
        using thread_step_counts(1) [OF thread.hyps(2)] thread.prems
          count_update_word [OF thread.hyps(1), of is_busy t']
        by (intro balance [where b = "of_nat (busy ts)"]) (simp_all add: busy_def)
      moreover have "sc_idleThreadCount s' = of_nat (idling (ts[i := t'])) + (0 + 0)"
        using thread_step_counts(2) [OF thread.hyps(2)] thread.prems
          count_update_word [OF thread.hyps(1), of is_idle t']
        by (intro balance [where b = "of_nat (idling ts)"]) (simp_all add: idling_def)
      ultimately show ?case by (simp add: owes_def)
    next
      case (task i ts how h s h' s' t')
      from task_step_counts [OF task.hyps(2)] count_update [OF task.hyps(1), of is_busy t']
        count_update [OF task.hyps(1), of is_idle t'] task.prems
      show ?case by (simp add: busy_def idling_def)
    next
      case (schedule fc thr h s h' s' ts)
      from schedule_puts [OF schedule.hyps] schedule.prems show ?case by simp
    qed simp_all
  qed
  from this [OF assms] show ?thesis by simp
qed

text \<open>
  The run that the instances share: a fiber that is scheduled twice, one worker; the fiber ends
  at its first turn, and its second entry is taken when it has ended.
\<close>

definition leak_run :: "action list" where
  "leak_run = [Create 5, Sched (OfFiber (Some 0)) (- 1), Sched (OfFiber (Some 0)) (- 1),
     Enter 3 ''w'', Step 0, Step 0, Task 0 (Ends Returned []), Step 0, Step 0, Step 0, Step 0]"

definition leaked :: "nat \<times> sched_state" where
  "leaked = (case exec_actions 1 leak_run (0, pool_start) of Some r \<Rightarrow> r | None \<Rightarrow> (0, pool_start))"

lemma leaked_facts:
  "exec_actions 1 leak_run (0, pool_start) \<noteq> None"
  "fst leaked = 1" "busy (snd (snd (snd leaked))) = 0" "idling (snd (snd (snd leaked))) = 1"
  "sc_fibers (fst (snd (snd leaked))) = []"
  by code_simp+

lemma leaked_reach: "sched_reach 1 (fst (snd leaked), fst (snd (snd leaked)), snd (snd (snd leaked))) 1"
proof -
  obtain r where r: "exec_actions 1 leak_run (0, pool_start) = Some r" using leaked_facts(1) by blast
  then have "leaked = r" by (simp add: leaked_def)
  with r have "exec_actions 1 leak_run (0, pool_start) = Some (fst leaked, snd leaked)" by simp
  from exec_actions_sound [OF this pool_start_reach] show ?thesis by (simp add: leaked_facts(2))
qed

theorem counters_account_for_threads_witness:
  "sc_activeThreadCount (fst (snd (snd leaked))) = 1 \<and> sc_idleThreadCount (fst (snd (snd leaked))) = 1"
  using counters_account_for_threads [OF leaked_reach] by (simp add: leaked_facts)

section \<open>An ended fiber in the queue\<close>

inductive sched_run :: "nat \<Rightarrow> sched_state \<Rightarrow> nat \<Rightarrow> sched_state \<Rightarrow> bool" for self where
  refl: "sched_run self x 0 x"
| step: "sched_run self x k y \<Longrightarrow> sched_step self y l z \<Longrightarrow> sched_run self x (k + l) z"

lemma sched_run_reach:
  "sched_run self x k y \<Longrightarrow> sched_reach self x n \<Longrightarrow> sched_reach self y (n + k)"
proof (induction rule: sched_run.induct)
  case (step x k y l z)
  then show ?case using sched_reach.step [of self y "n + k" l z] by (simp add: add.assoc)
qed simp

text \<open>
  Once a thread has taken an ended fiber from the queue, \<open>m_activeThreadCount\<close> never
  returns to 0 (short of wrapping around): in every later state \<open>stopping\<close> is false, also
  with an empty queue, no busy thread and both stop flags set, so every turn of an idle fiber
  yields instead of ending (a worker leaves \<open>run\<close> only after its idle fiber has ended, and
  \<open>stop\<close> joins the workers). The local variable \<open>is_active\<close>, which would tell that the count is
  owed, is unused.
\<close>

theorem ended_fiber_blocks_stopping:
  assumes "sched_reach self x n" and "0 < n" and "sched_run self x k (h, s, ts)"
    and "busy ts + n + k < 2 ^ 64"
  shows "\<not> Scheduler_stopping s \<and>
    idle_turn h s t = switched BackIdle (t\<lparr>th_idle_entered := True\<rparr>) s
      (Fiber_YieldToHold (if th_idle_entered t then h else emit INFO ''idle'' h) (th_locals t))"
proof -
  have "sc_activeThreadCount s = of_nat (busy ts + (n + k))"
    using counters_account_for_threads [OF sched_run_reach [OF assms(3,1)]] by simp
  moreover have "unat (of_nat (busy ts + (n + k)) :: u64) = busy ts + (n + k)"
    using assms(4) by (simp add: unat_of_nat take_bit_nat_eq_self add.assoc del: of_nat_add)
  ultimately have "unat (sc_activeThreadCount s) \<noteq> 0" using assms(2) by simp
  then have "\<not> Scheduler_stopping s" by (auto simp: Scheduler_stopping_def)
  then show ?thesis by (simp add: idle_turn_def Let_def)
qed

lemma stop_flags_run: "sched_run self (h, s, ts) 0 (h, s\<lparr>sc_autoStop := True, sc_stopping := True\<rparr>, ts)"
  using sched_run.step [OF sched_run.step [OF sched_run.refl sched_step.auto_stop] sched_step.stopping]
  by simp

theorem ended_fiber_blocks_stopping_witness:
  "\<not> Scheduler_stopping (fst (snd (snd leaked))\<lparr>sc_autoStop := True, sc_stopping := True\<rparr>)"
  using ended_fiber_blocks_stopping [OF leaked_reach _ stop_flags_run] by (simp add: leaked_facts)

section \<open>Races\<close>

text \<open>
  The idiom \<open>schedule(Fiber::GetThis()); YieldToHold();\<close> of a task, with two workers: the second
  worker resumes the fiber before the first one is back from \<open>swapIn\<close> and stores \<open>HOLD\<close> over
  the state \<open>EXEC\<close>. Scheduled once more, the fiber is taken by the first worker.
\<close>

definition hold_race :: "action list" where
  "hold_race = [Create 5, Sched (OfFiber (Some 0)) (- 1), Enter 3 ''v'', Enter 4 ''w'', Step 0, Step 0,
     Sched (OfFiber (Some 0)) (- 1), Task 0 YieldHold, Step 1, Step 1, Step 0, Step 0]"

definition twice_run :: "action list" where
  "twice_run = hold_race @ [Sched (OfFiber (Some 0)) (- 1), Step 0, Step 0]"

lemma exec_reach:
  assumes "exec_actions self as (0, pool_start) = Some (n, x)"
  shows "sched_reach self x n"
  by (rule exec_actions_sound [OF assms pool_start_reach])

lemma exec_existsI:
  assumes "case exec_actions self as (0, pool_start) of Some (n, h, s, ts) \<Rightarrow> P h s ts | None \<Rightarrow> False"
  shows "\<exists>h s ts n. sched_reach self (h, s, ts) n \<and> P h s ts"
  using assms exec_reach [of self as] by (fastforce split: option.splits)

text \<open>
  There is a run in which the fiber that runs on a thread has the state \<open>HOLD\<close>, stored by
  another thread that was not yet back from \<open>swapIn\<close>; when this fiber yields, the assertion
  in \<open>YieldToHold\<close> fails.
\<close>

theorem hold_race_breaks_yield:
  "\<exists>h s ts n. sched_reach 1 (h, s, ts) n \<and>
     (length ts = 2 \<and> tl_running (th_locals (ts ! 1)) = Some 0 \<and> fb_state (fiber_at h 0) = HOLD \<and>
      task_step YieldHold h s (ts ! 1) = Some (Inl AssertionFailed))"
  by (rule exec_existsI [where as = hold_race]) code_simp

text \<open>
  There is a run in which two threads execute the same fiber at the same time, on one stack.
\<close>

theorem hold_race_runs_fiber_twice:
  "\<exists>h s ts n. sched_reach 1 (h, s, ts) n \<and>
     (length ts = 2 \<and> tl_running (th_locals (ts ! 0)) = Some 0 \<and> tl_running (th_locals (ts ! 1)) = Some 0)"
  by (rule exec_existsI [where as = twice_run]) code_simp

definition duplicate_run :: "action list" where
  "duplicate_run = [Create 5, Sched (OfFiber (Some 0)) (- 1), Sched (OfFiber (Some 0)) (- 1),
     Enter 3 ''v'', Enter 4 ''w'', Step 0, Step 1, Step 0]"

text \<open>
  The state test of the scan does not reserve a fiber: of two entries of one fiber, two
  threads can each take one, and the second \<open>swapIn\<close> stops at its assertion.
\<close>

theorem duplicate_entry_fails:
  "\<exists>h s ts n. sched_reach 1 (h, s, ts) n \<and>
     (length ts = 2 \<and> thread_step h s (ts ! 1) = Some (Inl AssertionFailed))"
  by (rule exec_existsI [where as = duplicate_run]) code_simp

end
