(* ===== verification/Scheduler_Rounds.thy ===== *)
theory Scheduler_Rounds
  imports Scheduler_Runs
begin

text \<open>
  Whole rounds of the loop of \<open>run\<close> on a worker thread: a scheduled function or fiber is taken,
  runs, leaves in one of the possible ways, and the scheduler is left as the code promises;
  then construction, \<open>start\<close>, \<open>stop\<close> and destruction.
\<close>

section \<open>Several steps of one thread\<close>

text \<open>\<open>None\<close> is a step of \<open>run\<close> or \<open>idle\<close>, \<open>Some how\<close> the end of the turn of a task.\<close>

fun thread_steps :: "task_leave option list \<Rightarrow> sched_result \<Rightarrow> sched_result option" where
  "thread_steps [] r = Some r"
| "thread_steps (a # as) (Inl e) = Some (Inl e)"
| "thread_steps (a # as) (Inr (h, s, t)) =
     (case (case a of None \<Rightarrow> thread_step h s t | Some how \<Rightarrow> task_step how h s t) of
        None \<Rightarrow> None
      | Some r \<Rightarrow> thread_steps as r)"

lemma sys_ok_cong: "fh_fibers h' = fh_fibers h \<Longrightarrow> sys_ok (h', ls) = sys_ok (h, ls)"
  by (simp add: sys_ok_def thread_ok_def fibers_ok_def)

lemma tickle_fibers [simp]: "fh_fibers (Scheduler_tickle h) = fh_fibers h"
  by (simp add: Scheduler_tickle_def)

lemma swapIn_keeps_cb:
  "Fiber_swapIn f h l = Inr (h', l') \<Longrightarrow> k < length (fh_fibers h) \<Longrightarrow>
     fb_cb (fiber_at h' k) = fb_cb (fiber_at h k) \<and> length (fh_fibers h') = length (fh_fibers h)"
  by (auto simp: Fiber_swapIn_def swap_context_def Let_def fiber_enter_def fiber_at_simps
      split: if_splits option.splits fiber_ctx.splits)

lemma worker_resumes:
  assumes ok: "sys_ok (h, ls)" and i: "i < length ls" and l: "ls ! i = l"
    and "tl_running l = tl_scheduler_fiber l" and f: "f < length (fh_fibers h)"
    and st: "fb_state (fiber_at h f) \<in> {INIT, HOLD, READY}"
  obtains h' m where "Fiber_swapIn f h l = Inr (h', switched_to f l)"
    "sys_ok (h', ls[i := switched_to f l])" "fb_state (fiber_at h' f) = EXEC"
    "fb_cb (fiber_at h' f) = fb_cb (fiber_at h f)" "length (fh_fibers h') = length (fh_fibers h)"
    "tl_scheduler_fiber l = Some m" "m \<noteq> f"
proof -
  obtain h' where h': "Fiber_swapIn f h l = Inr (h', switched_to f l)"
    "fb_state (fiber_at h' f) = EXEC" "sys_ok (h', ls[i := switched_to f l])"
    using resume_runs [OF ok i _ f st] assms(3,4) by auto
  obtain m where m: "tl_threadFiber l = Some m" "tl_scheduler_fiber l = Some m" "m < length (fh_fibers h)"
    by (rule sys_ok_thread [OF ok i]) (use l in auto)
  have "fb_state (fiber_at h m) = EXEC"
    using main_of_thread(2) [OF ok i, of m] m l by (simp add: main_ok_def)
  then have "m \<noteq> f" using st by auto
  with h' m swapIn_keeps_cb [OF h'(1) f] show thesis by (intro that [of h' m]) auto
qed

lemma worker_leaves:
  assumes ok: "sys_ok (h, ls)" and i: "i < length ls" and l: "ls ! i = l"
    and r: "tl_running l = Some f" and m: "tl_scheduler_fiber l = Some m" "m \<noteq> f"
  shows "\<exists>h'. Fiber_YieldToReady h l = Inr (h', switched_to m l) \<and> fb_state (fiber_at h' f) = READY"
    and "\<exists>h'. Fiber_YieldToHold h l = Inr (h', switched_to m l) \<and> fb_state (fiber_at h' f) = HOLD"
    and "\<exists>h'. MainFunc_end out bt f h l = Inr (h', switched_to m l) \<and>
      fb_state (fiber_at h' f) = end_state out \<and> fb_stack (fiber_at h' f) \<and> f < length (fh_fibers h')"
proof -
  have n: "tl_running (ls ! i) \<noteq> tl_scheduler_fiber (ls ! i)" "tl_running (ls ! i) = Some f"
    using l r m by auto
  show "\<exists>h'. Fiber_YieldToReady h l = Inr (h', switched_to m l) \<and> fb_state (fiber_at h' f) = READY"
    and "\<exists>h'. Fiber_YieldToHold h l = Inr (h', switched_to m l) \<and> fb_state (fiber_at h' f) = HOLD"
    using yield_runs [OF ok i n(2,1), of READY] yield_runs [OF ok i n(2,1), of HOLD] m l
    by (auto simp: Fiber_YieldToReady_def Fiber_YieldToHold_def)
  obtain h' where h': "MainFunc_end out bt f h l = Inr (h', switched_to m l)"
    "fb_state (fiber_at h' f) = end_state out" "sys_ok (h', ls[i := switched_to m l])"
    using finish_runs [OF ok i n(2,1), of out bt] m l by auto
  have "f < length (fh_fibers h)" using sys_ok_thread [OF ok i] n(2) by (metis option.inject)
  moreover have "length (fh_fibers h') = length (fh_fibers h)"
    using h'(1) cb_finished_at(1) [OF calculation, of out bt f]
    by (auto simp: MainFunc_end_def Fiber_swapOut_def swap_context_def Let_def
        split: option.splits fiber_ctx.splits)
  ultimately have len: "f < length (fh_fibers h')" by simp
  have "fb_state (fiber_at h' f) \<noteq> EXEC" using h'(2) by (simp add: end_state_def)
  from not_exec_is_task(3) [OF h'(3) len this] have "fb_stack (fiber_at h' f)" by (simp add: task_ok_def)
  with h' len show "\<exists>h'. MainFunc_end out bt f h l = Inr (h', switched_to m l) \<and>
      fb_state (fiber_at h' f) = end_state out \<and> fb_stack (fiber_at h' f) \<and> f < length (fh_fibers h')"
    by blast
qed

lemma set_state_same: "fb_state (fiber_at h f) = st \<Longrightarrow> set_state f st h = h"
  by (auto simp: set_state_def upd_fiber_def)

text \<open>The scan, when the first item is runnable here.\<close>

lemma scan_first:
  assumes "th_pc t = Scan" and "sc_fibers s = it # rest" and "item_set it"
    and "item_runnable h (th_id t) it"
  shows "thread_step h s t = Some (Inr (if rest \<noteq> [] then Scheduler_tickle h else h,
    s\<lparr>sc_fibers := rest, sc_activeThreadCount := sc_activeThreadCount s + 1\<rparr>,
    t\<lparr>th_ft := it, th_pc := Dispatch\<rparr>))"
  using assms by (simp add: thread_step_def run_scan_def scan_take_it)

section \<open>A scheduled function\<close>

lemma function_dispatched:
  assumes ok: "sys_ok (h, ls)" and i: "i < length ls" and l: "ls ! i = th_locals t"
    and sf: "tl_running (th_locals t) = tl_scheduler_fiber (th_locals t)"
    and t: "th_pc t = Dispatch" "th_ft t = \<lparr>ft_fiber = None, ft_cb = Some cb, ft_thread = thr\<rparr>"
      "th_cb_fiber t = None"
  obtains h' m where "run_dispatch h s t = Inr (h', s,
      t\<lparr>th_cb_fiber := Some (length (fh_fibers h)), th_locals := switched_to (length (fh_fibers h)) (th_locals t),
        th_pc := InCb\<rparr>)"
    "sys_ok (h', ls[i := switched_to (length (fh_fibers h)) (th_locals t)])"
    "fb_cb (fiber_at h' (length (fh_fibers h))) = Some cb"
    "fb_state (fiber_at h' (length (fh_fibers h))) = EXEC"
    "tl_scheduler_fiber (th_locals t) = Some m" "m \<noteq> length (fh_fibers h)"
proof -
  let ?f = "length (fh_fibers h)"
  obtain h1 where new: "Fiber_new (Some cb) 0 False h = (?f, h1)" by (simp add: Fiber_new_def Let_def)
  have b: "?f < length (fh_fibers h1)" "fb_state (fiber_at h1 ?f) = INIT" "fb_cb (fiber_at h1 ?f) = Some cb"
    using new by (auto simp: Fiber_new_def Let_def)
  then have st: "fb_state (fiber_at h1 ?f) \<in> {INIT, HOLD, READY}" by simp
  obtain h' m where h': "Fiber_swapIn ?f h1 (th_locals t) = Inr (h', switched_to ?f (th_locals t))"
    "sys_ok (h', ls[i := switched_to ?f (th_locals t)])" "fb_state (fiber_at h' ?f) = EXEC"
    "fb_cb (fiber_at h' ?f) = fb_cb (fiber_at h1 ?f)" "tl_scheduler_fiber (th_locals t) = Some m" "m \<noteq> ?f"
    by (rule worker_resumes [OF create_preserves [OF ok new] i l sf b(1) st])
  have "run_dispatch h s t = Inr (h', s,
      t\<lparr>th_cb_fiber := Some ?f, th_locals := switched_to ?f (th_locals t), th_pc := InCb\<rparr>)"
    using t h'(1) by (simp add: run_dispatch_def dispatch_cb_def switched_def new)
  moreover have "fb_cb (fiber_at h' ?f) = Some cb" using h'(4) b(3) by simp
  ultimately show thesis using h'(2,3,5,6) by (intro that) auto
qed

text \<open>
  A function at the head of the queue that may run on a worker is run by it: after the scan
  and the dispatch the thread executes a new fiber whose function it is, with the item taken
  out and one more active thread. When the function ends, by returning or with any exception,
  two more steps leave the scheduler as it was but for the item, and keep the fiber, fresh and
  without function, for the next function.
\<close>

theorem scheduled_function_round:
  assumes "fib_reach (h, ls)" and "i < length ls" and "ls ! i = th_locals t"
    and "tl_running (th_locals t) = tl_scheduler_fiber (th_locals t)"
    and "th_pc t = Scan" and "th_cb_fiber t = None" and "thr = - 1 \<or> thr = th_id t"
    and "sc_fibers s = FiberAndThread (OfCb (Some cb)) thr # rest"
  shows "\<exists>f h2 t2 h5 t5.
    thread_steps [None, None] (Inr (h, s, t)) =
      Some (Inr (h2, s\<lparr>sc_fibers := rest, sc_activeThreadCount := sc_activeThreadCount s + 1\<rparr>, t2)) \<and>
    tl_running (th_locals t2) = Some f \<and> fb_cb (fiber_at h2 f) = Some cb \<and>
    fb_state (fiber_at h2 f) = EXEC \<and>
    thread_steps [None, None, Some (Ends out bt), None, None] (Inr (h, s, t)) =
      Some (Inr (h5, s\<lparr>sc_fibers := rest\<rparr>, t5)) \<and>
    th_pc t5 = Scan \<and> tl_running (th_locals t5) = tl_running (th_locals t) \<and>
    th_cb_fiber t5 = Some f \<and> fb_state (fiber_at h5 f) = INIT \<and> fb_cb (fiber_at h5 f) = None"
proof -
  have ok: "sys_ok (h, ls)" using fib_reach_ok [OF assms(1)] .
  let ?it = "FiberAndThread (OfCb (Some cb)) thr"
  let ?h1 = "if rest \<noteq> [] then Scheduler_tickle h else h"
  let ?s1 = "s\<lparr>sc_fibers := rest, sc_activeThreadCount := sc_activeThreadCount s + 1\<rparr>"
  let ?t1 = "t\<lparr>th_ft := ?it, th_pc := Dispatch\<rparr>"
  let ?f = "length (fh_fibers h)"
  have scan: "thread_step h s t = Some (Inr (?h1, ?s1, ?t1))"
    using assms(5,7,8) by (intro scan_first) (auto simp: item_set_def item_runnable_def)
  have ok1: "sys_ok (?h1, ls)" "length (fh_fibers ?h1) = ?f"
    using ok sys_ok_cong [of ?h1 h ls] by simp_all
  obtain h2 m where d: "run_dispatch ?h1 ?s1 ?t1 = Inr (h2, ?s1,
      ?t1\<lparr>th_cb_fiber := Some ?f, th_locals := switched_to ?f (th_locals t), th_pc := InCb\<rparr>)"
    "sys_ok (h2, ls[i := switched_to ?f (th_locals t)])" "fb_cb (fiber_at h2 ?f) = Some cb"
    "fb_state (fiber_at h2 ?f) = EXEC" "tl_scheduler_fiber (th_locals t) = Some m" "m \<noteq> ?f"
    using function_dispatched [OF ok1(1) assms(2), of ?t1 cb thr ?s1] assms(3,4,6) ok1(2) by auto
  let ?t2 = "?t1\<lparr>th_cb_fiber := Some ?f, th_locals := switched_to ?f (th_locals t), th_pc := InCb\<rparr>"
  have l2: "i < length (ls[i := switched_to ?f (th_locals t)])"
    "ls[i := switched_to ?f (th_locals t)] ! i = th_locals ?t2"
    "tl_running (th_locals ?t2) = Some ?f" "tl_scheduler_fiber (th_locals ?t2) = Some m"
    using assms(2) d(5) by (simp_all add: switched_to_def)
  obtain h3 where h3: "MainFunc_end out bt ?f h2 (th_locals ?t2) = Inr (h3, switched_to m (th_locals ?t2))"
    "fb_state (fiber_at h3 ?f) = end_state out" "fb_stack (fiber_at h3 ?f)" "?f < length (fh_fibers h3)"
    using worker_leaves(3) [OF d(2) l2 d(6), of out bt] by blast
  have ended: "fiber_ended h3 ?f" "resettable (end_state out)" "end_state out \<noteq> READY"
    using h3(2) by (simp_all add: fiber_ended_def end_state_def resettable_def)
  let ?h5 = "upd_fiber ?f (\<lambda>b. b\<lparr>fb_cb := None, fb_ctx := CtxEntry, fb_entry := MainFunc, fb_state := INIT\<rparr>) h3"
  let ?t5 = "?t2\<lparr>th_locals := switched_to m (th_locals ?t2), th_ft := FiberAndThread_empty, th_pc := Scan\<rparr>"
  have two: "thread_steps [None, None] (Inr (h, s, t)) = Some (Inr (h2, ?s1, ?t2))"
    using scan d(1) by (simp add: thread_step_def)
  have all: "thread_steps [None, None, Some (Ends out bt), None, None] (Inr (h, s, t)) =
      Some (Inr (?h5, s\<lparr>sc_fibers := rest\<rparr>, ?t5))"
    using scan d(1) h3 ended l2(3)
    by (simp add: thread_step_def task_step_def switched_def run_back_def run_post_cb_def Fiber_reset_def Let_def)
  have "tl_running (th_locals ?t5) = tl_running (th_locals t)" using assms(4) d(5) by (simp add: switched_to_def)
  with two all d(3,4) h3(4) show ?thesis
    by (intro exI [of _ ?f] exI [of _ h2] exI [of _ ?t2] exI [of _ ?h5] exI [of _ ?t5])
       (simp add: fiber_at_upd switched_to_def)
qed

text \<open>A worker in front of the loop, for the instances: the thread of \<open>demo_created\<close>.\<close>

definition demo_worker :: sched_thread where
  "demo_worker = (sched_thread_new 3 ''w'')\<lparr>th_locals := snd demo_created ! 0, th_pc := Scan\<rparr>"

definition demo_queue :: "fiber_and_thread list \<Rightarrow> scheduler" where
  "demo_queue q = demo_sched\<lparr>sc_fibers := q\<rparr>"

lemma demo_worker_facts:
  "th_pc demo_worker = Scan" "th_cb_fiber demo_worker = None" "th_id demo_worker = 3"
  "snd demo_created ! 0 = th_locals demo_worker"
  "tl_running (th_locals demo_worker) = tl_scheduler_fiber (th_locals demo_worker)"
  "sc_fibers (demo_queue q) = q" "0 < length (snd demo_created)"
  by (simp_all add: demo_worker_def demo_queue_def sched_thread_new_def demo_threads)

theorem scheduled_function_round_witness:
  "\<exists>h5 t5. thread_steps [None, None, Some (Ends ThrewUnknown ''bt''), None, None]
     (Inr (fst demo_created, demo_queue [FiberAndThread (OfCb (Some 9)) 3], demo_worker)) =
       Some (Inr (h5, (demo_queue [FiberAndThread (OfCb (Some 9)) 3])\<lparr>sc_fibers := []\<rparr>, t5)) \<and> th_pc t5 = Scan"
  using scheduled_function_round [OF demo_reach(1), of 0 demo_worker 3
      "demo_queue [FiberAndThread (OfCb (Some 9)) 3]" 9 "[]" ThrewUnknown "''bt''"] demo_worker_facts
  by auto

section \<open>A scheduled fiber\<close>

text \<open>
  C27: A fresh or suspended fiber at the head of the queue that may run on a worker is resumed
  by it. When the fiber yields with \<open>YieldToReady\<close> it is put back at the end of the queue; the
  new entry is for any thread, also when the fiber was scheduled for this one. When it yields
  with \<open>YieldToHold\<close>, or ends, it is out of the queue. The counters are as before.
\<close>

theorem scheduled_fiber_round:
  assumes "fib_reach (h, ls)" and "i < length ls" and "ls ! i = th_locals t"
    and "tl_running (th_locals t) = tl_scheduler_fiber (th_locals t)"
    and "th_pc t = Scan" and "thr = - 1 \<or> thr = th_id t" and "f < length (fh_fibers h)"
    and "fb_state (fiber_at h f) \<in> {INIT, HOLD, READY}"
    and "sc_fibers s = FiberAndThread (OfFiber (Some f)) thr # rest"
  shows "(\<exists>h2 t2. thread_steps [None, None] (Inr (h, s, t)) =
      Some (Inr (h2, s\<lparr>sc_fibers := rest, sc_activeThreadCount := sc_activeThreadCount s + 1\<rparr>, t2)) \<and>
      tl_running (th_locals t2) = Some f \<and> fb_state (fiber_at h2 f) = EXEC) \<and>
    (\<exists>h' t'. thread_steps [None, None, Some YieldReady, None, None] (Inr (h, s, t)) =
      Some (Inr (h', s\<lparr>sc_fibers := rest @ [FiberAndThread (OfFiber (Some f)) (- 1)]\<rparr>, t')) \<and>
      th_pc t' = Scan \<and> fb_state (fiber_at h' f) = READY) \<and>
    (\<exists>h' t'. thread_steps [None, None, Some YieldHold, None, None] (Inr (h, s, t)) =
      Some (Inr (h', s\<lparr>sc_fibers := rest\<rparr>, t')) \<and> th_pc t' = Scan \<and> fb_state (fiber_at h' f) = HOLD) \<and>
    (\<exists>h' t'. thread_steps [None, None, Some (Ends out bt), None, None] (Inr (h, s, t)) =
      Some (Inr (h', s\<lparr>sc_fibers := rest\<rparr>, t')) \<and> th_pc t' = Scan \<and> fiber_ended h' f)"
proof -
  have ok: "sys_ok (h, ls)" using fib_reach_ok [OF assms(1)] .
  let ?it = "FiberAndThread (OfFiber (Some f)) thr"
  let ?h1 = "if rest \<noteq> [] then Scheduler_tickle h else h"
  let ?s1 = "s\<lparr>sc_fibers := rest, sc_activeThreadCount := sc_activeThreadCount s + 1\<rparr>"
  let ?t1 = "t\<lparr>th_ft := ?it, th_pc := Dispatch\<rparr>"
  have scan: "thread_step h s t = Some (Inr (?h1, ?s1, ?t1))"
    using assms(5,6,8,9) by (intro scan_first) (auto simp: item_set_def item_runnable_def)
  have ok1: "sys_ok (?h1, ls)" "f < length (fh_fibers ?h1)" "fb_state (fiber_at ?h1 f) \<in> {INIT, HOLD, READY}"
    using ok sys_ok_cong [of ?h1 h ls] assms(7,8) by auto
  obtain h2 m where d: "Fiber_swapIn f ?h1 (th_locals t) = Inr (h2, switched_to f (th_locals t))"
    "sys_ok (h2, ls[i := switched_to f (th_locals t)])" "fb_state (fiber_at h2 f) = EXEC"
    "tl_scheduler_fiber (th_locals t) = Some m" "m \<noteq> f"
    by (rule worker_resumes [OF ok1(1) assms(2,3,4) ok1(2,3)])
  let ?t2 = "?t1\<lparr>th_locals := switched_to f (th_locals t), th_pc := InFiber\<rparr>"
  have "\<not> fiber_ended ?h1 f" using ok1(3) by (auto simp: fiber_ended_def)
  then have disp: "thread_step ?h1 ?s1 ?t1 = Some (Inr (h2, ?s1, ?t2))"
    using d(1) by (simp add: thread_step_def run_dispatch_def switched_def)
  have l2: "i < length (ls[i := switched_to f (th_locals t)])"
    "ls[i := switched_to f (th_locals t)] ! i = th_locals ?t2"
    "tl_running (th_locals ?t2) = Some f" "tl_scheduler_fiber (th_locals ?t2) = Some m"
    using assms(2) d(4) by (simp_all add: switched_to_def)
  note leave = worker_leaves [OF d(2) l2 d(5)]
  note simps = task_step_def switched_def thread_step_def run_back_def run_post_fiber_def Let_def
    Scheduler_schedule_def scheduleNoLock_def fiber_ended_def
  have "\<exists>h' t'. thread_steps [None, None, Some YieldReady, None, None] (Inr (h, s, t)) =
      Some (Inr (h', s\<lparr>sc_fibers := rest @ [FiberAndThread (OfFiber (Some f)) (- 1)]\<rparr>, t')) \<and>
      th_pc t' = Scan \<and> fb_state (fiber_at h' f) = READY"
    using leave(1) scan disp by (auto simp: simps)
  moreover have "\<exists>h' t'. thread_steps [None, None, Some YieldHold, None, None] (Inr (h, s, t)) =
      Some (Inr (h', s\<lparr>sc_fibers := rest\<rparr>, t')) \<and> th_pc t' = Scan \<and> fb_state (fiber_at h' f) = HOLD"
    using leave(2) scan disp by (auto simp: simps set_state_same)
  moreover have "\<exists>h' t'. thread_steps [None, None, Some (Ends out bt), None, None] (Inr (h, s, t)) =
      Some (Inr (h', s\<lparr>sc_fibers := rest\<rparr>, t')) \<and> th_pc t' = Scan \<and> fiber_ended h' f"
    using leave(3) [of out bt] scan disp l2(3) by (auto simp: simps end_state_def)
  ultimately show ?thesis using scan disp d(3) l2(3) by auto
qed

theorem scheduled_fiber_round_witness:
  "\<exists>h' t'. thread_steps [None, None, Some YieldReady, None, None]
     (Inr (fst demo_created, demo_queue [FiberAndThread (OfFiber (Some 1)) 3], demo_worker)) =
       Some (Inr (h', (demo_queue [FiberAndThread (OfFiber (Some 1)) 3])
         \<lparr>sc_fibers := [FiberAndThread (OfFiber (Some 1)) (- 1)]\<rparr>, t')) \<and>
     th_pc t' = Scan \<and> fb_state (fiber_at h' 1) = READY"
  using scheduled_fiber_round [OF demo_reach(1), of 0 demo_worker 3 1
      "demo_queue [FiberAndThread (OfFiber (Some 1)) 3]" "[]" Returned "[]"] demo_worker_facts
    demo_fiber(1,2)
  by auto

section \<open>The idle fiber\<close>

text \<open>
  A turn of the idle fiber decides by \<open>stopping\<close>: when it is false the fiber is suspended
  and the thread is back at the scan; when it is true the idle fiber ends, and the thread finds
  nothing in the queue, finds its idle fiber ended, and leaves \<open>run\<close>. The idle counter is
  decremented once in either case.
\<close>

theorem idle_turn_decides:
  assumes "fib_reach (h, ls)" and "i < length ls" and "ls ! i = th_locals t" and "th_pc t = InIdle"
    and "tl_running (th_locals t) = Some (th_idle_fiber t)"
    and "tl_scheduler_fiber (th_locals t) = Some m" and "m \<noteq> th_idle_fiber t"
  shows "if \<not> Scheduler_stopping s
    then \<exists>h' t'. thread_steps [None, None] (Inr (h, s, t)) =
        Some (Inr (h', s\<lparr>sc_idleThreadCount := sc_idleThreadCount s - 1\<rparr>, t')) \<and>
      th_pc t' = Scan \<and> fb_state (fiber_at h' (th_idle_fiber t)) = HOLD
    else \<exists>h' t'. thread_steps [None, None, None, None] (Inr (h, s, t)) =
        Some (Inr (h', s\<lparr>sc_idleThreadCount := sc_idleThreadCount s - 1\<rparr>, t')) \<and>
      th_pc t' = Left \<and> fb_state (fiber_at h' (th_idle_fiber t)) = TERM'"
proof -
  let ?h = "if th_idle_entered t then h else emit INFO ''idle'' h"
  let ?f = "th_idle_fiber t"
  have ok: "sys_ok (?h, ls)" using fib_reach_ok [OF assms(1)] sys_ok_cong [of ?h h ls] by simp
  note leave = worker_leaves [OF ok assms(2,3,5,6,7)]
  note simps = thread_step_def idle_turn_def switched_def run_back_idle_def Let_def fiber_ended_def
  show ?thesis
  proof (cases "Scheduler_stopping s")
    case False
    with leave(2) assms(4) show ?thesis by (auto simp: simps set_state_same)
  next
    case True
    then have "sc_fibers s = []" by (simp add: Scheduler_stopping_def)
    obtain h' where h': "MainFunc_end Returned [] ?f ?h (th_locals t) = Inr (h', switched_to m (th_locals t))"
      "fb_state (fiber_at h' ?f) = TERM'"
      using leave(3) [of Returned "[]"] by (auto simp: end_state_def)
    then show ?thesis using True \<open>sc_fibers s = []\<close> assms(4)
      by (simp add: simps run_scan_def run_dispatch_def dispatch_idle_def FiberAndThread_empty_def)
  qed
qed

definition demo_idle :: sched_thread where
  "demo_idle = (sched_thread_new 3 ''w'')
     \<lparr>th_locals := snd demo_resumed ! 0, th_pc := InIdle, th_idle_fiber := 1\<rparr>"

theorem idle_turn_decides_witness:
  "\<exists>h' t'. thread_steps [None, None, None, None]
      (Inr (fst demo_resumed, (demo_queue [])\<lparr>sc_autoStop := True, sc_idleThreadCount := 1\<rparr>, demo_idle)) =
        Some (Inr (h', (demo_queue [])\<lparr>sc_autoStop := True, sc_idleThreadCount := 0\<rparr>, t')) \<and> th_pc t' = Left"
  using idle_turn_decides [OF demo_reach(2), of 0 demo_idle 0
      "(demo_queue [])\<lparr>sc_autoStop := True, sc_idleThreadCount := 1\<rparr>"]
  by (auto simp: demo_idle_def demo_threads demo_queue_def demo_sched_def Scheduler_stopping_def)

section \<open>Construction, start, stop, destruction\<close>

text \<open>
  The constructor rejects 0 threads. With \<open>use_caller\<close> it rejects a thread that has a
  scheduler; otherwise it makes the calling thread the root thread, with a root fiber that
  runs \<open>run\<close> as its scheduling fiber, and the pool is one thread smaller. Without it the
  calling thread is untouched.
\<close>

theorem constructor_functional:
  assumes "tl_fiber (th_locals t) = None"
  shows "(threads = 0 \<longrightarrow> Scheduler_new self threads uc name h t = Inl AssertionFailed) \<and>
    (threads \<noteq> 0 \<and> uc \<and> Scheduler_GetThis t \<noteq> None \<longrightarrow>
      Scheduler_new self threads uc name h t = Inl AssertionFailed) \<and>
    (threads \<noteq> 0 \<and> \<not> uc \<longrightarrow>
      (\<exists>s. Scheduler_new self threads uc name h t = Inr (h, s, t) \<and> sc_rootFiber s = None \<and>
        sc_rootThread s = - 1 \<and> sc_threadCount s = threads)) \<and>
    (threads \<noteq> 0 \<and> uc \<and> Scheduler_GetThis t = None \<longrightarrow>
      (\<exists>h' s t' r. Scheduler_new self threads uc name h t = Inr (h', s, t') \<and>
        sc_rootFiber s = Some r \<and> Scheduler_GetMainFiber t' = Some r \<and> Scheduler_GetThis t' = Some self \<and>
        sc_rootThread s = th_id t \<and> sc_threadIds s = [th_id t] \<and> sc_threadCount s = threads - 1 \<and>
        tl_threadFiber (th_locals t') = Some (length (fh_fibers h)) \<and> r = Suc (length (fh_fibers h)) \<and>
        fb_entry (fiber_at h' r) = CallerMainFunc \<and> fb_cb (fiber_at h' r) = Some run_cb \<and>
        fb_state (fiber_at h' r) = INIT))"
  using assms
  by (auto simp: Scheduler_new_def Let_def Fiber_GetThis_def Fiber_main_new_def Fiber_SetThis_def
      Fiber_new_def Scheduler_setThis_def Scheduler_GetThis_def Scheduler_GetMainFiber_def nth_append)

theorem constructor_functional_witness:
  "\<exists>h' s t'. Scheduler_new 1 2 True ''main'' fiber_heap_new (sched_thread_new 3 ''m'') = Inr (h', s, t') \<and>
     sc_rootFiber s = Some 1 \<and> sc_threadCount s = 1"
  using constructor_functional [of "sched_thread_new 3 ''m''" 2 1 True "''main''" fiber_heap_new]
  by (auto simp: sched_thread_new_def thread_locals_new_def Scheduler_GetThis_def fiber_heap_new_def)

text \<open>
  \<open>start\<close> does nothing on a scheduler that runs. On a stopped one it stops at its assertion
  if a pool is left, and otherwise creates \<open>m_threadCount\<close> threads with the names
  \<open>name_0\<close>, \<open>name_1\<close>, ..., whose ids are appended to \<open>m_threadIds\<close>. A second \<open>start\<close> right after
  changes nothing.
\<close>

theorem start_functional:
  "(\<not> sc_stopping s \<longrightarrow> Scheduler_start ids s = Inr s) \<and>
   (sc_stopping s \<and> sc_threads s \<noteq> [] \<longrightarrow> Scheduler_start ids s = Inl AssertionFailed) \<and>
   (sc_stopping s \<and> sc_threads s = [] \<longrightarrow>
     (\<exists>s'. Scheduler_start ids s = Inr s' \<and> \<not> sc_stopping s' \<and>
       length (sc_threads s') = unat (sc_threadCount s) \<and>
       (\<forall>k < unat (sc_threadCount s). sc_threads s' ! k = (ids k, sc_name s @ ''_'' @ dec_nat k)) \<and>
       sc_threadIds s' = sc_threadIds s @ map fst (sc_threads s') \<and>
       Scheduler_start ids s' = Inr s'))"
  by (auto simp: Scheduler_start_def Let_def comp_def)

theorem start_functional_witness:
  "\<exists>s'. Scheduler_start (\<lambda>k. 100 + int k) demo_sched = Inr s' \<and> \<not> sc_stopping s' \<and>
     sc_threadIds s' = map fst (sc_threads s') \<and> length (sc_threads s') = 1"
  using start_functional [of demo_sched "\<lambda>k. 100 + int k"] by (auto simp: demo_sched_def)

text \<open>
  On a scheduler with only the caller's thread, \<open>stop\<close> with nothing to do returns at once and
  sets both flags. But when its root fiber has already ended, by an earlier \<open>stop\<close>, and
  something was scheduled since, \<open>stop\<close> goes on to call the ended fiber: the code that made a
  new root fiber here is commented out.
\<close>

theorem stop_alone:
  assumes "sc_rootFiber s = Some r" and "sc_threadCount s = 0" and "Scheduler_GetThis t = Some self"
    and "sc_rootThread s \<noteq> - 1" and "sc_activeThreadCount s = 0"
    and "fb_state (fiber_at h r) = TERM' \<or> fb_state (fiber_at h r) = INIT"
  shows "Scheduler_stop self addr h s t =
    (if sc_fibers s = []
     then Inr (StopReturn, emit INFO (addr @ '' stopped'') h, s\<lparr>sc_autoStop := True, sc_stopping := True\<rparr>)
     else Inr (StopCallRoot r, Scheduler_tickle (emit INFO (addr @ '' stopped'') h),
               s\<lparr>sc_autoStop := True, sc_stopping := True\<rparr>))"
  using assms
  by (simp add: Scheduler_stop_def Let_def root_ended_or_fresh_def Scheduler_stopping_def)

definition demo_root :: "fiber_heap \<times> scheduler \<times> sched_thread" where
  "demo_root = (case Scheduler_new 1 1 True ''main'' fiber_heap_new (sched_thread_new 3 ''m'') of
     Inr x \<Rightarrow> x | Inl _ \<Rightarrow> (fiber_heap_new, demo_sched, sched_thread_new 3 ''m''))"

lemma demo_root_facts:
  "sc_rootFiber (fst (snd demo_root)) = Some 1" "sc_threadCount (fst (snd demo_root)) = 0"
  "Scheduler_GetThis (snd (snd demo_root)) = Some 1" "sc_rootThread (fst (snd demo_root)) = 3"
  "sc_activeThreadCount (fst (snd demo_root)) = 0" "fb_state (fiber_at (fst demo_root) 1) = INIT"
  "sc_fibers (fst (snd demo_root)) = []"
  by (simp_all add: demo_root_def Scheduler_new_def sched_thread_new_def Scheduler_GetThis_def
      Scheduler_setThis_def demo_defs)

theorem stop_alone_witness:
  "Scheduler_stop 1 ''0x1'' (set_state 1 TERM' (fst demo_root)) ((fst (snd demo_root))\<lparr>sc_fibers := [demo_item 5 3]\<rparr>)
      (snd (snd demo_root)) =
   Inr (StopCallRoot 1, Scheduler_tickle (emit INFO ''0x1 stopped'' (set_state 1 TERM' (fst demo_root))),
     (fst (snd demo_root))\<lparr>sc_fibers := [demo_item 5 3], sc_autoStop := True, sc_stopping := True\<rparr>)"
proof -
  have "fb_state (fiber_at (set_state 1 TERM' (fst demo_root)) 1) = TERM'"
    by (simp add: demo_root_def Scheduler_new_def sched_thread_new_def Scheduler_GetThis_def
        Scheduler_setThis_def demo_defs)
  with demo_root_facts show ?thesis
    by (subst stop_alone [where r = 1]) simp_all
qed

text \<open>
  \<open>stop\<close> of a scheduler with \<open>use_caller\<close> must be called on a thread that runs under it, and
  of one without it on a thread that does not: else it stops at an assertion (unless it could
  return at once).
\<close>

theorem stop_wrong_thread:
  assumes "(sc_rootThread s \<noteq> - 1) \<noteq> (Scheduler_GetThis t = Some self)" and "sc_threadCount s \<noteq> 0"
  shows "Scheduler_stop self addr h s t = Inl AssertionFailed"
  using assms by (auto simp: Scheduler_stop_def Let_def root_ended_or_fresh_def split: option.splits)

theorem stop_wrong_thread_witness:
  "Scheduler_stop 1 ''0x1'' fiber_heap_new demo_sched (Scheduler_setThis 1 (sched_thread_new 3 ''m'')) = Inl AssertionFailed"
  by (rule stop_wrong_thread) (simp_all add: demo_sched_def Scheduler_setThis_def Scheduler_GetThis_def)

text \<open>
  The destructor asserts that \<open>stop\<close> was called and clears \<open>t_scheduler\<close> on its own thread,
  but never \<open>t_scheduler_fiber\<close>, which keeps pointing to the root fiber it destroys.
\<close>

theorem destructor_functional:
  "(Scheduler_destroy self s t = Inl AssertionFailed \<longleftrightarrow> \<not> sc_stopping s) \<and>
   (sc_stopping s \<longrightarrow> (\<exists>t'. Scheduler_destroy self s t = Inr t' \<and>
      Scheduler_GetThis t' = (if Scheduler_GetThis t = Some self then None else Scheduler_GetThis t) \<and>
      Scheduler_GetMainFiber t' = Scheduler_GetMainFiber t))"
  by (auto simp: Scheduler_destroy_def Scheduler_GetThis_def Scheduler_GetMainFiber_def)

theorem destructor_functional_witness:
  "\<exists>t'. Scheduler_destroy 1 (fst (snd demo_root)) (snd (snd demo_root)) = Inr t' \<and>
     Scheduler_GetThis t' = None \<and> Scheduler_GetMainFiber t' = Some 1"
proof -
  have "sc_stopping (fst (snd demo_root))" "Scheduler_GetMainFiber (snd (snd demo_root)) = Some 1"
    by (simp_all add: demo_root_def Scheduler_new_def sched_thread_new_def Scheduler_GetThis_def
        Scheduler_setThis_def Scheduler_GetMainFiber_def demo_defs)
  with destructor_functional [of 1 "fst (snd demo_root)" "snd (snd demo_root)"] demo_root_facts(3)
  show ?thesis by auto
qed

end
