(* ===== verification/Scheduler_Drain.thy ===== *)
theory Scheduler_Drain
  imports Scheduler_Rounds
begin

text \<open>
  A thread that runs \<open>Scheduler::run\<close> from its call to its return. Shown is that a queue of functions
  is worked off in order, that the loop then ends, and that everything it allocated is released.
\<close>

section \<open>The end of run\<close>

text \<open>
  A \<open>Fiber::ptr\<close> that is dropped: the fiber is destroyed unless another pointer is left, on its own
  stack or anywhere else (\<open>held\<close>).
\<close>

definition drop_ptr ::
  "(nat \<Rightarrow> bool) \<Rightarrow> nat option \<Rightarrow> fiber_heap \<times> thread_locals \<Rightarrow> fiber_result"
where
  "drop_ptr held p hl = (case hl of (h, l) \<Rightarrow>
     (case p of
        None \<Rightarrow> Inr (h, l)
      | Some f \<Rightarrow> if held f \<or> fb_stack_refs (fiber_at h f) \<noteq> 0 then Inr (h, l) else Fiber_destroy f h l))"

text \<open>\<open>run\<close> returns: its local variables \<open>ft\<close>, \<open>cb_fiber\<close> and \<open>idle_fiber\<close> are destroyed in this order.\<close>

definition run_leave :: "(nat \<Rightarrow> bool) \<Rightarrow> fiber_heap \<Rightarrow> sched_thread \<Rightarrow> fiber_result" where
  "run_leave held h t =
     (case drop_ptr (\<lambda>f. held f \<or> th_cb_fiber t = Some f \<or> th_idle_fiber t = f) (ft_fiber (th_ft t)) (h, th_locals t) of
        Inl e \<Rightarrow> Inl e
      | Inr r1 \<Rightarrow>
          (case drop_ptr held (th_cb_fiber t) r1 of
             Inl e \<Rightarrow> Inl e
           | Inr r2 \<Rightarrow> drop_ptr held (Some (th_idle_fiber t)) r2))"

text \<open>A thread ends: its thread-local \<open>t_threadFiber\<close> is destroyed.\<close>

definition thread_exit :: "(nat \<Rightarrow> bool) \<Rightarrow> fiber_heap \<Rightarrow> thread_locals \<Rightarrow> fiber_result" where
  "thread_exit held h l =
     (case drop_ptr held (tl_threadFiber l) (h, l) of
        Inl e \<Rightarrow> Inl e | Inr (h', l') \<Rightarrow> Inr (h', l'\<lparr>tl_threadFiber := None\<rparr>))"

text \<open>
  \<open>run\<close> from its call to its return, on given steps: \<open>None\<close> where these steps do not lead to the return.
\<close>

definition run_call ::
  "nat \<Rightarrow> task_leave option list \<Rightarrow> (nat \<Rightarrow> bool) \<Rightarrow> fiber_heap \<Rightarrow> scheduler \<Rightarrow> sched_thread \<Rightarrow> sched_result option"
where
  "run_call self acts held h s t =
     (case run_begin self h s t of
        Inl e \<Rightarrow> Some (Inl e)
      | Inr x \<Rightarrow>
          (case thread_steps acts (Inr x) of
             Some (Inr (h1, s1, t1)) \<Rightarrow>
               if th_pc t1 = Left then
                 Some (case run_leave held h1 t1 of
                         Inl e \<Rightarrow> Inl e | Inr (h2, l2) \<Rightarrow> Inr (h2, s1, t1\<lparr>th_locals := l2\<rparr>))
               else None
           | r \<Rightarrow> r))"

text \<open>A worker thread: \<open>run\<close>, then the end of the thread.\<close>

definition worker_main ::
  "nat \<Rightarrow> task_leave option list \<Rightarrow> (nat \<Rightarrow> bool) \<Rightarrow> fiber_heap \<Rightarrow> scheduler \<Rightarrow> sched_thread \<Rightarrow> sched_result option"
where
  "worker_main self acts held h s t =
     (case run_call self acts held h s t of
        Some (Inr (h1, s1, t1)) \<Rightarrow>
          Some (case thread_exit held h1 (th_locals t1) of
                  Inl e \<Rightarrow> Inl e | Inr (h2, l2) \<Rightarrow> Inr (h2, s1, t1\<lparr>th_locals := l2\<rparr>))
      | r \<Rightarrow> r)"

section \<open>One turn of a fresh fiber\<close>

definition fresh_fiber :: "fiber_heap \<Rightarrow> nat \<Rightarrow> bool" where
  "fresh_fiber h f \<longleftrightarrow> f < length (fh_fibers h) \<and> fb_state (fiber_at h f) = INIT \<and>
     fb_ctx (fiber_at h f) = CtxEntry \<and> fb_stack (fiber_at h f) \<and> fb_stack_refs (fiber_at h f) = 0"

text \<open>Outside \<open>X\<close> nothing happened to the fibers.\<close>

definition same_fibers :: "nat set \<Rightarrow> fiber_heap \<Rightarrow> fiber_heap \<Rightarrow> bool" where
  "same_fibers X h h' \<longleftrightarrow> length (fh_fibers h) \<le> length (fh_fibers h') \<and>
     (\<forall>k < length (fh_fibers h). k \<notin> X \<longrightarrow> fiber_at h' k = fiber_at h k)"

text \<open>A fiber up to its saved context.\<close>

definition core :: "fiber_heap \<Rightarrow> nat \<Rightarrow> fiber" where
  "core h f = (fiber_at h f)\<lparr>fb_ctx := CtxUnset\<rparr>"

text \<open>The thread executes its scheduling fiber \<open>m\<close>.\<close>

definition on_scheduler :: "nat \<Rightarrow> fiber_heap \<Rightarrow> thread_locals \<Rightarrow> bool" where
  "on_scheduler m h l \<longleftrightarrow> tl_running l = Some m \<and> tl_scheduler_fiber l = Some m \<and> m < length (fh_fibers h)"

lemma fresh_swapIn:
  assumes "fresh_fiber h f" and "on_scheduler m h l" and "f \<noteq> m"
  obtains h' where "Fiber_swapIn f h l = Inr (h', switched_to f l)"
    "fiber_at h' f = (fiber_at h f)\<lparr>fb_state := EXEC, fb_stack_refs := 1\<rparr>"
    "fiber_at h' m = (fiber_at h m)\<lparr>fb_ctx := CtxResume m\<rparr>" "same_fibers {f, m} h h'"
    "length (fh_fibers h') = length (fh_fibers h)" "fh_fiber_count h' = fh_fiber_count h"
proof -
  let ?h = "fiber_enter f (upd_fiber m (\<lambda>b. b\<lparr>fb_ctx := CtxResume m\<rparr>) (set_state f EXEC h))"
  have "Fiber_swapIn f h l = Inr (?h, switched_to f l)"
    using assms
    by (simp add: Fiber_swapIn_def Let_def fresh_fiber_def on_scheduler_def Fiber_SetThis_def swap_context_def
        fiber_at_set_state fiber_at_upd switched_to_def)
  then show thesis using assms
    by (intro that [of ?h])
       (auto simp: fresh_fiber_def on_scheduler_def fiber_enter_def fiber_at_set_state fiber_at_upd same_fibers_def
          set_state_def upd_fiber_def nth_update)
qed

lemma fresh_ends:
  assumes "f < length (fh_fibers h)" and "m < length (fh_fibers h)" and "f \<noteq> m"
    and "tl_running l = Some f" and "tl_scheduler_fiber l = Some m" and "fb_ctx (fiber_at h m) = CtxResume m"
    and "fb_stack_refs (fiber_at h f) = 1"
  obtains h' where "MainFunc_end out bt f h l = Inr (h', l\<lparr>tl_fiber := tl_threadFiber l, tl_running := Some m\<rparr>)"
    "fb_state (fiber_at h' f) = end_state out" "fb_stack (fiber_at h' f) = fb_stack (fiber_at h f)"
    "fb_stack_refs (fiber_at h' f) = 0" "same_fibers {f} h h'"
    "length (fh_fibers h') = length (fh_fibers h)" "fh_fiber_count h' = fh_fiber_count h"
proof -
  let ?h1 = "upd_fiber f (\<lambda>b. b\<lparr>fb_stack_refs := fb_stack_refs b - 1\<rparr>) (cb_finished out bt f h)"
  let ?h = "upd_fiber f (\<lambda>b. b\<lparr>fb_ctx := CtxResume f\<rparr>) ?h1"
  have len: "length (fh_fibers (cb_finished out bt f h)) = length (fh_fibers h)"
    "fh_fiber_count (cb_finished out bt f h) = fh_fiber_count h"
    by (simp_all add: cb_finished_def Let_def set_state_def upd_fiber_def emit_def split: cb_end.splits)
  have other: "fiber_at (cb_finished out bt f h) k = fiber_at h k" if "k < length (fh_fibers h)" "k \<noteq> f" for k
    using that by (simp add: cb_finished_def Let_def fiber_at_set_state fiber_at_upd split: cb_end.splits)
  have self: "fb_state (fiber_at (cb_finished out bt f h) f) = end_state out"
    "fb_stack (fiber_at (cb_finished out bt f h) f) = fb_stack (fiber_at h f)"
    "fb_stack_refs (fiber_at (cb_finished out bt f h) f) = 1"
    using assms(1,7) by (simp_all add: cb_finished_def Let_def fiber_at_set_state fiber_at_upd end_state_def split: cb_end.splits)
  have "MainFunc_end out bt f h l = Inr (?h, l\<lparr>tl_fiber := tl_threadFiber l, tl_running := Some m\<rparr>)"
    using assms len other [of m]
    by (simp add: MainFunc_end_def Fiber_swapOut_def Let_def Fiber_SetThis_def swap_context_def fiber_at_upd)
  then show thesis using assms(1) len self other
    by (intro that [of ?h]) (auto simp: fiber_at_upd same_fibers_def upd_fiber_def nth_update)
qed

lemma same_fibers_trans:
  "same_fibers X h h1 \<Longrightarrow> same_fibers Y h1 h2 \<Longrightarrow> same_fibers (X \<union> Y) h h2"
  by (auto simp: same_fibers_def)

lemma same_fibers_mono: "same_fibers X h h' \<Longrightarrow> X \<subseteq> Y \<Longrightarrow> same_fibers Y h h'"
  by (auto simp: same_fibers_def)

lemma same_fibers_new:
  "same_fibers (insert k X) h h' \<Longrightarrow> length (fh_fibers h) \<le> k \<Longrightarrow> same_fibers X h h'"
  by (auto simp: same_fibers_def)

lemma same_fibers_core: "same_fibers X h h' \<Longrightarrow> k < length (fh_fibers h) \<Longrightarrow> k \<notin> X \<Longrightarrow> core h' k = core h k"
  by (simp add: same_fibers_def core_def)

lemma same_fibers_fresh: "same_fibers X h h' \<Longrightarrow> fresh_fiber h f \<Longrightarrow> f \<notin> X \<Longrightarrow> fresh_fiber h' f"
  by (auto simp: same_fibers_def fresh_fiber_def)

section \<open>A round of the loop\<close>

text \<open>The thread is in front of the scan, with fresh fibers for idling and for functions.\<close>

definition loop_ok :: "nat \<Rightarrow> fiber_heap \<Rightarrow> sched_thread \<Rightarrow> bool" where
  "loop_ok m h t \<longleftrightarrow> th_pc t = Scan \<and> on_scheduler m h (th_locals t) \<and>
     fresh_fiber h (th_idle_fiber t) \<and> th_idle_fiber t \<noteq> m \<and>
     (\<forall>f \<in> set_option (th_cb_fiber t). fresh_fiber h f \<and> f \<noteq> m \<and> f \<noteq> th_idle_fiber t)"

text \<open>How many fibers the loop keeps for functions.\<close>

definition kept :: "sched_thread \<Rightarrow> u64" where
  "kept t = (if th_cb_fiber t = None then 0 else 1)"

text \<open>What a round leaves alone: other fibers, the scheduling fiber but its context, and the balance of the count.\<close>

definition round_frame :: "nat \<Rightarrow> fiber_heap \<Rightarrow> sched_thread \<Rightarrow> fiber_heap \<Rightarrow> sched_thread \<Rightarrow> bool" where
  "round_frame m h t h' t' \<longleftrightarrow> same_fibers ({m} \<union> set_option (th_cb_fiber t)) h h' \<and> core h' m = core h m \<and>
     fh_fiber_count h' - kept t' = fh_fiber_count h - kept t \<and>
     (\<forall>f \<in> set_option (th_cb_fiber t'). f < length (fh_fibers h) \<longrightarrow> th_cb_fiber t = Some f) \<and>
     th_id t' = th_id t \<and> th_idle_fiber t' = th_idle_fiber t \<and> th_idle_entered t' = th_idle_entered t \<and>
     tl_threadFiber (th_locals t') = tl_threadFiber (th_locals t)"

lemma fiber_for_function:
  assumes "loop_ok m h t"
  obtains f h1 where "(case th_cb_fiber t of
      Some f \<Rightarrow> (case Fiber_reset f (Some cb) h of Inl e \<Rightarrow> Inl e | Inr h1 \<Rightarrow> Inr (f, h1))
    | None \<Rightarrow> Inr (Fiber_new (Some cb) 0 False h)) = Inr (f, h1)"
    "fresh_fiber h1 f" "fb_cb (fiber_at h1 f) = Some cb" "f \<noteq> m" "f \<noteq> th_idle_fiber t"
    "same_fibers (set_option (th_cb_fiber t)) h h1" "f < length (fh_fibers h) \<longrightarrow> th_cb_fiber t = Some f"
    "fh_fiber_count h1 - 1 = fh_fiber_count h - kept t"
proof (cases "th_cb_fiber t")
  case None
  let ?h1 = "snd (Fiber_new (Some cb) 0 False h)"
  have "m < length (fh_fibers h)" "th_idle_fiber t < length (fh_fibers h)"
    using assms by (simp_all add: loop_ok_def on_scheduler_def fresh_fiber_def)
  with None show thesis
    by (intro that [of "length (fh_fibers h)" ?h1])
       (auto simp: Fiber_new_def Let_def fresh_fiber_def same_fibers_def nth_append kept_def emit_def)
next
  case (Some f)
  then have f: "fresh_fiber h f" "f \<noteq> m" "f \<noteq> th_idle_fiber t" using assms by (simp_all add: loop_ok_def)
  let ?h1 = "upd_fiber f (\<lambda>b. b\<lparr>fb_cb := Some cb, fb_ctx := CtxEntry, fb_entry := MainFunc, fb_state := INIT\<rparr>) h"
  have "Fiber_reset f (Some cb) h = Inr ?h1" using f(1) by (simp add: Fiber_reset_def fresh_fiber_def resettable_def)
  with Some f show thesis
    by (intro that [of f ?h1]) (auto simp: fresh_fiber_def same_fibers_def fiber_at_upd kept_def upd_fiber_def)
qed

lemma thread_steps_append:
  "thread_steps (as @ bs) r = (case thread_steps as r of None \<Rightarrow> None | Some r' \<Rightarrow> thread_steps bs r')"
proof (induction as r rule: thread_steps.induct)
  case (2 a as e)
  then show ?case by (cases bs) simp_all
next
  case (3 a as h s t)
  then show ?case by (simp split: option.splits)
qed simp

definition round_of :: "cb_end \<times> string \<Rightarrow> task_leave option list" where
  "round_of x = [None, None, Some (Ends (fst x) (snd x)), None, None]"

definition in_function :: "nat \<Rightarrow> sched_result option \<Rightarrow> bool" where
  "in_function cb r \<longleftrightarrow> (case r of
     Some (Inr (h, s, t)) \<Rightarrow> th_pc t = InCb \<and>
       (\<exists>f \<in> set_option (tl_running (th_locals t)). fb_cb (fiber_at h f) = Some cb \<and> fb_state (fiber_at h f) = EXEC)
   | _ \<Rightarrow> False)"

lemma function_round:
  assumes ok: "loop_ok m h t" and q: "sc_fibers s = FiberAndThread (OfCb (Some cb)) thr # rest"
    and thr: "thr = - 1 \<or> thr = th_id t"
  shows "in_function cb (thread_steps [None, None] (Inr (h, s, t))) \<and>
    (\<exists>h' t'. thread_steps (round_of x) (Inr (h, s, t)) = Some (Inr (h', s\<lparr>sc_fibers := rest\<rparr>, t')) \<and>
       loop_ok m h' t' \<and> round_frame m h t h' t')"
proof -
  let ?it = "FiberAndThread (OfCb (Some cb)) thr"
  let ?s1 = "s\<lparr>sc_fibers := rest, sc_activeThreadCount := sc_activeThreadCount s + 1\<rparr>"
  let ?t1 = "t\<lparr>th_ft := ?it, th_pc := Dispatch\<rparr>"
  let ?l = "th_locals t"
  have pc: "th_pc t = Scan" using ok by (simp add: loop_ok_def)
  have first: "thread_step h s t = Some (Inr (if rest \<noteq> [] then Scheduler_tickle h else h, ?s1, ?t1))"
    using pc q thr by (intro scan_first) (auto simp: item_set_def item_runnable_def)
  obtain h1 where scan: "thread_step h s t = Some (Inr (h1, ?s1, ?t1))"
    and same1: "same_fibers {} h h1" "fh_fiber_count h1 = fh_fiber_count h" "fh_fibers h1 = fh_fibers h"
  proof
    show "thread_step h s t = Some (Inr (if rest \<noteq> [] then Scheduler_tickle h else h, ?s1, ?t1))" by (fact first)
  qed (simp_all add: same_fibers_def Scheduler_tickle_def emit_def)
  have ok1: "loop_ok m h1 t" using ok same1(3) by (simp add: loop_ok_def on_scheduler_def fresh_fiber_def)
  obtain f h2 where h2: "(case th_cb_fiber t of
      Some f \<Rightarrow> (case Fiber_reset f (Some cb) h1 of Inl e \<Rightarrow> Inl e | Inr h1 \<Rightarrow> Inr (f, h1))
    | None \<Rightarrow> Inr (Fiber_new (Some cb) 0 False h1)) = Inr (f, h2)"
    "fresh_fiber h2 f" "fb_cb (fiber_at h2 f) = Some cb" "f \<noteq> m" "f \<noteq> th_idle_fiber t"
    "same_fibers (set_option (th_cb_fiber t)) h1 h2" "f < length (fh_fibers h1) \<longrightarrow> th_cb_fiber t = Some f"
    "fh_fiber_count h2 - 1 = fh_fiber_count h1 - kept t"
    by (rule fiber_for_function [OF ok1, of cb])
  have m2: "on_scheduler m h2 ?l"
    using ok h2(6) same1(3) by (auto simp: loop_ok_def on_scheduler_def same_fibers_def)
  obtain h3 where h3: "Fiber_swapIn f h2 ?l = Inr (h3, switched_to f ?l)"
    "fiber_at h3 f = (fiber_at h2 f)\<lparr>fb_state := EXEC, fb_stack_refs := 1\<rparr>"
    "fiber_at h3 m = (fiber_at h2 m)\<lparr>fb_ctx := CtxResume m\<rparr>" "same_fibers {f, m} h2 h3"
    "length (fh_fibers h3) = length (fh_fibers h2)" "fh_fiber_count h3 = fh_fiber_count h2"
    by (rule fresh_swapIn [OF h2(2) m2 h2(4)])
  let ?t3 = "?t1\<lparr>th_cb_fiber := Some f, th_locals := switched_to f ?l, th_pc := InCb\<rparr>"
  have two: "thread_steps [None, None] (Inr (h, s, t)) = Some (Inr (h3, ?s1, ?t3))"
    using scan h2(1) h3(1) by (simp add: thread_step_def run_dispatch_def dispatch_cb_def switched_def)
  have f3: "f < length (fh_fibers h3)" "m < length (fh_fibers h3)"
    using h2(2) m2 h3(5) by (simp_all add: fresh_fiber_def on_scheduler_def)
  have l3: "tl_running (switched_to f ?l) = Some f" "tl_scheduler_fiber (switched_to f ?l) = Some m"
    using m2 by (simp_all add: switched_to_def on_scheduler_def)
  obtain h4 where h4: "MainFunc_end (fst x) (snd x) f h3 (switched_to f ?l) =
      Inr (h4, (switched_to f ?l)\<lparr>tl_fiber := tl_threadFiber (switched_to f ?l), tl_running := Some m\<rparr>)"
    "fb_state (fiber_at h4 f) = end_state (fst x)" "fb_stack (fiber_at h4 f) = fb_stack (fiber_at h3 f)"
    "fb_stack_refs (fiber_at h4 f) = 0" "same_fibers {f} h3 h4"
    "length (fh_fibers h4) = length (fh_fibers h3)" "fh_fiber_count h4 = fh_fiber_count h3"
    using fresh_ends [OF f3 h2(4) l3, of "fst x" "snd x"] h3(2,3) by auto
  let ?h5 = "upd_fiber f (\<lambda>b. b\<lparr>fb_cb := None, fb_ctx := CtxEntry, fb_entry := MainFunc, fb_state := INIT\<rparr>) h4"
  let ?l5 = "(switched_to f ?l)\<lparr>tl_fiber := tl_threadFiber (switched_to f ?l), tl_running := Some m\<rparr>"
  let ?t5 = "?t3\<lparr>th_locals := ?l5, th_ft := FiberAndThread_empty, th_pc := Scan\<rparr>"
  have stack: "fb_stack (fiber_at h4 f)" using h4(3) h3(2) h2(2) by (simp add: fresh_fiber_def)
  have reset: "Fiber_reset f None h4 = Inr ?h5" "fb_state (fiber_at h4 f) \<noteq> READY" "fiber_ended h4 f"
    using h4(2) stack by (simp_all add: Fiber_reset_def resettable_def end_state_def fiber_ended_def)
  have all: "thread_steps (round_of x) (Inr (h, s, t)) = Some (Inr (?h5, s\<lparr>sc_fibers := rest\<rparr>, ?t5))"
  proof -
    have "thread_steps [Some (Ends (fst x) (snd x)), None, None] (Inr (h3, ?s1, ?t3)) =
        Some (Inr (?h5, s\<lparr>sc_fibers := rest\<rparr>, ?t5))"
      using reset l3(1) h4(1)
      by (simp add: thread_step_def task_step_def switched_def run_back_def run_post_cb_def Let_def)
    with thread_steps_append [of "[None, None]" "[Some (Ends (fst x) (snd x)), None, None]" "Inr (h, s, t)"] two
    show ?thesis by (simp add: round_of_def)
  qed
  have touched: "same_fibers (insert f ({m} \<union> set_option (th_cb_fiber t))) h ?h5"
  proof -
    have "same_fibers {f} h4 ?h5" by (auto simp: same_fibers_def fiber_at_upd)
    with same_fibers_trans [OF same_fibers_trans [OF same_fibers_trans [OF same1(1) h2(6)] h3(4)] h4(5)]
    have "same_fibers ({} \<union> set_option (th_cb_fiber t) \<union> {f, m} \<union> {f} \<union> {f}) h ?h5" by (rule same_fibers_trans)
    then show ?thesis by (rule same_fibers_mono) auto
  qed
  have frame: "same_fibers ({m} \<union> set_option (th_cb_fiber t)) h ?h5"
  proof (cases "f < length (fh_fibers h)")
    case True
    with h2(7) same1(3) have "f \<in> {m} \<union> set_option (th_cb_fiber t)" by simp
    with touched show ?thesis by (simp only: insert_absorb)
  next
    case False
    then show ?thesis by (intro same_fibers_new [OF touched]) simp
  qed
  have fresh5: "fresh_fiber ?h5 f" using f3(1) h4(4,6) stack by (simp add: fresh_fiber_def fiber_at_upd)
  have idle5: "fresh_fiber ?h5 (th_idle_fiber t)" "th_idle_fiber t \<noteq> m"
    using same_fibers_fresh [OF touched, of "th_idle_fiber t"] ok h2(5) by (auto simp: loop_ok_def)
  have m5: "fiber_at ?h5 m = (fiber_at h2 m)\<lparr>fb_ctx := CtxResume m\<rparr>"
    using h4(5,6) h3(3) f3 h2(4) by (simp add: fiber_at_upd same_fibers_def)
  have "m \<notin> set_option (th_cb_fiber t)" "m < length (fh_fibers h)" using ok by (auto simp: loop_ok_def on_scheduler_def)
  then have "fiber_at h2 m = fiber_at h m" using h2(6) same1(3) by (simp add: same_fibers_def)
  then have core5: "core ?h5 m = core h m" unfolding core_def m5 by simp
  have "loop_ok m ?h5 ?t5"
    using fresh5 idle5 h2(4,5) f3(2) h4(6) l3(2) by (simp add: loop_ok_def on_scheduler_def)
  moreover have "round_frame m h t ?h5 ?t5"
    using frame core5 h2(7,8) h3(6) h4(7) same1(2,3)
    by (simp add: round_frame_def kept_def switched_to_def upd_fiber_def)
  moreover have "in_function cb (thread_steps [None, None] (Inr (h, s, t)))"
    using two l3(1) h3(2) h2(3) by (simp add: in_function_def)
  ultimately show ?thesis using all by blast
qed

section \<open>A queue of functions\<close>

text \<open>A scheduled function, the thread it is for, and how it will end.\<close>

record job =
  jb_cb :: nat
  jb_thread :: int
  jb_end :: "cb_end \<times> string"

definition job_item :: "job \<Rightarrow> fiber_and_thread" where
  "job_item j = FiberAndThread (OfCb (Some (jb_cb j))) (jb_thread j)"

definition job_steps :: "job list \<Rightarrow> task_leave option list" where
  "job_steps js = concat (map (\<lambda>j. round_of (jb_end j)) js)"

lemma job_steps_simps [simp]:
  "job_steps [] = []" "job_steps (j # js) = round_of (jb_end j) @ job_steps js"
  by (simp_all add: job_steps_def)

lemma round_frame_refl: "round_frame m h t h t"
  by (simp add: round_frame_def same_fibers_def)

lemma round_frame_trans:
  assumes "round_frame m h t h1 t1" and "round_frame m h1 t1 h2 t2"
  shows "round_frame m h t h2 t2"
proof -
  have len: "length (fh_fibers h) \<le> length (fh_fibers h1)" using assms(1) by (simp add: round_frame_def same_fibers_def)
  have "same_fibers ({m} \<union> set_option (th_cb_fiber t) \<union> ({m} \<union> set_option (th_cb_fiber t1))) h h2"
    using assms by (intro same_fibers_trans [of _ h h1 _ h2]) (simp_all add: round_frame_def)
  then have "same_fibers ({m} \<union> set_option (th_cb_fiber t)) h h2"
  proof (cases "th_cb_fiber t1")
    case (Some f)
    moreover assume s: "same_fibers ({m} \<union> set_option (th_cb_fiber t) \<union> ({m} \<union> set_option (th_cb_fiber t1))) h h2"
    ultimately show ?thesis
    proof (cases "f < length (fh_fibers h)")
      case True
      with Some assms(1) have "th_cb_fiber t = Some f" by (simp add: round_frame_def)
      with s Some show ?thesis by (simp add: insert_commute)
    next
      case False
      from s Some have "same_fibers (insert f ({m} \<union> set_option (th_cb_fiber t))) h h2"
        by (simp add: insert_commute)
      from same_fibers_new [OF this] False show ?thesis by simp
    qed
  qed (simp add: insert_commute)
  moreover have "th_cb_fiber t = Some f" if "th_cb_fiber t2 = Some f" "f < length (fh_fibers h)" for f
  proof -
    have "th_cb_fiber t1 = Some f" using that assms(2) len by (simp add: round_frame_def)
    with that(2) assms(1) show ?thesis by (simp add: round_frame_def)
  qed
  ultimately show ?thesis using assms by (simp add: round_frame_def)
qed

lemma drain_queue:
  assumes "loop_ok m h t" and "sc_fibers s = map job_item js"
    and "list_all (\<lambda>j. jb_thread j = - 1 \<or> jb_thread j = th_id t) js"
  shows "(\<exists>h' t'. thread_steps (job_steps js) (Inr (h, s, t)) = Some (Inr (h', s\<lparr>sc_fibers := []\<rparr>, t')) \<and>
      loop_ok m h' t' \<and> round_frame m h t h' t') \<and>
    list_all (\<lambda>k. in_function (jb_cb (js ! k)) (thread_steps (job_steps (take k js) @ [None, None]) (Inr (h, s, t))))
      [0..<length js]"
  using assms
proof (induction js arbitrary: h s t)
  case Nil
  then show ?case by (auto intro: exI [of _ h] exI [of _ t] round_frame_refl)
next
  case (Cons j js)
  have q: "sc_fibers s = FiberAndThread (OfCb (Some (jb_cb j))) (jb_thread j) # map job_item js"
    using Cons.prems(2) by (simp add: job_item_def)
  have "jb_thread j = - 1 \<or> jb_thread j = th_id t" using Cons.prems(3) by simp
  from function_round [OF Cons.prems(1) q this, of "jb_end j"] obtain h1 t1 where
    r1: "in_function (jb_cb j) (thread_steps [None, None] (Inr (h, s, t)))"
      "thread_steps (round_of (jb_end j)) (Inr (h, s, t)) = Some (Inr (h1, s\<lparr>sc_fibers := map job_item js\<rparr>, t1))"
      "loop_ok m h1 t1" "round_frame m h t h1 t1"
    by blast
  have "th_id t1 = th_id t" using r1(4) by (simp add: round_frame_def)
  with Cons.IH [OF r1(3), of "s\<lparr>sc_fibers := map job_item js\<rparr>"] Cons.prems(3) obtain h' t' where
    r2: "thread_steps (job_steps js) (Inr (h1, s\<lparr>sc_fibers := map job_item js\<rparr>, t1)) =
        Some (Inr (h', s\<lparr>sc_fibers := []\<rparr>, t'))"
      "loop_ok m h' t'" "round_frame m h1 t1 h' t'"
      "\<And>k. k < length js \<Longrightarrow> in_function (jb_cb (js ! k))
        (thread_steps (job_steps (take k js) @ [None, None]) (Inr (h1, s\<lparr>sc_fibers := map job_item js\<rparr>, t1)))"
    by (auto simp: list_all_iff)
  have "in_function (jb_cb ((j # js) ! k)) (thread_steps (job_steps (take k (j # js)) @ [None, None]) (Inr (h, s, t)))"
    if "k < length (j # js)" for k
  proof (cases k)
    case 0
    with r1(1) show ?thesis by simp
  next
    case (Suc i)
    with r2(4) [of i] that r1(2) show ?thesis by (simp add: thread_steps_append [of "round_of (jb_end j)"])
  qed
  then have all: "list_all (\<lambda>k. in_function (jb_cb ((j # js) ! k))
      (thread_steps (job_steps (take k (j # js)) @ [None, None]) (Inr (h, s, t)))) [0..<length (j # js)]"
    by (simp only: list_all_iff set_upt atLeastLessThan_iff) simp
  have "thread_steps (job_steps (j # js)) (Inr (h, s, t)) = Some (Inr (h', s\<lparr>sc_fibers := []\<rparr>, t'))"
    using r1(2) r2(1) by (simp add: thread_steps_append)
  with r2(2) round_frame_trans [OF r1(4) r2(3)] all show ?case by blast
qed

section \<open>The end of the loop\<close>

text \<open>The idle fiber finds that it should stop: scan, dispatch, its turn, back, scan, dispatch.\<close>

definition idle_steps :: "task_leave option list" where
  "idle_steps = [None, None, None, None, None, None]"

definition ended_loop :: "nat \<Rightarrow> fiber_heap \<Rightarrow> sched_thread \<Rightarrow> fiber_heap \<Rightarrow> sched_thread \<Rightarrow> bool" where
  "ended_loop m h t h' t' \<longleftrightarrow> th_pc t' = Left \<and> ft_fiber (th_ft t') = None \<and> th_cb_fiber t' = th_cb_fiber t \<and>
     th_idle_fiber t' = th_idle_fiber t \<and> th_id t' = th_id t \<and>
     fb_state (fiber_at h' (th_idle_fiber t)) = TERM' \<and> fb_stack (fiber_at h' (th_idle_fiber t)) \<and>
     fb_stack_refs (fiber_at h' (th_idle_fiber t)) = 0 \<and>
     same_fibers {m, th_idle_fiber t} h h' \<and> core h' m = core h m \<and> fh_fiber_count h' = fh_fiber_count h \<and>
     th_locals t' = (th_locals t)\<lparr>tl_fiber := tl_threadFiber (th_locals t)\<rparr>"

lemma idle_ends:
  assumes ok: "loop_ok m h t" and q: "sc_fibers s = []" and stop: "Scheduler_stopping s"
  shows "\<exists>h' t'. thread_steps idle_steps (Inr (h, s, t)) = Some (Inr (h', s, t')) \<and> ended_loop m h t h' t'"
proof -
  let ?f = "th_idle_fiber t" and ?l = "th_locals t"
  let ?s1 = "s\<lparr>sc_idleThreadCount := sc_idleThreadCount s + 1\<rparr>"
  have pc: "th_pc t = Scan" and f: "fresh_fiber h ?f" "?f \<noteq> m" and m: "on_scheduler m h ?l"
    using ok by (simp_all add: loop_ok_def)
  obtain h1 where h1: "Fiber_swapIn ?f h ?l = Inr (h1, switched_to ?f ?l)"
    "fiber_at h1 ?f = (fiber_at h ?f)\<lparr>fb_state := EXEC, fb_stack_refs := 1\<rparr>"
    "fiber_at h1 m = (fiber_at h m)\<lparr>fb_ctx := CtxResume m\<rparr>" "same_fibers {?f, m} h h1"
    "length (fh_fibers h1) = length (fh_fibers h)" "fh_fiber_count h1 = fh_fiber_count h"
    by (rule fresh_swapIn [OF f(1) m f(2)])
  obtain h2 where h2: "fh_fibers h2 = fh_fibers h1" "fh_fiber_count h2 = fh_fiber_count h1"
    "h2 = (if th_idle_entered t then h1 else emit INFO ''idle'' h1)"
    by (simp add: emit_def)
  have l: "tl_running (switched_to ?f ?l) = Some ?f" "tl_scheduler_fiber (switched_to ?f ?l) = Some m"
    using m by (simp_all add: switched_to_def on_scheduler_def)
  have len: "?f < length (fh_fibers h2)" "m < length (fh_fibers h2)"
    using f(1) m h1(5) h2(1) by (simp_all add: fresh_fiber_def on_scheduler_def)
  have refs: "fb_ctx (fiber_at h2 m) = CtxResume m" "fb_stack_refs (fiber_at h2 ?f) = 1"
    using h1(2,3) h2(1) by simp_all
  obtain h3 where h3: "MainFunc_end Returned [] ?f h2 (switched_to ?f ?l) =
      Inr (h3, (switched_to ?f ?l)\<lparr>tl_fiber := tl_threadFiber (switched_to ?f ?l), tl_running := Some m\<rparr>)"
    "fb_state (fiber_at h3 ?f) = end_state Returned" "fb_stack (fiber_at h3 ?f) = fb_stack (fiber_at h2 ?f)"
    "fb_stack_refs (fiber_at h3 ?f) = 0" "same_fibers {?f} h2 h3"
    "length (fh_fibers h3) = length (fh_fibers h2)" "fh_fiber_count h3 = fh_fiber_count h2"
    by (rule fresh_ends [OF len f(2) l refs])
  have over: "fb_state (fiber_at h3 ?f) = TERM'" using h3(2) by (simp add: end_state_def)
  have home: "(switched_to ?f ?l)\<lparr>tl_fiber := tl_threadFiber (switched_to ?f ?l), tl_running := Some m\<rparr> =
      ?l\<lparr>tl_fiber := tl_threadFiber ?l\<rparr>"
    using m by (simp add: switched_to_def on_scheduler_def)
  let ?t = "t\<lparr>th_ft := FiberAndThread_empty, th_locals := ?l\<lparr>tl_fiber := tl_threadFiber ?l\<rparr>,
      th_idle_entered := True, th_pc := Left\<rparr>"
  have steps: "thread_steps idle_steps (Inr (h, s, t)) = Some (Inr (emit INFO ''idle fiber term'' h3, s, ?t))"
    using pc q f h1(1) h3(1) h2(3) over stop
    by (simp add: idle_steps_def thread_step_def run_scan_def run_dispatch_def dispatch_idle_def switched_def
        FiberAndThread_empty_def fresh_fiber_def idle_turn_def run_back_idle_def fiber_ended_def Let_def
        Scheduler_stopping_def home)
  have "same_fibers ({?f, m} \<union> {?f}) h h3"
  proof (rule same_fibers_trans [OF h1(4)])
    show "same_fibers {?f} h1 h3" using h3(5) h2(1) by (simp add: same_fibers_def)
  qed
  then have same: "same_fibers {m, ?f} h h3" by (rule same_fibers_mono) auto
  have m3: "fiber_at h3 m = fiber_at h1 m" using h3(5) h2(1) len(2) f(2) by (simp add: same_fibers_def)
  have core3: "core h3 m = core h m" unfolding core_def m3 h1(3) by simp
  have "ended_loop m h t (emit INFO ''idle fiber term'' h3) ?t"
    using over h3(3,4,7) h1(2,6) h2(1,2) f(1) same core3
    by (simp add: ended_loop_def FiberAndThread_empty_def fresh_fiber_def same_fibers_def core_def emit_def)
  with steps show ?thesis by blast
qed

lemma drop_fresh:
  assumes "\<not> held f" and "fb_stack (fiber_at h f)" and "resettable (fb_state (fiber_at h f))"
    and "fb_stack_refs (fiber_at h f) = 0"
  obtains h' where "drop_ptr held (Some f) (h, l) = Inr (h', l)" "same_fibers {f} h h'"
    "fh_fiber_count h' = fh_fiber_count h - 1" "length (fh_fibers h') = length (fh_fibers h)"
  using assms
  by (auto simp: drop_ptr_def Fiber_destroy_def Let_def same_fibers_def emit_def upd_fiber_def)

lemma leave_releases:
  assumes ok: "loop_ok m h t" and e: "ended_loop m h t h1 t1" and held: "\<not> held (th_idle_fiber t)"
    "\<forall>f \<in> set_option (th_cb_fiber t). \<not> held f"
  shows "\<exists>h2. run_leave held h1 t1 = Inr (h2, th_locals t1) \<and>
    same_fibers ({th_idle_fiber t} \<union> set_option (th_cb_fiber t)) h1 h2 \<and>
    fh_fiber_count h2 = fh_fiber_count h - kept t - 1 \<and> length (fh_fibers h2) = length (fh_fibers h1)"
proof -
  let ?f = "th_idle_fiber t"
  have e': "ft_fiber (th_ft t1) = None" "th_cb_fiber t1 = th_cb_fiber t" "th_idle_fiber t1 = ?f"
    "fh_fiber_count h1 = fh_fiber_count h" "same_fibers {m, ?f} h h1"
    "fb_state (fiber_at h1 ?f) = TERM'" "fb_stack (fiber_at h1 ?f)" "fb_stack_refs (fiber_at h1 ?f) = 0"
    using e by (simp_all add: ended_loop_def)
  obtain h2 where h2: "drop_ptr held (th_cb_fiber t) (h1, th_locals t1) = Inr (h2, th_locals t1)"
    "same_fibers (set_option (th_cb_fiber t)) h1 h2" "fh_fiber_count h2 = fh_fiber_count h1 - kept t"
    "length (fh_fibers h2) = length (fh_fibers h1)"
  proof (cases "th_cb_fiber t")
    case None
    then show thesis by (intro that [of h1]) (simp_all add: drop_ptr_def same_fibers_def kept_def)
  next
    case (Some f)
    with ok have f: "fresh_fiber h f" "f \<notin> {m, ?f}" by (auto simp: loop_ok_def)
    have "fresh_fiber h1 f" by (rule same_fibers_fresh [OF e'(5) f])
    then have "fb_stack (fiber_at h1 f)" "resettable (fb_state (fiber_at h1 f))" "fb_stack_refs (fiber_at h1 f) = 0"
      by (simp_all add: fresh_fiber_def resettable_def)
    moreover have "\<not> held f" using held(2) Some by simp
    ultimately obtain h2 where "drop_ptr held (Some f) (h1, th_locals t1) = Inr (h2, th_locals t1)"
      "same_fibers {f} h1 h2" "fh_fiber_count h2 = fh_fiber_count h1 - 1" "length (fh_fibers h2) = length (fh_fibers h1)"
      using drop_fresh [where held = held and f = f and h = h1] by metis
    with Some show thesis by (intro that [of h2]) (simp_all add: kept_def)
  qed
  have "?f \<notin> set_option (th_cb_fiber t)" "?f < length (fh_fibers h1)"
    using ok e'(5) by (auto simp: loop_ok_def fresh_fiber_def same_fibers_def)
  then have "fiber_at h2 ?f = fiber_at h1 ?f" using h2(2) by (simp add: same_fibers_def)
  with e' have "fb_stack (fiber_at h2 ?f)" "resettable (fb_state (fiber_at h2 ?f))" "fb_stack_refs (fiber_at h2 ?f) = 0"
    by (simp_all add: resettable_def)
  with held(1) obtain h3 where h3: "drop_ptr held (Some ?f) (h2, th_locals t1) = Inr (h3, th_locals t1)"
    "same_fibers {?f} h2 h3" "fh_fiber_count h3 = fh_fiber_count h2 - 1" "length (fh_fibers h3) = length (fh_fibers h2)"
    using drop_fresh [where held = held and f = ?f and h = h2] by metis
  have "drop_ptr (\<lambda>f. held f \<or> th_cb_fiber t = Some f \<or> ?f = f) None (h1, th_locals t1) = Inr (h1, th_locals t1)"
    by (simp add: drop_ptr_def)
  then have "run_leave held h1 t1 = Inr (h3, th_locals t1)"
    using h2(1) h3(1) e'(1,2,3) by (simp add: run_leave_def)
  moreover have "same_fibers ({?f} \<union> set_option (th_cb_fiber t)) h1 h3"
    using same_fibers_trans [OF h2(2) h3(2)] by (simp add: Un_commute)
  ultimately show ?thesis using h2(3,4) h3(3,4) e'(4) by simp
qed

section \<open>run from its call to its return\<close>

text \<open>The functions of the queue are entered one after the other, in the order of the queue.\<close>

definition runs_in_order :: "job list \<Rightarrow> sched_result \<Rightarrow> bool" where
  "runs_in_order js r \<longleftrightarrow> list_all
     (\<lambda>k. in_function (jb_cb (js ! k)) (thread_steps (job_steps (take k js) @ [None, None]) r)) [0..<length js]"

definition stop_requested :: "scheduler \<Rightarrow> bool" where
  "stop_requested s \<longleftrightarrow> sc_autoStop s \<and> sc_stopping s \<and> sc_activeThreadCount s = 0"

definition jobs_for :: "int \<Rightarrow> job list \<Rightarrow> bool" where
  "jobs_for tid js \<longleftrightarrow> list_all (\<lambda>j. jb_thread j = - 1 \<or> jb_thread j = tid) js"

lemma run_call_drains:
  assumes start: "run_begin self h s t = Inr (h1, s, t1)" and ok: "loop_ok m h1 t1" and new: "th_cb_fiber t1 = None"
    and q: "sc_fibers s = map job_item js" and "jobs_for (th_id t1) js" and "stop_requested s"
    and held: "\<not> held (th_idle_fiber t1)" "\<forall>f \<ge> length (fh_fibers h1). \<not> held f"
  shows "\<exists>h' t'. run_call self (job_steps js @ idle_steps) held h s t = Some (Inr (h', s\<lparr>sc_fibers := []\<rparr>, t')) \<and>
    runs_in_order js (run_begin self h s t) \<and>
    tl_running (th_locals t') = Some m \<and> tl_threadFiber (th_locals t') = tl_threadFiber (th_locals t1) \<and>
    tl_fiber (th_locals t') = tl_threadFiber (th_locals t1) \<and> th_id t' = th_id t1 \<and>
    same_fibers {m, th_idle_fiber t1} h1 h' \<and> core h' m = core h1 m \<and> fh_fiber_count h' = fh_fiber_count h1 - 1"
proof -
  let ?s = "s\<lparr>sc_fibers := []\<rparr>"
  obtain h2 t2 where drained: "thread_steps (job_steps js) (Inr (h1, s, t1)) = Some (Inr (h2, ?s, t2))"
    "loop_ok m h2 t2" "round_frame m h1 t1 h2 t2" and order: "runs_in_order js (Inr (h1, s, t1))"
    using drain_queue [OF ok q] assms(5) by (auto simp: jobs_for_def runs_in_order_def)
  have "Scheduler_stopping ?s" using assms(6) by (simp add: Scheduler_stopping_def stop_requested_def)
  from idle_ends [OF drained(2) _ this] obtain h3 t3 where
    idle: "thread_steps idle_steps (Inr (h2, ?s, t2)) = Some (Inr (h3, ?s, t3))" "ended_loop m h2 t2 h3 t3" by auto
  have f: "th_idle_fiber t2 = th_idle_fiber t1" "tl_threadFiber (th_locals t2) = tl_threadFiber (th_locals t1)"
    "th_id t2 = th_id t1" "core h2 m = core h1 m" "same_fibers {m} h1 h2"
    "fh_fiber_count h2 - kept t2 = fh_fiber_count h1"
    using drained(3) new by (simp_all add: round_frame_def kept_def)
  have created: "length (fh_fibers h1) \<le> f" if "th_cb_fiber t2 = Some f" for f
    using that drained(3) new by (auto simp: round_frame_def not_less [symmetric])
  have unheld: "\<not> held (th_idle_fiber t2)" "\<forall>f \<in> set_option (th_cb_fiber t2). \<not> held f"
    using held f(1) created by auto
  obtain h4 where h4: "run_leave held h3 t3 = Inr (h4, th_locals t3)"
    "same_fibers ({th_idle_fiber t2} \<union> set_option (th_cb_fiber t2)) h3 h4"
    "fh_fiber_count h4 = fh_fiber_count h2 - kept t2 - 1"
    using leave_releases [OF drained(2) idle(2) unheld] by blast
  have e: "th_pc t3 = Left" "th_id t3 = th_id t2" "same_fibers {m, th_idle_fiber t2} h2 h3" "core h3 m = core h2 m"
    "th_locals t3 = (th_locals t2)\<lparr>tl_fiber := tl_threadFiber (th_locals t2)\<rparr>"
    using idle(2) by (simp_all add: ended_loop_def)
  have "thread_steps (job_steps js @ idle_steps) (Inr (h1, s, t1)) = Some (Inr (h3, ?s, t3))"
    using drained(1) idle(1) by (simp add: thread_steps_append)
  then have call: "run_call self (job_steps js @ idle_steps) held h s t =
      Some (Inr (h4, ?s, t3\<lparr>th_locals := th_locals t3\<rparr>))"
    using start e(1) h4(1) by (simp add: run_call_def)
  have all: "same_fibers ({m} \<union> {m, th_idle_fiber t2} \<union> ({th_idle_fiber t2} \<union> set_option (th_cb_fiber t2))) h1 h4"
    by (rule same_fibers_trans [OF same_fibers_trans [OF f(5) e(3)] h4(2)])
  have same: "same_fibers {m, th_idle_fiber t1} h1 h4"
  proof (cases "th_cb_fiber t2")
    case None
    with all f(1) show ?thesis by (intro same_fibers_mono [OF all]) auto
  next
    case (Some g)
    with all have "same_fibers (insert g {m, th_idle_fiber t1}) h1 h4"
      using f(1) by (intro same_fibers_mono [OF all]) auto
    from same_fibers_new [OF this created [OF Some]] show ?thesis .
  qed
  have m2: "on_scheduler m h2 (th_locals t2)" "m \<noteq> th_idle_fiber t2" "m \<notin> set_option (th_cb_fiber t2)"
    using drained(2) by (auto simp: loop_ok_def)
  have "core h4 m = core h3 m"
    using m2 e(3) by (intro same_fibers_core [OF h4(2)]) (auto simp: on_scheduler_def same_fibers_def)
  then show ?thesis
    using call order start same e f h4(3) m2(1)
    by (intro exI [of _ h4] exI [of _ "t3\<lparr>th_locals := th_locals t3\<rparr>"]) (simp add: on_scheduler_def)
qed

section \<open>A worker\<close>

text \<open>
  C7: A worker of the pool that finds a queue of functions, with \<open>stop\<close> called, runs them one after
  the other in the order of the queue, however each of them ends; then it leaves \<open>run\<close> with the queue
  empty and the scheduler otherwise as before, and when the thread has ended every fiber that was
  created for it is destroyed: none of the assertions in the destructors fails, the number of
  fibers is what it was, and no fiber that existed before was touched.
\<close>

theorem worker_runs_and_releases:
  assumes "th_locals t = thread_locals_new" and "th_id t \<noteq> sc_rootThread s"
    and "sc_fibers s = map job_item js" and "jobs_for (th_id t) js" and "stop_requested s"
    and "\<forall>f \<ge> length (fh_fibers h). \<not> held f"
  shows "\<exists>h' t'. worker_main self (job_steps js @ idle_steps) held h s t = Some (Inr (h', s\<lparr>sc_fibers := []\<rparr>, t')) \<and>
    runs_in_order js (run_begin self h s t) \<and>
    fh_fiber_count h' = fh_fiber_count h \<and> same_fibers {} h h' \<and>
    tl_fiber (th_locals t') = None \<and> tl_threadFiber (th_locals t') = None"
proof -
  let ?m = "length (fh_fibers h)"
  let ?main = "\<lparr>fb_id = 0, fb_stacksize = 0, fb_state = EXEC, fb_ctx = CtxUnset, fb_entry = NoEntry,
      fb_stack = False, fb_cb = None, fb_stack_refs = 0\<rparr>"
  let ?r = "run_begin self h s t"
  obtain h1 t1 where start: "?r = Inr (h1, s, t1)" and ok: "loop_ok ?m h1 t1" and new: "th_cb_fiber t1 = None"
    and idle: "th_idle_fiber t1 = Suc ?m" and main: "fiber_at h1 ?m = ?main" and cnt: "fh_fiber_count h1 = fh_fiber_count h + 2"
    and same: "same_fibers {} h h1" and len: "length (fh_fibers h1) = Suc (Suc ?m)" and tid: "th_id t1 = th_id t"
    and tf: "tl_threadFiber (th_locals t1) = Some ?m"
    using assms(1,2)
    by (auto simp: run_begin_def Let_def Fiber_GetThis_def Fiber_main_new_def Fiber_SetThis_def Fiber_new_def
        thread_locals_new_def Scheduler_setThis_def loop_ok_def on_scheduler_def fresh_fiber_def same_fibers_def
        nth_append emit_def)
  have unheld: "\<not> held (th_idle_fiber t1)" "\<forall>f \<ge> length (fh_fibers h1). \<not> held f" "\<not> held ?m"
    using assms(6) idle len by simp_all
  have jobs: "jobs_for (th_id t1) js" using assms(4) tid by simp
  obtain h2 t2 where run: "run_call self (job_steps js @ idle_steps) held h s t = Some (Inr (h2, s\<lparr>sc_fibers := []\<rparr>, t2))"
    "runs_in_order js ?r" "tl_threadFiber (th_locals t2) = Some ?m" "tl_fiber (th_locals t2) = Some ?m"
    "same_fibers {?m, Suc ?m} h1 h2" "core h2 ?m = core h1 ?m" "fh_fiber_count h2 = fh_fiber_count h1 - 1"
    using run_call_drains [OF start ok new assms(3) jobs assms(5) unheld(1,2)] tf idle by auto
  have at_m: "fb_stack (fiber_at h2 ?m) = False" "fb_cb (fiber_at h2 ?m) = None" "fb_state (fiber_at h2 ?m) = EXEC"
    "fb_stack_refs (fiber_at h2 ?m) = 0"
    using arg_cong [OF run(6), of fb_stack] arg_cong [OF run(6), of fb_cb] arg_cong [OF run(6), of fb_state]
      arg_cong [OF run(6), of fb_stack_refs] main by (simp_all add: core_def)
  have "same_fibers {} h h2"
    using same run(5) len by (auto simp: same_fibers_def)
  with run at_m unheld(3) cnt show ?thesis
    by (simp add: worker_main_def thread_exit_def drop_ptr_def Fiber_destroy_def Let_def Fiber_SetThis_def
        same_fibers_def emit_def)
qed

definition demo_jobs :: "job list" where
  "demo_jobs = [\<lparr>jb_cb = 7, jb_thread = 3, jb_end = (Returned, [])\<rparr>, \<lparr>jb_cb = 8, jb_thread = - 1, jb_end = (ThrewUnknown, ''bt'')\<rparr>]"

theorem worker_runs_and_releases_witness:
  "\<exists>h' t'. worker_main 1 (job_steps demo_jobs @ idle_steps) (\<lambda>f. False) fiber_heap_new
       (demo_sched\<lparr>sc_fibers := map job_item demo_jobs, sc_autoStop := True\<rparr>) (sched_thread_new 3 ''w'') =
     Some (Inr (h', demo_sched\<lparr>sc_fibers := [], sc_autoStop := True\<rparr>, t')) \<and> fh_fiber_count h' = 0"
proof -
  let ?s = "demo_sched\<lparr>sc_fibers := map job_item demo_jobs, sc_autoStop := True\<rparr>"
  have "th_locals (sched_thread_new 3 ''w'') = thread_locals_new" "th_id (sched_thread_new 3 ''w'') \<noteq> sc_rootThread ?s"
    "sc_fibers ?s = map job_item demo_jobs" "jobs_for (th_id (sched_thread_new 3 ''w'')) demo_jobs" "stop_requested ?s"
    by (simp_all add: sched_thread_new_def demo_sched_def jobs_for_def demo_jobs_def stop_requested_def)
  from worker_runs_and_releases [OF this, of fiber_heap_new "\<lambda>f. False" 1] show ?thesis
    by (auto simp: fiber_heap_new_def)
qed

end
