(* ===== verification/Scheduler_Caller.thy ===== *)
theory Scheduler_Caller
  imports Scheduler_Drain
begin

text \<open>
  The thread that constructed the scheduler with \<open>use_caller\<close>, which runs \<open>Scheduler::run\<close> on the
  root fiber inside \<open>stop\<close> (gwn/scheduler.cc): that \<open>stop\<close> works off the queue and gets the thread back.
\<close>

section \<open>The call of the root fiber\<close>

text \<open>
  \<open>m_rootFiber->call()\<close> in \<open>stop\<close>: the switch to the root fiber, whose function is \<open>run\<close>, the end of
  \<open>CallerMainFunc\<close>, which switches back, and the rest of \<open>call\<close>.
\<close>

definition call_root ::
  "nat \<Rightarrow> nat \<Rightarrow> task_leave option list \<Rightarrow> (nat \<Rightarrow> bool) \<Rightarrow> fiber_heap \<Rightarrow> scheduler \<Rightarrow> sched_thread \<Rightarrow>
     sched_result option"
where
  "call_root self root acts held h s t =
     (case Fiber_call root h (th_locals t) of
        Inl e \<Rightarrow> Some (Inl e)
      | Inr (h1, l1) \<Rightarrow>
          (case run_call self acts held h1 s (t\<lparr>th_locals := l1\<rparr>) of
             Some (Inr (h2, s2, t2)) \<Rightarrow>
               Some (case CallerMainFunc_end Returned [] root h2 (th_locals t2) of
                       Inl e \<Rightarrow> Inl e
                     | Inr (h3, l3) \<Rightarrow> Inr (Fiber_call_return h3, s2, t2\<lparr>th_locals := l3\<rparr>))
           | r \<Rightarrow> r))"

section \<open>Functions put into the queue\<close>

fun schedule_jobs :: "job list \<Rightarrow> fiber_heap \<Rightarrow> scheduler \<Rightarrow> fiber_heap \<times> scheduler" where
  "schedule_jobs [] h s = (h, s)"
| "schedule_jobs (j # js) h s =
     (case Scheduler_schedule (OfCb (Some (jb_cb j))) (jb_thread j) h s of (h', s') \<Rightarrow> schedule_jobs js h' s')"

lemma schedule_jobs_spec:
  "schedule_jobs js h s = (h', s') \<Longrightarrow>
     s' = s\<lparr>sc_fibers := sc_fibers s @ map job_item js\<rparr> \<and> fh_fibers h' = fh_fibers h \<and> fh_fiber_count h' = fh_fiber_count h"
proof (induction js arbitrary: h s)
  case (Cons j js)
  obtain h1 s1 where 1: "Scheduler_schedule (OfCb (Some (jb_cb j))) (jb_thread j) h s = (h1, s1)" by fastforce
  from schedule_puts [OF this] have "s1 = s\<lparr>sc_fibers := sc_fibers s @ [job_item j]\<rparr>"
    "fh_fibers h1 = fh_fibers h" "fh_fiber_count h1 = fh_fiber_count h"
    by (simp_all add: item_set_def item_put_def job_item_def Scheduler_tickle_def emit_def)
  with Cons.IH [of h1 s1] Cons.prems 1 show ?case by simp
qed simp

lemma setThis_simps [simp]:
  "th_id (Scheduler_setThis self t) = th_id t" "th_locals (Scheduler_setThis self t) = th_locals t"
  by (simp_all add: Scheduler_setThis_def)

lemma tickle_count [simp]: "fh_fiber_count (Scheduler_tickle h) = fh_fiber_count h"
  by (simp add: Scheduler_tickle_def emit_def)

text \<open>The call of a fresh root fiber that has \<open>run\<close> as its function.\<close>

lemma call_root_runs:
  assumes l: "tl_running l = Some n" "tl_threadFiber l = Some n" "tl_scheduler_fiber l = Some r" "l = th_locals t"
    and n: "n < r" "length (fh_fibers h) = Suc r" and r: "fresh_fiber h r" and id: "th_id t = sc_rootThread s"
    and q: "sc_fibers s = map job_item js" "jobs_for (th_id t) js" "stop_requested s"
    and held: "\<forall>f \<ge> length (fh_fibers h). \<not> held f"
  shows "\<exists>h1 l1 h' t'. Fiber_call r h l = Inr (h1, l1) \<and>
    call_root self r (job_steps js @ idle_steps) held h s t = Some (Inr (h', s\<lparr>sc_fibers := []\<rparr>, t')) \<and>
    runs_in_order js (run_begin self h1 s (t\<lparr>th_locals := l1\<rparr>)) \<and>
    tl_running (th_locals t') = Some n \<and> tl_fiber (th_locals t') = Some n \<and>
    fb_state (fiber_at h' r) = TERM' \<and> fb_stack_refs (fiber_at h' r) = 0 \<and> fh_fiber_count h' = fh_fiber_count h"
proof -
  let ?h1 = "fiber_enter r (upd_fiber n (\<lambda>b. b\<lparr>fb_ctx := CtxResume n\<rparr>) (set_state r EXEC h))"
  let ?l1 = "l\<lparr>tl_fiber := Some r, tl_running := Some r\<rparr>"
  have lens: "n < length (fh_fibers h)" "r < length (fh_fibers h)" "n \<noteq> r" using n by simp_all
  have call: "Fiber_call r h l = Inr (?h1, ?l1)"
    using l r lens
    by (simp add: Fiber_call_def Let_def Fiber_SetThis_def swap_context_def fresh_fiber_def fiber_at_set_state fiber_at_upd)
  have at_r: "fiber_at ?h1 r = (fiber_at h r)\<lparr>fb_state := EXEC, fb_stack_refs := 1\<rparr>"
    using r lens by (simp add: fiber_enter_def fiber_at_upd fiber_at_set_state fresh_fiber_def)
  have at_n: "fb_ctx (fiber_at ?h1 n) = CtxResume n"
    using lens by (simp add: fiber_enter_def fiber_at_upd fiber_at_set_state)
  have h1: "length (fh_fibers ?h1) = Suc r" "fh_fiber_count ?h1 = fh_fiber_count h"
    using n by (simp_all add: fiber_enter_def upd_fiber_def set_state_def)
  let ?t1 = "t\<lparr>th_locals := ?l1\<rparr>"
  let ?hb = "emit DEBUG (sc_name s @ '' run'') ?h1"
  obtain h2 where idle_new: "Fiber_new (Some idle_cb) 0 False ?hb = (Suc r, h2)"
    using h1(1) by (simp add: Fiber_new_def Let_def)
  have h2: "fresh_fiber h2 (Suc r)" "same_fibers {} ?h1 h2" "length (fh_fibers h2) = Suc (Suc r)"
    "fh_fiber_count h2 = fh_fiber_count h + 1"
    using idle_new h1 by (auto simp: Fiber_new_def Let_def emit_def fresh_fiber_def same_fibers_def nth_append)
  define t2 where "t2 = (Scheduler_setThis self ?t1)\<lparr>th_idle_fiber := Suc r, th_cb_fiber := None,
      th_ft := FiberAndThread_empty, th_idle_entered := False, th_pc := Scan\<rparr>"
  have start: "run_begin self ?h1 s ?t1 = Inr (h2, s, t2)"
    using id idle_new by (simp add: run_begin_def Let_def t2_def)
  have ok: "loop_ok r h2 t2" and new: "th_cb_fiber t2 = None" and idle: "th_idle_fiber t2 = Suc r"
    and tid: "th_id t2 = th_id t" and tf: "tl_threadFiber (th_locals t2) = Some n"
    using l h2(1,3) by (simp_all add: t2_def loop_ok_def on_scheduler_def)
  note same = h2(2-4)
  have unheld: "\<not> held (th_idle_fiber t2)" "\<forall>f \<ge> length (fh_fibers h2). \<not> held f"
    using held n(2) idle same(2) by simp_all
  have jobs: "jobs_for (th_id t2) js" using q(2) tid by simp
  obtain h3 t3 where run: "run_call self (job_steps js @ idle_steps) held ?h1 s ?t1 = Some (Inr (h3, s\<lparr>sc_fibers := []\<rparr>, t3))"
    "runs_in_order js (run_begin self ?h1 s ?t1)" "tl_running (th_locals t3) = Some r"
    "tl_threadFiber (th_locals t3) = Some n" "same_fibers {r, Suc r} h2 h3" "core h3 r = core h2 r"
    "fh_fiber_count h3 = fh_fiber_count h2 - 1"
    using run_call_drains [OF start ok new q(1) jobs q(3) unheld] tf idle by auto
  have r2: "fiber_at h2 r = fiber_at ?h1 r" "fiber_at h2 n = fiber_at ?h1 n"
    using same(1) h1(1) n by (simp_all add: same_fibers_def)
  have refs: "fb_stack_refs (fiber_at h3 r) = 1"
    using arg_cong [OF run(6), of fb_stack_refs] r2(1) at_r by (simp add: core_def)
  have n3: "fb_ctx (fiber_at h3 n) = CtxResume n"
    using run(5) same(2) r2(2) at_n n by (simp add: same_fibers_def)
  have len3: "n < length (fh_fibers h3)" "r < length (fh_fibers h3)"
    using run(5) same(2) n by (simp_all add: same_fibers_def)
  let ?h4 = "upd_fiber r (\<lambda>b. b\<lparr>fb_ctx := CtxResume r\<rparr>)
      (upd_fiber r (\<lambda>b. b\<lparr>fb_stack_refs := fb_stack_refs b - 1\<rparr>) (upd_fiber r (\<lambda>b. b\<lparr>fb_cb := None, fb_state := TERM'\<rparr>) h3))"
  let ?l4 = "(th_locals t3)\<lparr>tl_fiber := Some n, tl_running := Some n\<rparr>"
  have leave: "CallerMainFunc_end Returned [] r h3 (th_locals t3) = Inr (?h4, ?l4)"
    using run(3,4) n3 len3 lens(3)
    by (simp add: CallerMainFunc_end_def cb_finished_def Let_def Fiber_back_def Fiber_SetThis_def swap_context_def fiber_at_upd)
  have back_r: "fb_state (fiber_at ?h4 r) = TERM'" "fb_stack_refs (fiber_at ?h4 r) = 0"
    using len3 refs by (simp_all add: fiber_at_upd)
  have cnt: "fh_fiber_count ?h4 = fh_fiber_count h" using run(7) same(3) by (simp add: upd_fiber_def)
  have "call_root self r (job_steps js @ idle_steps) held h s t =
      Some (Inr (Fiber_call_return ?h4, s\<lparr>sc_fibers := []\<rparr>, t3\<lparr>th_locals := ?l4\<rparr>))"
    using call run(1) leave l(4) by (simp add: call_root_def)
  with call run(2) back_r cnt show ?thesis
    by (intro exI [of _ ?h1] exI [of _ ?l1] exI [of _ "Fiber_call_return ?h4"] exI [of _ "t3\<lparr>th_locals := ?l4\<rparr>"])
       (simp add: Fiber_call_return_def emit_def)
qed

text \<open>
  C11: A scheduler over the calling thread alone, from its construction to the end of \<open>stop\<close>: the
  functions that were scheduled, at least one, are run by \<open>stop\<close>, in order and however each of them
  ends; for this it calls the root fiber, which ends when the queue is empty and gives the thread
  back to the fiber that called \<open>stop\<close>. Then \<open>stopping\<close> holds, there is no thread to join, the
  destructor's assertion holds, and of all fibers only the two of the constructor are left.
\<close>

theorem caller_stop_runs_queue:
  assumes "th_locals t0 = thread_locals_new" and "Scheduler_GetThis t0 = None" and "th_id t0 \<noteq> - 1"
    and "js \<noteq> []" and "jobs_for (th_id t0) js" and "\<forall>f > Suc (length (fh_fibers h0)). \<not> held f"
  shows "\<exists>h s t h1 s1 h2 s2 r hb lb h3 t3.
    Scheduler_new self 1 True name h0 t0 = Inr (h, s, t) \<and> schedule_jobs js h s = (h1, s1) \<and>
    Scheduler_stop self addr h1 s1 t = Inr (StopCallRoot r, h2, s2) \<and>
    Fiber_call r h2 (th_locals t) = Inr (hb, lb) \<and>
    runs_in_order js (run_begin self hb s2 (t\<lparr>th_locals := lb\<rparr>)) \<and>
    call_root self r (job_steps js @ idle_steps) held h2 s2 t = Some (Inr (h3, s2\<lparr>sc_fibers := []\<rparr>, t3)) \<and>
    tl_running (th_locals t3) = tl_running (th_locals t) \<and> fb_state (fiber_at h3 r) = TERM' \<and>
    Scheduler_stopping (s2\<lparr>sc_fibers := []\<rparr>) \<and> fst (Scheduler_stop_join s2) = [] \<and>
    Scheduler_destroy self s2 t3 \<noteq> Inl AssertionFailed \<and> fh_fiber_count h3 = fh_fiber_count h0 + 2"
proof -
  let ?n = "length (fh_fibers h0)"
  obtain h s t where new: "Scheduler_new self 1 True name h0 t0 = Inr (h, s, t)"
    and t: "tl_running (th_locals t) = Some ?n" "tl_threadFiber (th_locals t) = Some ?n"
      "tl_scheduler_fiber (th_locals t) = Some (Suc ?n)" "th_id t = th_id t0" "Scheduler_GetThis t = Some self"
    and s: "sc_rootFiber s = Some (Suc ?n)" "sc_threadCount s = 0" "sc_rootThread s = th_id t0" "sc_fibers s = []"
      "sc_activeThreadCount s = 0" "sc_threads s = []"
    and h: "length (fh_fibers h) = Suc (Suc ?n)" "fresh_fiber h (Suc ?n)" "fh_fiber_count h = fh_fiber_count h0 + 2"
    using assms(1,2)
    by (auto simp: Scheduler_new_def Let_def Fiber_GetThis_def Fiber_main_new_def Fiber_SetThis_def Fiber_new_def
        thread_locals_new_def Scheduler_setThis_def Scheduler_GetThis_def fresh_fiber_def nth_append emit_def)
  obtain h1 s1 where sched: "schedule_jobs js h s = (h1, s1)" by fastforce
  have s1: "s1 = s\<lparr>sc_fibers := map job_item js\<rparr>" "fh_fibers h1 = fh_fibers h" "fh_fiber_count h1 = fh_fiber_count h"
    using schedule_jobs_spec [OF sched] s(4) by simp_all
  let ?s2 = "s1\<lparr>sc_autoStop := True, sc_stopping := True\<rparr>"
  let ?h2 = "Scheduler_tickle (emit INFO (addr @ '' stopped'') h1)"
  have stop: "Scheduler_stop self addr h1 s1 t = Inr (StopCallRoot (Suc ?n), ?h2, ?s2)"
    using s s1 h(2) t(5) assms(3,4)
    by (simp add: Scheduler_stop_def Let_def root_ended_or_fresh_def Scheduler_stopping_def fresh_fiber_def)
  have h2: "length (fh_fibers ?h2) = Suc (Suc ?n)" "fresh_fiber ?h2 (Suc ?n)" "fh_fiber_count ?h2 = fh_fiber_count h0 + 2"
    using h s1 by (simp_all add: fresh_fiber_def emit_def)
  have q: "sc_fibers ?s2 = map job_item js" "jobs_for (th_id t) js" "stop_requested ?s2" "th_id t = sc_rootThread ?s2"
    "\<forall>f \<ge> length (fh_fibers ?h2). \<not> held f" "?n < Suc ?n"
    using s s1 t(4) assms(5,6) h2(1) by (simp_all add: stop_requested_def)
  obtain hb lb h3 t3 where run: "Fiber_call (Suc ?n) ?h2 (th_locals t) = Inr (hb, lb)"
    "call_root self (Suc ?n) (job_steps js @ idle_steps) held ?h2 ?s2 t = Some (Inr (h3, ?s2\<lparr>sc_fibers := []\<rparr>, t3))"
    "runs_in_order js (run_begin self hb ?s2 (t\<lparr>th_locals := lb\<rparr>))" "tl_running (th_locals t3) = Some ?n"
    "fb_state (fiber_at h3 (Suc ?n)) = TERM'" "fh_fiber_count h3 = fh_fiber_count ?h2"
    using call_root_runs [OF t(1,2,3) HOL.refl q(6) h2(1,2) q(4,1,2,3,5)] by blast
  have "Scheduler_stopping (?s2\<lparr>sc_fibers := []\<rparr>)" "fst (Scheduler_stop_join ?s2) = []"
    "Scheduler_destroy self ?s2 t3 \<noteq> Inl AssertionFailed"
    using s s1 by (simp_all add: Scheduler_stopping_def Scheduler_stop_join_def Scheduler_destroy_def)
  with new sched stop run t(1) h2(3) show ?thesis by (metis (no_types, lifting))
qed

theorem caller_stop_runs_queue_witness:
  "\<exists>h s t h1 s1 h2 s2 r h3 t3. Scheduler_new 1 1 True ''main'' fiber_heap_new (sched_thread_new 3 ''m'') = Inr (h, s, t) \<and>
     schedule_jobs demo_jobs h s = (h1, s1) \<and> Scheduler_stop 1 ''0x1'' h1 s1 t = Inr (StopCallRoot r, h2, s2) \<and>
     call_root 1 r (job_steps demo_jobs @ idle_steps) (\<lambda>f. False) h2 s2 t = Some (Inr (h3, s2\<lparr>sc_fibers := []\<rparr>, t3)) \<and>
     fh_fiber_count h3 = 2"
proof -
  have "th_locals (sched_thread_new 3 ''m'') = thread_locals_new" "Scheduler_GetThis (sched_thread_new 3 ''m'') = None"
    "th_id (sched_thread_new 3 ''m'') \<noteq> - 1" "demo_jobs \<noteq> []" "jobs_for (th_id (sched_thread_new 3 ''m'')) demo_jobs"
    by (simp_all add: sched_thread_new_def Scheduler_GetThis_def jobs_for_def demo_jobs_def)
  from caller_stop_runs_queue [OF this, of fiber_heap_new "\<lambda>f. False" 1 "''main''" "''0x1''"] show ?thesis
    by (fastforce simp: fiber_heap_new_def)
qed

end
