(* ===== verification/Scheduler_Pool.thy ===== *)
theory Scheduler_Pool
  imports Scheduler_Runs
begin

text \<open>
  An abstract specification of the scheduler, a pool of tasks: a queue of pending items and, for
  every thread, the item it has in hand. The threads of a scheduler refine it: every step of
  theirs is an event of the pool. The ledger of the events says that no item is lost or taken
  twice; with the counters it says what is left when \<open>stopping\<close> holds.
\<close>

section \<open>Refinement mappings\<close>

inductive event_run :: "('a \<Rightarrow> 'e \<Rightarrow> 'a \<Rightarrow> bool) \<Rightarrow> 'a \<Rightarrow> 'e list \<Rightarrow> 'a \<Rightarrow> bool" for move where
  none: "event_run move p [] p"
| more: "event_run move p es q \<Longrightarrow> move q e r \<Longrightarrow> event_run move p (es @ [e]) r"

text \<open>
  A concrete system and an abstract one with the same events, and a mapping of states under which
  every step of the first is a step of the second with the same event.
\<close>

locale refinement_map =
  fixes conc :: "'s \<Rightarrow> 'e \<Rightarrow> 's \<Rightarrow> bool"
    and inv :: "'s \<Rightarrow> bool"
    and move :: "'a \<Rightarrow> 'e \<Rightarrow> 'a \<Rightarrow> bool"
    and absn :: "'s \<Rightarrow> 'a"
  assumes inv_step: "inv x \<Longrightarrow> conc x e y \<Longrightarrow> inv y"
    and simulation: "inv x \<Longrightarrow> conc x e y \<Longrightarrow> move (absn x) e (absn y)"
begin

lemma run_simulation:
  "event_run conc x es y \<Longrightarrow> inv x \<Longrightarrow> inv y \<and> event_run move (absn x) es (absn y)"
  by (induction rule: event_run.induct) (auto intro: event_run.intros inv_step simulation)

end

section \<open>The pool\<close>

record task_pool =
  tp_pending :: "fiber_and_thread list"
  tp_threads :: "(int \<times> fiber_and_thread option) list"

text \<open>
  The events: a thread arrives; an item is scheduled; a thread takes an item; it gives the
  fiber of its item back to the queue; it is done with its item; it discards a fiber that has
  ended without running it; nothing the pool can see.
\<close>

datatype pool_event = Arrives int | Scheduled fiber_and_thread | Takes nat fiber_and_thread
  | Requeues nat fiber_and_thread nat | Finishes nat fiber_and_thread | Discards nat fiber_and_thread
  | Hidden

definition put_hand :: "nat \<Rightarrow> fiber_and_thread option \<Rightarrow> task_pool \<Rightarrow> task_pool" where
  "put_hand i w p = p\<lparr>tp_threads := (tp_threads p)[i := (fst (tp_threads p ! i), w)]\<rparr>"

definition holds :: "task_pool \<Rightarrow> nat \<Rightarrow> fiber_and_thread option \<Rightarrow> bool" where
  "holds p i w \<longleftrightarrow> i < length (tp_threads p) \<and> snd (tp_threads p ! i) = w"

text \<open>
  A thread may pass over the items of other threads, and over fibers, since they may be
  running, but not over a function.
\<close>

definition may_pass :: "int \<Rightarrow> fiber_and_thread \<Rightarrow> bool" where
  "may_pass tid w \<longleftrightarrow> pinned_elsewhere tid w \<or> ft_fiber w \<noteq> None"

inductive pool_step :: "task_pool \<Rightarrow> pool_event \<Rightarrow> task_pool \<Rightarrow> bool" where
  arrives: "pool_step p (Arrives tid) (p\<lparr>tp_threads := tp_threads p @ [(tid, None)]\<rparr>)"
| scheduled: "item_set w \<Longrightarrow> pool_step p (Scheduled w) (p\<lparr>tp_pending := tp_pending p @ [w]\<rparr>)"
| takes: "holds p i None \<Longrightarrow> tp_pending p = pre @ w # post \<Longrightarrow>
    list_all (may_pass (fst (tp_threads p ! i))) pre \<Longrightarrow>
    \<not> pinned_elsewhere (fst (tp_threads p ! i)) w \<Longrightarrow> item_set w \<Longrightarrow>
    pool_step p (Takes i w) (put_hand i (Some w) (p\<lparr>tp_pending := pre @ post\<rparr>))"
| requeues: "holds p i (Some w) \<Longrightarrow> ft_cb w \<noteq> None \<or> ft_fiber w = Some f \<Longrightarrow>
    pool_step p (Requeues i w f)
      (put_hand i None (p\<lparr>tp_pending := tp_pending p @ [FiberAndThread (OfFiber (Some f)) (- 1)]\<rparr>))"
| finishes: "holds p i (Some w) \<Longrightarrow> pool_step p (Finishes i w) (put_hand i None p)"
| discards: "holds p i (Some w) \<Longrightarrow> ft_cb w = None \<Longrightarrow> ft_fiber w \<noteq> None \<Longrightarrow>
    pool_step p (Discards i w) (put_hand i None p)"
| hidden: "pool_step p Hidden p"

primrec discarded :: "pool_event \<Rightarrow> nat" where
  "discarded (Arrives tid) = 0"
| "discarded (Scheduled w) = 0"
| "discarded (Takes i w) = 0"
| "discarded (Requeues i w f) = 0"
| "discarded (Finishes i w) = 0"
| "discarded (Discards i w) = 1"
| "discarded Hidden = 0"

section \<open>The ledger\<close>

fun entered :: "pool_event \<Rightarrow> fiber_and_thread multiset" where
  "entered (Scheduled w) = {#w#}"
| "entered (Requeues i w f) = {#FiberAndThread (OfFiber (Some f)) (- 1)#}"
| "entered e = {#}"

fun taken :: "pool_event \<Rightarrow> fiber_and_thread multiset" where
  "taken (Takes i w) = {#w#}"
| "taken e = {#}"

fun put_down :: "pool_event \<Rightarrow> fiber_and_thread multiset" where
  "put_down (Requeues i w f) = {#w#}"
| "put_down (Finishes i w) = {#w#}"
| "put_down (Discards i w) = {#w#}"
| "put_down e = {#}"

definition total :: "('e \<Rightarrow> 'a multiset) \<Rightarrow> 'e list \<Rightarrow> 'a multiset" where
  "total f es = sum_list (map f es)"

lemma total_simps [simp]:
  "total f [] = {#}"
  "total f (es @ [e]) = total f es + f e"
  by (simp_all add: total_def)

definition hand_set :: "fiber_and_thread option \<Rightarrow> fiber_and_thread multiset" where
  "hand_set w = (case w of None \<Rightarrow> {#} | Some x \<Rightarrow> {#x#})"

definition hands :: "task_pool \<Rightarrow> fiber_and_thread multiset" where
  "hands p = sum_list (map (\<lambda>t. hand_set (snd t)) (tp_threads p))"

lemma hands_update:
  "i < length xs \<Longrightarrow>
     sum_list (map (\<lambda>t. hand_set (snd t)) (xs[i := (a, w)])) + hand_set (snd (xs ! i)) =
     sum_list (map (\<lambda>t. hand_set (snd t)) xs) + hand_set w"
proof (induction xs arbitrary: i)
  case (Cons x xs)
  show ?case
  proof (cases i)
    case (Suc j)
    with Cons.IH [of j] Cons.prems show ?thesis by (simp add: add.assoc)
  qed (simp add: ac_simps)
qed simp

lemma hands_put:
  "holds p i v \<Longrightarrow> hands (put_hand i w p) + hand_set v = hands p + hand_set w"
  using hands_update [of i "tp_threads p"] by (simp add: hands_def put_hand_def holds_def)

lemma hands_simps [simp]:
  "hands (p\<lparr>tp_pending := q\<rparr>) = hands p"
  "hands (p\<lparr>tp_threads := ts @ [(tid, None)]\<rparr>) = hands (p\<lparr>tp_threads := ts\<rparr>)"
  "tp_pending (put_hand i w p) = tp_pending p"
  "holds (p\<lparr>tp_pending := q\<rparr>) i v = holds p i v"
  by (simp_all add: hands_def put_hand_def holds_def hand_set_def)

lemma pool_step_ledger:
  "pool_step p e q \<Longrightarrow>
     mset (tp_pending q) + taken e = mset (tp_pending p) + entered e \<and>
     hands q + put_down e = hands p + taken e"
proof (induction rule: pool_step.induct)
  case (takes p i pre w post)
  with hands_put [of "p\<lparr>tp_pending := pre @ post\<rparr>" i None "Some w"] show ?case
    by (simp add: hand_set_def)
next
  case (requeues p i w f)
  with hands_put [of "p\<lparr>tp_pending := tp_pending p @ [FiberAndThread (OfFiber (Some f)) (- 1)]\<rparr>" i "Some w" None]
  show ?case by (simp add: hand_set_def)
next
  case (finishes p i w)
  with hands_put [of p i "Some w" None] show ?case by (simp add: hand_set_def)
next
  case (discards p i w)
  with hands_put [of p i "Some w" None] show ?case by (simp add: hand_set_def)
qed simp_all

lemma ledger_add:
  fixes a b c :: "'a multiset"
  assumes "a + t = b + e" and "c + t' = a + e'"
  shows "c + (t + t') = b + (e + e')"
proof -
  have "c + (t + t') = (c + t') + t" by (simp add: ac_simps)
  also have "\<dots> = (a + t) + e'" by (simp add: assms(2) ac_simps)
  also have "\<dots> = b + (e + e')" by (simp add: assms(1) ac_simps)
  finally show ?thesis .
qed

lemma pool_ledger:
  "event_run pool_step p es q \<Longrightarrow>
     mset (tp_pending q) + total taken es = mset (tp_pending p) + total entered es \<and>
     hands q + total put_down es = hands p + total taken es"
proof (induction rule: event_run.induct)
  case (more p es q e r)
  note step = pool_step_ledger [OF more.hyps(2)]
  from ledger_add [OF conjunct1 [OF more.IH] conjunct1 [OF step]]
    ledger_add [OF conjunct2 [OF more.IH] conjunct2 [OF step]]
  show ?case by simp
qed simp

section \<open>The scheduler as a pool\<close>

definition in_hand :: "sched_thread \<Rightarrow> fiber_and_thread option" where
  "in_hand t = (case th_pc t of
     Dispatch \<Rightarrow> if item_set (th_ft t) then Some (th_ft t) else None
   | InFiber \<Rightarrow> Some (th_ft t) | BackFiber \<Rightarrow> Some (th_ft t) | PostFiber \<Rightarrow> Some (th_ft t)
   | InCb \<Rightarrow> Some (th_ft t) | BackCb \<Rightarrow> Some (th_ft t) | PostCb \<Rightarrow> Some (th_ft t)
   | _ \<Rightarrow> None)"

definition pool_of :: "sched_state \<Rightarrow> task_pool" where
  "pool_of x = (case x of (h, s, ts) \<Rightarrow>
     \<lparr>tp_pending = sc_fibers s, tp_threads = map (\<lambda>t. (th_id t, in_hand t)) ts\<rparr>)"

text \<open>A thread in a function has taken one.\<close>

definition cb_in_hand :: "sched_thread \<Rightarrow> bool" where
  "cb_in_hand t \<longleftrightarrow> (th_pc t \<in> {InCb, BackCb, PostCb} \<longrightarrow> ft_cb (th_ft t) \<noteq> None)"

text \<open>
  The event that a step of a thread is, as the state before it tells: the scan takes the first
  item that the thread can run; a fiber that came back \<open>READY\<close> is given back to the queue, with any
  other state the thread is done with its item; a fiber that has ended before it could be resumed
  is discarded.
\<close>

definition thread_event :: "nat \<Rightarrow> fiber_heap \<Rightarrow> scheduler \<Rightarrow> sched_thread \<Rightarrow> pool_event" where
  "thread_event i h s t = (case th_pc t of
     Scan \<Rightarrow> (case List.extract (item_runnable h (th_id t)) (sc_fibers s) of
         None \<Rightarrow> Hidden | Some (pre, w, post) \<Rightarrow> Takes i w)
   | Dispatch \<Rightarrow> if leaks h t then Discards i (th_ft t) else Hidden
   | PostFiber \<Rightarrow> (case ft_fiber (th_ft t) of
         None \<Rightarrow> Hidden
       | Some f \<Rightarrow> if fb_state (fiber_at h f) = READY then Requeues i (th_ft t) f else Finishes i (th_ft t))
   | PostCb \<Rightarrow> (case th_cb_fiber t of
         None \<Rightarrow> Hidden
       | Some f \<Rightarrow> if fb_state (fiber_at h f) = READY then Requeues i (th_ft t) f else Finishes i (th_ft t))
   | _ \<Rightarrow> Hidden)"

lemma discarded_thread_event: "discarded (thread_event i h s t) = (if leaks h t then 1 else 0)"
  by (auto simp: thread_event_def leaks_def split: run_pc.splits option.splits)

text \<open>What an event of one thread does to the queue and to its hand.\<close>

primrec hand_changes ::
  "pool_event \<Rightarrow> scheduler \<Rightarrow> sched_thread \<Rightarrow> scheduler \<Rightarrow> sched_thread \<Rightarrow> bool"
where
  "hand_changes Hidden s t s' t' \<longleftrightarrow> sc_fibers s' = sc_fibers s \<and> in_hand t' = in_hand t"
| "hand_changes (Takes i w) s t s' t' \<longleftrightarrow> in_hand t = None \<and> in_hand t' = Some w \<and>
     (\<exists>pre post. sc_fibers s = pre @ w # post \<and> sc_fibers s' = pre @ post \<and>
        list_all (may_pass (th_id t)) pre \<and> \<not> pinned_elsewhere (th_id t) w \<and> item_set w)"
| "hand_changes (Requeues i w f) s t s' t' \<longleftrightarrow> in_hand t = Some w \<and> in_hand t' = None \<and>
     (ft_cb w \<noteq> None \<or> ft_fiber w = Some f) \<and>
     sc_fibers s' = sc_fibers s @ [FiberAndThread (OfFiber (Some f)) (- 1)]"
| "hand_changes (Finishes i w) s t s' t' \<longleftrightarrow> in_hand t = Some w \<and> in_hand t' = None \<and> sc_fibers s' = sc_fibers s"
| "hand_changes (Discards i w) s t s' t' \<longleftrightarrow> in_hand t = Some w \<and> in_hand t' = None \<and>
     sc_fibers s' = sc_fibers s \<and> ft_cb w = None \<and> ft_fiber w \<noteq> None"
| "hand_changes (Arrives tid) s t s' t' \<longleftrightarrow> False"
| "hand_changes (Scheduled w) s t s' t' \<longleftrightarrow> False"

definition hand_step :: "pool_event \<Rightarrow> scheduler \<Rightarrow> sched_thread \<Rightarrow> scheduler \<Rightarrow> sched_thread \<Rightarrow> bool" where
  "hand_step e s t s' t' \<longleftrightarrow> th_id t' = th_id t \<and> cb_in_hand t' \<and> hand_changes e s t s' t'"

lemmas hand_simps = in_hand_def cb_in_hand_def leaks_def hand_step_def thread_event_def

lemma switched_hand:
  "switched pc t s r = Inr (h', s', t') \<Longrightarrow>
     s' = s \<and> th_id t' = th_id t \<and> th_pc t' = pc \<and> th_ft t' = th_ft t"
  by (auto simp: switched_def split: sum.splits)

lemma scan_hand:
  assumes "run_scan h s t = Inr (h', s', t')" and "th_pc t = Scan"
  shows "hand_step (thread_event i h s t) s t s' t'"
proof -
  obtain ft q b where scan: "scan_fibers h (th_id t) (sc_fibers s) False = Inr (ft, q, b)"
    and s': "sc_fibers s' = q" and t': "th_id t' = th_id t" "th_pc t' = Dispatch"
      "th_ft t' = (case ft of None \<Rightarrow> FiberAndThread_empty | Some it \<Rightarrow> it)"
    using assms(1) by (auto simp: run_scan_def split: sum.splits)
  show ?thesis
  proof (cases ft)
    case None
    with scan_fibers_None [of h "th_id t" "sc_fibers s" False q b] scan
    have q: "q = sc_fibers s" "list_all (\<lambda>x. \<not> item_runnable h (th_id t) x) (sc_fibers s)" by simp_all
    then have "List.extract (item_runnable h (th_id t)) (sc_fibers s) = None"
      by (simp add: extract_None_iff list_all_iff)
    with q(1) None s' t' assms(2) show ?thesis by (simp add: hand_simps item_set_def FiberAndThread_empty_def)
  next
    case (Some w)
    with scan_fibers_Some [of h "th_id t" "sc_fibers s" False w q b] scan obtain pre post where
      q: "sc_fibers s = pre @ w # post" "q = pre @ post" "item_runnable h (th_id t) w" "item_set w"
      "list_all (\<lambda>x. \<not> item_runnable h (th_id t) x) pre"
      by blast
    then have "List.extract (item_runnable h (th_id t)) (sc_fibers s) = Some (pre, w, post)"
      by (simp add: extract_Some_iff list_all_iff)
    then have e: "thread_event i h s t = Takes i w" using assms(2) by (simp add: thread_event_def)
    have "list_all (may_pass (th_id t)) pre"
      using q(5) by (auto simp: list_all_iff may_pass_def item_runnable_def pinned_elsewhere_def split: option.splits)
    moreover have "\<not> pinned_elsewhere (th_id t) w"
      using q(3) by (auto simp: item_runnable_def pinned_elsewhere_def)
    ultimately show ?thesis
      unfolding e using q Some s' t' assms(2) by (auto simp: hand_step_def in_hand_def cb_in_hand_def)
  qed
qed

lemma dispatch_cb_hand:
  "dispatch_cb c h s t = Inr (h', s', t') \<Longrightarrow>
     s' = s \<and> th_id t' = th_id t \<and> th_pc t' = InCb \<and> th_ft t' = th_ft t"
  by (auto simp: dispatch_cb_def Let_def split: sum.splits prod.splits dest: switched_hand)

lemma dispatch_idle_hand:
  "dispatch_idle h s t = Inr (h', s', t') \<Longrightarrow>
     sc_fibers s' = sc_fibers s \<and> th_id t' = th_id t \<and> th_pc t' \<in> {Left, InIdle}"
  by (auto simp: dispatch_idle_def split: if_splits dest: switched_hand)

lemma dispatch_hand:
  assumes "run_dispatch h s t = Inr (h', s', t')" and "th_pc t = Dispatch"
  shows "hand_step (thread_event i h s t) s t s' t'"
proof -
  consider (fiber) f where "ft_fiber (th_ft t) = Some f" "\<not> fiber_ended h f"
      "switched InFiber t s (Fiber_swapIn f h (th_locals t)) = Inr (h', s', t')"
    | (cb) c where "ft_cb (th_ft t) = Some c" "dispatch_cb c h s t = Inr (h', s', t')"
    | (ended) f where "ft_fiber (th_ft t) = Some f" "fiber_ended h f" "ft_cb (th_ft t) = None"
      "dispatch_idle h s t = Inr (h', s', t')"
    | (none_left) "ft_fiber (th_ft t) = None" "ft_cb (th_ft t) = None"
      "dispatch_idle h s t = Inr (h', s', t')"
    using assms(1) by (auto simp: run_dispatch_def split: option.splits if_splits)
  then show ?thesis
  proof cases
    case fiber
    with assms(2) show ?thesis
      by (auto simp: hand_simps item_set_def dest!: switched_hand)
  next
    case cb
    with assms(2) dispatch_cb_hand [OF cb(2)] show ?thesis
      by (auto simp: hand_simps item_set_def)
  next
    case ended
    with assms(2) dispatch_idle_hand [OF ended(4)] show ?thesis
      by (auto simp: hand_simps item_set_def)
  next
    case none_left
    with assms(2) dispatch_idle_hand [OF none_left(3)] show ?thesis
      by (auto simp: hand_simps item_set_def)
  qed
qed

lemma post_fiber_hand:
  assumes "run_post_fiber h s t = Inr (h', s', t')" and "th_pc t = PostFiber"
  shows "hand_step (thread_event i h s t) s t s' t'"
proof -
  obtain f where f: "ft_fiber (th_ft t) = Some f"
    using assms(1) by (auto simp: run_post_fiber_def split: option.splits)
  show ?thesis
  proof (cases "fb_state (fiber_at h f) = READY")
    case True
    with assms f show ?thesis
      by (auto simp: run_post_fiber_def hand_simps item_set_def item_put_def split: prod.splits dest!: schedule_puts)
  next
    case False
    with assms f show ?thesis
      by (auto simp: run_post_fiber_def Let_def hand_simps split: if_splits)
  qed
qed

lemma post_cb_hand:
  assumes "run_post_cb h s t = Inr (h', s', t')" and "th_pc t = PostCb" and "cb_in_hand t"
  shows "hand_step (thread_event i h s t) s t s' t'"
proof -
  obtain f where f: "th_cb_fiber t = Some f"
    using assms(1) by (auto simp: run_post_cb_def split: option.splits)
  show ?thesis
  proof (cases "fb_state (fiber_at h f) = READY")
    case True
    with assms f show ?thesis
      by (auto simp: run_post_cb_def hand_simps item_set_def item_put_def split: prod.splits dest!: schedule_puts)
  next
    case False
    with assms f show ?thesis
      by (auto simp: run_post_cb_def Let_def hand_simps split: if_splits sum.splits)
  qed
qed

lemma thread_step_hand:
  assumes "thread_step h s t = Some (Inr (h', s', t'))" and "cb_in_hand t"
  shows "hand_step (thread_event i h s t) s t s' t'"
proof (cases "th_pc t")
  case Scan
  with assms scan_hand [of h s t h' s' t'] show ?thesis by (simp add: thread_step_def)
next
  case Dispatch
  with assms dispatch_hand [of h s t h' s' t'] show ?thesis by (simp add: thread_step_def)
next
  case PostFiber
  with assms post_fiber_hand [of h s t h' s' t'] show ?thesis by (simp add: thread_step_def)
next
  case PostCb
  with assms post_cb_hand [of h s t h' s' t'] show ?thesis by (simp add: thread_step_def)
next
  case InIdle
  with assms show ?thesis
    by (auto simp: thread_step_def idle_turn_def Let_def hand_simps dest!: switched_hand)
qed (use assms in \<open>auto simp: thread_step_def run_back_def run_back_idle_def Let_def hand_simps\<close>)

lemma task_step_hand:
  assumes "task_step how h s t = Some (Inr (h', s', t'))" and "cb_in_hand t"
  shows "hand_step Hidden s t s' t'"
  using assms
  by (auto simp: task_step_def hand_simps split: if_splits dest!: switched_hand)

text \<open>The change of one thread, seen from the pool.\<close>

lemma pool_of_update:
  assumes "i < length ts" and "th_id t' = th_id (ts ! i)"
  shows "pool_of (h', s', ts[i := t']) =
    put_hand i (in_hand t') (pool_of (h, s, ts) \<lparr>tp_pending := sc_fibers s'\<rparr>)"
  using assms by (simp add: pool_of_def put_hand_def map_update)

lemma pool_of_thread:
  "i < length ts \<Longrightarrow> tp_threads (pool_of (h, s, ts)) ! i = (th_id (ts ! i), in_hand (ts ! i))"
  "i < length ts \<Longrightarrow> holds (pool_of (h, s, ts)) i w \<longleftrightarrow> in_hand (ts ! i) = w"
  "tp_pending (pool_of (h, s, ts)) = sc_fibers s"
  by (simp_all add: pool_of_def holds_def)

lemma put_hand_same:
  "i < length ts \<Longrightarrow> put_hand i (in_hand (ts ! i)) (pool_of (h, s, ts)) = pool_of (h, s, ts)"
  by (simp add: pool_of_def put_hand_def list_update_same_conv)

lemma pending_same: "sc_fibers s' = sc_fibers s \<Longrightarrow> pool_of (h, s, ts)\<lparr>tp_pending := sc_fibers s'\<rparr> = pool_of (h, s, ts)"
  by (simp add: pool_of_def)

lemma hand_step_event:
  assumes "hand_step e s (ts ! i) s' t'" and "i < length ts" and e: "e = Hidden \<or> e = thread_event i h s (ts ! i)"
  shows "pool_step (pool_of (h, s, ts)) e (pool_of (h', s', ts[i := t']))"
proof -
  let ?p = "pool_of (h, s, ts)"
  note p = pool_of_thread(1,2) [OF assms(2), of h s] pool_of_thread(3) [of h s ts]
  have c: "hand_changes e s (ts ! i) s' t'" and same: "th_id t' = th_id (ts ! i)"
    using assms(1) by (auto simp: hand_step_def)
  note upd = pool_of_update [OF assms(2) same, of h' s' h s]
  have own: "e = Takes j w \<or> e = Requeues j w f \<or> e = Finishes j w \<or> e = Discards j w \<Longrightarrow> j = i" for j w f
    using e by (auto simp: thread_event_def split: run_pc.splits option.splits if_splits)
  show ?thesis
  proof (cases e)
    case Hidden
    with c have "pool_of (h', s', ts[i := t']) = ?p"
      by (simp add: upd pending_same put_hand_same [OF assms(2)])
    with Hidden show ?thesis by (simp add: pool_step.hidden)
  next
    case (Takes j w)
    then have j: "j = i" using own by blast
    from c Takes obtain pre post where w: "sc_fibers s = pre @ w # post" "sc_fibers s' = pre @ post"
      "in_hand t' = Some w" "list_all (may_pass (th_id (ts ! i))) pre"
      "\<not> pinned_elsewhere (th_id (ts ! i)) w" "item_set w" "in_hand (ts ! i) = None"
      by auto
    from pool_step.takes [of ?p i pre w post] w show ?thesis by (simp add: Takes j upd p)
  next
    case (Requeues j w f)
    then have j: "j = i" using own by blast
    from c Requeues pool_step.requeues [of ?p i w f] show ?thesis by (simp add: Requeues j upd p)
  next
    case (Finishes j w)
    then have j: "j = i" using own by blast
    from c Finishes pool_step.finishes [of ?p i w] show ?thesis by (simp add: Finishes j upd p pending_same)
  next
    case (Discards j w)
    then have j: "j = i" using own by blast
    from c Discards pool_step.discards [of ?p i w] show ?thesis by (simp add: Discards j upd p pending_same)
  qed (use c in simp_all)
qed

text \<open>
  The steps of a scheduler with the event that each of them is, by the operation that it executes
  and the state before it: \<open>schedule\<close> schedules the item that it is called with, if that names a
  fiber or a function.
\<close>

inductive sched_event :: "nat \<Rightarrow> sched_state \<Rightarrow> pool_event \<Rightarrow> sched_state \<Rightarrow> bool" for self where
  enter: "th_pc t = Outside \<Longrightarrow> run_begin self h s t = Inr (h', s', t') \<Longrightarrow>
    sched_event self (h, s, ts) (Arrives (th_id t)) (h', s', ts @ [t'])"
| thread: "i < length ts \<Longrightarrow> thread_step h s (ts ! i) = Some (Inr (h', s', t')) \<Longrightarrow>
    sched_event self (h, s, ts) (thread_event i h s (ts ! i)) (h', s', ts[i := t'])"
| task: "i < length ts \<Longrightarrow> task_step how h s (ts ! i) = Some (Inr (h', s', t')) \<Longrightarrow>
    sched_event self (h, s, ts) Hidden (h', s', ts[i := t'])"
| schedule: "Scheduler_schedule fc thr h s = (h', s') \<Longrightarrow>
    sched_event self (h, s, ts)
      (if item_set (FiberAndThread fc thr) then Scheduled (FiberAndThread fc thr) else Hidden) (h', s', ts)"
| create: "Fiber_new cb sz False h = (f, h') \<Longrightarrow> sched_event self (h, s, ts) Hidden (h', s, ts)"
| auto_stop: "sched_event self (h, s, ts) Hidden (h, s\<lparr>sc_autoStop := True\<rparr>, ts)"
| stopping: "sched_event self (h, s, ts) Hidden (h, s\<lparr>sc_stopping := True\<rparr>, ts)"

text \<open>They are the steps of the scheduler, with the leaks as the discarded fibers.\<close>

lemma sched_event_step: "sched_event self x e y \<Longrightarrow> sched_step self x (discarded e) y"
proof (induction rule: sched_event.induct)
  case (thread i ts h s h' s' t')
  then show ?case unfolding discarded_thread_event by (rule sched_step.thread)
qed (auto intro: sched_step.intros)

lemma sched_step_event: "sched_step self x k y \<Longrightarrow> \<exists>e. sched_event self x e y \<and> discarded e = k"
proof (induction rule: sched_step.induct)
  case (enter t h s h' s' t' ts)
  then show ?case by (intro exI [of _ "Arrives (th_id t)"]) (simp add: sched_event.enter)
next
  case (thread i ts h s h' s' t')
  then show ?case by (metis discarded_thread_event sched_event.thread)
next
  case (schedule fc thr h s h' s' ts)
  from sched_event.schedule [OF schedule.hyps, of self ts] show ?case
    by (intro exI [of _ "if item_set (FiberAndThread fc thr) then Scheduled (FiberAndThread fc thr) else Hidden"]) simp
qed (auto intro!: exI [of _ Hidden] sched_event.intros)

definition hands_ok :: "sched_state \<Rightarrow> bool" where
  "hands_ok x \<longleftrightarrow> (case x of (h, s, ts) \<Rightarrow> list_all cb_in_hand ts)"

lemma run_begin_hand:
  "run_begin self h s t = Inr (h', s', t') \<Longrightarrow> s' = s \<and> th_pc t' = Scan \<and> th_id t' = th_id t"
  by (auto simp: run_begin_def Scheduler_setThis_def Let_def split: sum.splits prod.splits if_splits)

lemma cb_in_hand_at: "list_all cb_in_hand ts \<Longrightarrow> i < length ts \<Longrightarrow> cb_in_hand (ts ! i)"
  by (simp add: list_all_length)

lemma hands_ok_update:
  "list_all cb_in_hand ts \<Longrightarrow> hand_step e s t s' t' \<Longrightarrow> list_all cb_in_hand (ts[i := t'])"
  by (auto simp: hand_step_def list_all_iff dest!: subsetD [OF set_update_subset_insert])

lemma sched_event_pool:
  assumes "sched_event self x e y" and "hands_ok x"
  shows "hands_ok y \<and> pool_step (pool_of x) e (pool_of y)"
  using assms
proof (induction rule: sched_event.induct)
  case (enter t h s h' s' t' ts)
  from run_begin_hand [OF enter.hyps(2)]
  have "pool_of (h', s', ts @ [t']) =
      (pool_of (h, s, ts))\<lparr>tp_threads := tp_threads (pool_of (h, s, ts)) @ [(th_id t, None)]\<rparr>"
    "cb_in_hand t'"
    by (simp_all add: pool_of_def hand_simps)
  with enter.prems pool_step.arrives [of "pool_of (h, s, ts)" "th_id t"] show ?case by (simp add: hands_ok_def)
next
  case (thread i ts h s h' s' t')
  then have ok: "list_all cb_in_hand ts" by (simp add: hands_ok_def)
  note st = thread_step_hand [OF thread.hyps(2) cb_in_hand_at [OF ok thread.hyps(1)], of i]
  from hands_ok_update [OF ok st] hand_step_event [OF st thread.hyps(1), of h h'] show ?case
    by (simp add: hands_ok_def)
next
  case (task i ts how h s h' s' t')
  then have ok: "list_all cb_in_hand ts" by (simp add: hands_ok_def)
  note st = task_step_hand [OF task.hyps(2) cb_in_hand_at [OF ok task.hyps(1)]]
  from hands_ok_update [OF ok st] hand_step_event [OF st task.hyps(1), of h h'] show ?case by (simp add: hands_ok_def)
next
  case (schedule fc thr h s h' s' ts)
  let ?w = "FiberAndThread fc thr"
  show ?case
  proof (cases "item_set ?w")
    case True
    with schedule_puts [OF schedule.hyps]
    have "pool_of (h', s', ts) = (pool_of (h, s, ts))\<lparr>tp_pending := tp_pending (pool_of (h, s, ts)) @ [?w]\<rparr>"
      by (simp add: pool_of_def item_put_def)
    with True schedule.prems pool_step.scheduled [OF True, of "pool_of (h, s, ts)"] show ?thesis
      by (simp add: hands_ok_def)
  next
    case False
    with schedule_puts [OF schedule.hyps] schedule.prems pool_step.hidden [of "pool_of (h, s, ts)"] show ?thesis
      by (simp add: hands_ok_def pool_of_def)
  qed
qed (use pool_step.hidden [of "pool_of (_, _, _)"] in \<open>simp_all add: hands_ok_def pool_of_def pool_step.hidden\<close>)

interpretation sched_pool: refinement_map "sched_event self" hands_ok pool_step pool_of for self
  by unfold_locales (auto dest: sched_event_pool)

text \<open>Every run is one with events, and these count its leaks.\<close>

lemma sched_run_events:
  "sched_run self x k y \<Longrightarrow> \<exists>es. event_run (sched_event self) x es y \<and> sum_list (map discarded es) = k"
proof (induction rule: sched_run.induct)
  case (step x k y l z)
  then obtain es e where "event_run (sched_event self) x es y" "sum_list (map discarded es) = k"
    "sched_event self y e z" "discarded e = l" using sched_step_event by blast
  then show ?case by (intro exI [of _ "es @ [e]"]) (auto intro: event_run.more)
qed (auto intro: event_run.none)

lemma events_sched_run:
  "event_run (sched_event self) x es y \<Longrightarrow> sched_run self x (sum_list (map discarded es)) y"
  by (induction rule: event_run.induct) (auto intro: sched_run.intros dest: sched_event_step)

lemma hands_pool_of: "hands (pool_of (h, s, ts)) = mset (List.map_filter in_hand ts)"
  by (induction ts) (auto simp: hands_def pool_of_def hand_set_def List.map_filter_simps split: option.splits)

text \<open>
  C5: The threads of a scheduler implement the pool of tasks: take any run of them, with the event
  that each step is by the operation executed. The same events are a run of the pool. What was in
  the queue and was scheduled or given back since is in the queue or was taken, as multisets, so no
  item is lost in the queue and none is taken twice; and what was taken is in the hand of a thread
  or was put down, by being given back (when the fiber came back \<open>READY\<close>), finished (with any other
  state), or discarded; the last happens to ended fibers only, and as often as the counter of the
  active threads is left too high.
\<close>

theorem scheduler_refines_pool:
  assumes "event_run (sched_event self) (h0, s0, []) es (h, s, ts)"
  shows "event_run pool_step (pool_of (h0, s0, [])) es (pool_of (h, s, ts)) \<and>
    mset (sc_fibers s) + total taken es = mset (sc_fibers s0) + total entered es \<and>
    mset (List.map_filter in_hand ts) + total put_down es = total taken es \<and>
    sched_run self (h0, s0, []) (sum_list (map discarded es)) (h, s, ts)"
proof -
  have "hands_ok (h0, s0, [])" by (simp add: hands_ok_def)
  with sched_pool.run_simulation [OF assms]
  have es: "event_run pool_step (pool_of (h0, s0, [])) es (pool_of (h, s, ts))" by blast
  from pool_ledger [OF es] es events_sched_run [OF assms] show ?thesis
    by (simp add: hands_pool_of pool_of_thread(3))
qed

text \<open>The runs that can be executed are runs.\<close>

lemma exec_actions_run:
  "exec_actions self as (n, x) = Some (m, y) \<Longrightarrow> sched_run self x0 n x \<Longrightarrow> sched_run self x0 m y"
proof (induction as arbitrary: n x)
  case (Cons a as)
  then obtain k z where "exec_action self a x = Some (k, z)" "exec_actions self as (n + k, z) = Some (m, y)"
    by (auto split: option.splits)
  with Cons show ?case by (blast intro: sched_run.step exec_action_sound)
qed simp

lemma leaked_run: "sched_run 1 pool_start 1 (snd leaked)"
proof -
  obtain r where r: "exec_actions 1 leak_run (0, pool_start) = Some r" using leaked_facts(1) by blast
  then have "leaked = r" by (simp add: leaked_def)
  with r have "exec_actions 1 leak_run (0, pool_start) = Some (fst leaked, snd leaked)" by simp
  from exec_actions_run [OF this sched_run.refl] show ?thesis by (simp add: leaked_facts(2))
qed

lemma leaked_hands: "List.map_filter in_hand (snd (snd (snd leaked))) = []"
  by code_simp

theorem scheduler_refines_pool_witness:
  "\<exists>es. event_run (sched_event 1) pool_start es (snd leaked) \<and>
     event_run pool_step (pool_of pool_start) es (pool_of (snd leaked)) \<and>
     total taken es = total entered es \<and> total put_down es = total taken es \<and>
     sum_list (map discarded es) = 1"
proof -
  obtain es where es: "event_run (sched_event 1) pool_start es (snd leaked)" "sum_list (map discarded es) = 1"
    using sched_run_events [OF leaked_run] by blast
  then have "event_run (sched_event 1) (fiber_heap_new, demo_sched\<lparr>sc_fibers := []\<rparr>, []) es
      (fst (snd leaked), fst (snd (snd leaked)), snd (snd (snd leaked)))"
    by (simp add: pool_start_def)
  from scheduler_refines_pool [OF this] es show ?thesis
    by (intro exI [of _ es]) (simp add: leaked_facts leaked_hands pool_start_def)
qed

section \<open>When stopping holds\<close>

text \<open>
  C37: When \<open>stopping\<close> holds in a reachable state, the queue is empty, no ended fiber was ever
  taken, and no thread is running a task: a thread that still has an item in hand is back from
  it and has decremented \<open>m_activeThreadCount\<close>, but has not yet looked at the fiber's state.
\<close>

theorem stopping_means_done:
  assumes "sched_reach self (h, s, ts) n" and "Scheduler_stopping s" and "busy ts + n < 2 ^ 64"
  shows "sc_fibers s = [] \<and> n = 0 \<and>
    list_all (\<lambda>t. in_hand t = None \<or> th_pc t = PostFiber \<or> th_pc t = PostCb) ts"
proof -
  have "sc_activeThreadCount s = of_nat (busy ts + n)"
    using counters_account_for_threads [OF assms(1)] by simp
  moreover have "unat (of_nat (busy ts + n) :: u64) = busy ts + n"
    using assms(3) by (simp add: unat_of_nat take_bit_nat_eq_self del: of_nat_add)
  ultimately have "busy ts + n = 0"
    using assms(2) by (simp add: Scheduler_stopping_def)
  moreover have "in_hand t = None \<or> th_pc t = PostFiber \<or> th_pc t = PostCb" if "\<not> is_busy t" for t
    using that by (cases "th_pc t") (simp_all add: in_hand_def is_busy_def)
  ultimately show ?thesis
    using assms(2) by (auto simp: Scheduler_stopping_def busy_def filter_empty_conv list_all_iff)
qed

definition requeue_run :: "action list" where
  "requeue_run = [Create 5, Sched (OfFiber (Some 0)) (- 1), Enter 3 ''v'', Enter 4 ''w'', Step 0, Step 0,
     Task 0 YieldReady, Step 0, AutoStop, Stopping]"

definition requeue_state :: sched_state where
  "requeue_state = (case exec_actions 1 requeue_run (0, pool_start) of Some (n, x) \<Rightarrow> x | None \<Rightarrow> pool_start)"

lemma requeue_facts:
  "exec_actions 1 requeue_run (0, pool_start) \<noteq> None"
  "map_option fst (exec_actions 1 requeue_run (0, pool_start)) = Some 0"
  "Scheduler_stopping (fst (snd requeue_state))" "busy (snd (snd requeue_state)) = 0"
  "in_hand (snd (snd requeue_state) ! 0) \<noteq> None"
  "length (snd (snd requeue_state)) = 2"
  by code_simp+

theorem stopping_means_done_witness:
  "sc_fibers (fst (snd requeue_state)) = [] \<and> th_pc (snd (snd requeue_state) ! 0) \<in> {PostFiber, PostCb}"
proof -
  obtain n x where e: "exec_actions 1 requeue_run (0, pool_start) = Some (n, x)"
    using requeue_facts(1) by auto
  then have "n = 0" "x = requeue_state" using requeue_facts(2) by (simp_all add: requeue_state_def)
  with exec_reach [OF e] have "sched_reach 1 (fst requeue_state, fst (snd requeue_state), snd (snd requeue_state)) 0"
    by simp
  from stopping_means_done [OF this] requeue_facts show ?thesis
    by (auto simp: list_all_length dest!: spec [of _ "0 :: nat"])
qed

text \<open>
  The window is real: in that state the other worker sees \<open>stopping\<close>, its idle fiber ends and it
  leaves \<open>run\<close>; then the first one gives its fiber back to the queue.
\<close>

theorem worker_leaves_before_requeue:
  "\<exists>h s ts n. sched_reach 1 (h, s, ts) n \<and>
     (length ts = 2 \<and> th_pc (ts ! 1) = Left \<and> sc_fibers s = [FiberAndThread (OfFiber (Some 0)) (- 1)])"
  by (rule exec_existsI [where as = "requeue_run @ [Step 1, Step 1, Step 1, Step 1, Step 1, Step 1, Step 0]"])
     code_simp

end
