(* ===== verification/Scheduler_Scan.thy ===== *)
theory Scheduler_Scan
  imports Scheduler_Pool
begin

text \<open>
  The scan of the queue (gwn/scheduler.cc, \<open>Scheduler::run\<close>) when it takes its time: the lock keeps
  the queue as it is, but not the states of the fibers, which other threads suspend and resume
  while the scan goes on. The scan is here given the fibers as they are at each of its tests; what
  it takes is still what the pool of tasks allows.
\<close>

fun scan_over ::
  "(nat \<Rightarrow> fiber_heap) \<Rightarrow> nat \<Rightarrow> int \<Rightarrow> fiber_and_thread list \<Rightarrow> bool \<Rightarrow>
     fiber_error + fiber_and_thread option \<times> fiber_and_thread list \<times> bool"
where
  "scan_over hs k tid [] tickle_me = Inr (None, [], tickle_me)"
| "scan_over hs k tid (it # rest) tickle_me =
     (if ft_thread it \<noteq> - 1 \<and> ft_thread it \<noteq> tid then
        (case scan_over hs (Suc k) tid rest True of
           Inl e \<Rightarrow> Inl e | Inr (ft, q, b) \<Rightarrow> Inr (ft, it # q, b))
      else if ft_fiber it = None \<and> ft_cb it = None then Inl AssertionFailed
      else if (\<exists>f \<in> set_option (ft_fiber it). fb_state (fiber_at (hs k) f) = EXEC) then
        (case scan_over hs (Suc k) tid rest tickle_me of
           Inl e \<Rightarrow> Inl e | Inr (ft, q, b) \<Rightarrow> Inr (ft, it # q, b))
      else Inr (Some it, rest, tickle_me \<or> rest \<noteq> []))"

text \<open>When nothing changes it is the scan in one step.\<close>

lemma scan_over_still: "scan_over (\<lambda>_. h) k tid q b = scan_fibers h tid q b"
  by (induction q arbitrary: k b) (simp_all add: scan_fibers.simps)

lemma scan_over_take:
  "item_runnable (hs k) tid it \<Longrightarrow> item_set it \<Longrightarrow> scan_over hs k tid (it # q) b = Inr (Some it, q, b \<or> q \<noteq> [])"
  by (auto simp: item_runnable_def item_set_def split: option.splits)

lemma scan_over_skip:
  "\<not> item_runnable (hs k) tid it \<Longrightarrow> item_set it \<Longrightarrow> scan_over hs k tid (it # q) b =
     (case scan_over hs (Suc k) tid q (b \<or> pinned_elsewhere tid it) of
        Inl e \<Rightarrow> Inl e | Inr (ft, q', b') \<Rightarrow> Inr (ft, it # q', b'))"
  by (auto simp: item_runnable_def item_set_def pinned_elsewhere_def split: option.splits)

declare scan_over.simps(2) [simp del]

lemma scan_over_cases:
  assumes "list_all item_set q"
  shows "(\<exists>b'. scan_over hs k tid q b = Inr (None, q, b') \<and>
      (\<forall>j < length q. \<not> item_runnable (hs (k + j)) tid (q ! j))) \<or>
    (\<exists>pre w post b'. scan_over hs k tid q b = Inr (Some w, pre @ post, b') \<and> q = pre @ w # post \<and>
      item_runnable (hs (k + length pre)) tid w \<and> (\<forall>j < length pre. \<not> item_runnable (hs (k + j)) tid (pre ! j)))"
  using assms
proof (induction q arbitrary: k b)
  case (Cons it q)
  show ?case
  proof (cases "item_runnable (hs k) tid it")
    case True
    with Cons.prems show ?thesis
      by (intro disjI2 exI [of _ "[]"] exI [of _ it] exI [of _ q]) (simp add: scan_over_take)
  next
    case False
    have all: "(\<forall>j < length (it # xs). \<not> item_runnable (hs (k + j)) tid ((it # xs) ! j)) \<longleftrightarrow>
        (\<forall>j < length xs. \<not> item_runnable (hs (Suc k + j)) tid (xs ! j))" for xs
      using False by (auto simp: nth_Cons less_Suc_eq_0_disj split: nat.splits)
    have set: "list_all item_set q" using Cons.prems by simp
    from Cons.IH [OF set, of "Suc k" "b \<or> pinned_elsewhere tid it"] show ?thesis
    proof (elim disjE exE conjE)
      fix b' assume "scan_over hs (Suc k) tid q (b \<or> pinned_elsewhere tid it) = Inr (None, q, b')"
        "\<forall>j < length q. \<not> item_runnable (hs (Suc k + j)) tid (q ! j)"
      with False Cons.prems all [of q] show ?thesis by (simp add: scan_over_skip)
    next
      fix pre w post b'
      assume "scan_over hs (Suc k) tid q (b \<or> pinned_elsewhere tid it) = Inr (Some w, pre @ post, b')"
        "q = pre @ w # post" "item_runnable (hs (Suc k + length pre)) tid w"
        "\<forall>j < length pre. \<not> item_runnable (hs (Suc k + j)) tid (pre ! j)"
      with False Cons.prems all [of pre] show ?thesis
        by (intro disjI2 exI [of _ "it # pre"] exI [of _ w] exI [of _ post]) (simp add: scan_over_skip)
    qed
  qed
qed simp

lemma passed_over: "\<not> item_runnable h tid it \<Longrightarrow> item_set it \<Longrightarrow> may_pass tid it"
  by (auto simp: item_runnable_def item_set_def may_pass_def pinned_elsewhere_def split: option.splits)

lemma runnable_not_pinned: "item_runnable h tid it \<Longrightarrow> \<not> pinned_elsewhere tid it"
  by (auto simp: item_runnable_def pinned_elsewhere_def)

text \<open>
  C6: However the states of the fibers change while a thread scans the queue under the lock, the
  scan fails on no assertion and takes at most one entry, one that the thread could run when it was
  tested, after entries that it could not run when they were tested; the others stay in order.
  Taking that entry is a step of the pool of tasks, so what the pool guarantees does not depend on
  the scan being atomic. When it takes nothing no entry could be run when it was tested.
\<close>

theorem spread_scan_takes:
  assumes "list_all item_set (tp_pending p)" and "holds p i None" and "tid = fst (tp_threads p ! i)"
  shows "\<exists>ft q b. scan_over hs 0 tid (tp_pending p) False = Inr (ft, q, b) \<and>
    (case ft of
       None \<Rightarrow> q = tp_pending p \<and> (\<forall>j < length q. \<not> item_runnable (hs j) tid (q ! j))
     | Some w \<Rightarrow> pool_step p (Takes i w) (put_hand i (Some w) (p\<lparr>tp_pending := q\<rparr>)) \<and>
         (\<exists>k < length (tp_pending p). tp_pending p ! k = w \<and> q = take k (tp_pending p) @ drop (Suc k) (tp_pending p) \<and>
            item_runnable (hs k) tid w \<and> (\<forall>j < k. \<not> item_runnable (hs j) tid (tp_pending p ! j))))"
  using scan_over_cases [OF assms(1), of hs 0 tid False]
proof (elim disjE exE conjE)
  fix pre w post b
  assume scan: "scan_over hs 0 tid (tp_pending p) False = Inr (Some w, pre @ post, b)"
    and q: "tp_pending p = pre @ w # post" and w: "item_runnable (hs (0 + length pre)) tid w"
    and pre: "\<forall>j < length pre. \<not> item_runnable (hs (0 + j)) tid (pre ! j)"
  have set: "item_set w" "list_all item_set pre" using assms(1) by (simp_all add: q)
  have "list_all (may_pass tid) pre"
    using pre set(2) passed_over by (fastforce simp: list_all_length)
  then have "pool_step p (Takes i w) (put_hand i (Some w) (p\<lparr>tp_pending := pre @ post\<rparr>))"
    using assms(2,3) q set(1) runnable_not_pinned [OF w] by (intro pool_step.takes) simp_all
  moreover have "\<exists>k < length (tp_pending p). tp_pending p ! k = w \<and>
      pre @ post = take k (tp_pending p) @ drop (Suc k) (tp_pending p) \<and>
      item_runnable (hs k) tid w \<and> (\<forall>j < k. \<not> item_runnable (hs j) tid (tp_pending p ! j))"
    using w pre by (intro exI [of _ "length pre"]) (simp add: q nth_append)
  ultimately show ?thesis using scan by auto
qed auto

text \<open>
  The first fiber of the queue runs when it is tested and is suspended while the second, whose
  state was not looked at yet, is still to come: the second is taken.
\<close>

definition scan_pool :: task_pool where
  "scan_pool = \<lparr>tp_pending = [FiberAndThread (OfFiber (Some 0)) (- 1), FiberAndThread (OfFiber (Some 1)) (- 1)],
     tp_threads = [(7, None)]\<rparr>"

definition scan_heaps :: "nat \<Rightarrow> fiber_heap" where
  "scan_heaps k = set_state 0 (if k = 0 then EXEC else HOLD) (snd (Fiber_new (Some 2) 0 False
     (snd (Fiber_new (Some 2) 0 False fiber_heap_new))))"

theorem spread_scan_takes_witness:
  "\<exists>q b. scan_over scan_heaps 0 7 (tp_pending scan_pool) False = Inr (Some (FiberAndThread (OfFiber (Some 1)) (- 1)), q, b) \<and>
     pool_step scan_pool (Takes 0 (FiberAndThread (OfFiber (Some 1)) (- 1)))
       (put_hand 0 (Some (FiberAndThread (OfFiber (Some 1)) (- 1))) (scan_pool\<lparr>tp_pending := q\<rparr>)) \<and>
     item_runnable (scan_heaps 1) 7 (FiberAndThread (OfFiber (Some 0)) (- 1))"
proof -
  have p: "list_all item_set (tp_pending scan_pool)" "holds scan_pool 0 None" "7 = fst (tp_threads scan_pool ! 0)"
    by (simp_all add: scan_pool_def item_set_def holds_def)
  have "\<exists>q b. scan_over scan_heaps 0 7 (tp_pending scan_pool) False = Inr (Some (FiberAndThread (OfFiber (Some 1)) (- 1)), q, b)"
    by (simp add: scan_pool_def scan_over.simps scan_heaps_def set_state_def fiber_heap_new_def Fiber_new_def upd_fiber_def emit_def
        Let_def) blast
  moreover have "item_runnable (scan_heaps 1) 7 (FiberAndThread (OfFiber (Some 0)) (- 1))"
    by (simp add: item_runnable_def scan_heaps_def set_state_def fiber_heap_new_def Fiber_new_def upd_fiber_def emit_def Let_def)
  ultimately show ?thesis using spread_scan_takes [OF p, of scan_heaps] by auto
qed

end
