(* ===== verification/Threads.thy ===== *)
theory Threads
  imports Locks Log_Level
begin

text \<open>
  \<open>Thread\<close> (gwn/thread.h, gwn/thread.cc): a thread object, the kernel thread that runs for it,
  and the semaphore through which the constructor waits until the new thread has taken over its
  function, identifier and name. Objects have addresses, indices of \<open>tr_objs\<close>; the handle of
  the kernel thread \<open>i\<close> is \<open>Suc i\<close>, 0 is no thread. A call returns, waits, or touches an object
  that is destroyed or a thread that was given up (\<open>Undefined\<close>).
\<close>

section \<open>State\<close>

text \<open>An object while its constructor waits, afterwards, and when its memory is gone.\<close>

datatype object_phase = Constructing | Constructed | Destroyed

text \<open>\<open>to_cb\<close> is a \<open>std::function\<close>; \<open>None\<close> is the empty one.\<close>

record 'cb thread_object =
  to_id :: int
  to_thread :: nat
  to_cb :: "'cb option"
  to_name :: string
  to_sem :: semaphore
  to_phase :: object_phase

text \<open>Where \<open>Thread::run\<close> is: at its start, before the notification, in the function, at its end.\<close>

datatype start_pc = AtEntry | AtNotify | AtCall | Exited

datatype release_state = Joinable | Joined | Detached

record 'cb kernel_thread =
  kt_arg :: nat
  kt_pc :: start_pc
  kt_gettid :: int
  kt_t_thread :: "nat option"
  kt_t_thread_name :: string
  kt_comm :: string
  kt_cb :: "'cb option"
  kt_state :: release_state

record 'cb threads =
  tr_objs :: "'cb thread_object list"
  tr_kernel :: "'cb kernel_thread list"
  tr_log :: "(log_level \<times> string) list"

definition threads_empty :: "'cb threads" where
  "threads_empty = \<lparr>tr_objs = [], tr_kernel = [], tr_log = []\<rparr>"

definition upd_obj :: "nat \<Rightarrow> ('cb thread_object \<Rightarrow> 'cb thread_object) \<Rightarrow> 'cb threads \<Rightarrow> 'cb threads" where
  "upd_obj a f s = s\<lparr>tr_objs := (tr_objs s)[a := f (tr_objs s ! a)]\<rparr>"

definition upd_kernel :: "nat \<Rightarrow> ('cb kernel_thread \<Rightarrow> 'cb kernel_thread) \<Rightarrow> 'cb threads \<Rightarrow> 'cb threads" where
  "upd_kernel i f s = s\<lparr>tr_kernel := (tr_kernel s)[i := f (tr_kernel s ! i)]\<rparr>"

definition destroyed :: "nat \<Rightarrow> 'cb threads \<Rightarrow> bool" where
  "destroyed a s \<longleftrightarrow> to_phase (tr_objs s ! a) = Destroyed"

section \<open>Construction\<close>

text \<open>
  The constructor up to the wait: \<open>rt\<close> is the result of \<open>pthread_create\<close>, \<open>tid\<close> and \<open>comm\<close> the
  identifier of the new thread and the name it inherits. The result is the address, or the
  exception.
\<close>

definition Thread ::
  "'cb option \<Rightarrow> string \<Rightarrow> int \<Rightarrow> int \<Rightarrow> string \<Rightarrow> 'cb threads \<Rightarrow> 'cb threads \<times> (string + nat)"
where
  "Thread cb name rt tid comm s =
     (if rt \<noteq> 0 then
        (s\<lparr>tr_log := tr_log s @ [(ERROR, ''pthread_create thread fail, rt='' @ dec_int rt @ '' name='' @ name)]\<rparr>,
         Inl ''pthread_create error'')
      else
        (s\<lparr>tr_objs := tr_objs s @ [\<lparr>to_id = - 1, to_thread = Suc (length (tr_kernel s)), to_cb = cb,
             to_name = (if name = [] then ''UNKNOW'' else name), to_sem = 0, to_phase = Constructing\<rparr>],
           tr_kernel := tr_kernel s @ [\<lparr>kt_arg = length (tr_objs s), kt_pc = AtEntry, kt_gettid = tid,
             kt_t_thread = None, kt_t_thread_name = ''UNKNOW'', kt_comm = comm, kt_cb = None,
             kt_state = Joinable\<rparr>]\<rparr>,
         Inr (length (tr_objs s))))"

text \<open>
  The wait at its end. An exception here destroys the members of the object; there is no
  destructor call, so nothing detaches the thread.
\<close>

definition Thread_wait :: "bool \<Rightarrow> nat \<Rightarrow> 'cb threads \<Rightarrow> ('cb threads \<times> string option) call" where
  "Thread_wait interrupted a s =
     (case Semaphore_wait interrupted (to_sem (tr_objs s ! a)) of
        Returns n \<Rightarrow> Returns (upd_obj a (\<lambda>t. t\<lparr>to_sem := n, to_phase := Constructed\<rparr>) s, None)
      | Throws e \<Rightarrow> Returns (upd_obj a (\<lambda>t. t\<lparr>to_phase := Destroyed\<rparr>) s, Some e)
      | Waits \<Rightarrow> Waits
      | Undefined \<Rightarrow> Undefined)"

section \<open>The new thread\<close>

text \<open>The text that \<open>c_str\<close> shows to a C function, and the limit of the kernel on names.\<close>

definition c_str :: "string \<Rightarrow> string" where
  "c_str s = takeWhile (\<lambda>c. c \<noteq> char_of (0 :: nat)) s"

definition pthread_setname_np :: "string \<Rightarrow> string \<Rightarrow> string" where
  "pthread_setname_np name comm = (if 15 < length name then comm else name)"

definition Thread_run_enter :: "nat \<Rightarrow> 'cb threads \<Rightarrow> 'cb threads call" where
  "Thread_run_enter i s =
     (let a = kt_arg (tr_kernel s ! i); thread = tr_objs s ! a
      in if destroyed a s then Undefined
         else Returns (upd_kernel i (\<lambda>k. k\<lparr>kt_t_thread := Some a, kt_t_thread_name := to_name thread,
                  kt_comm := pthread_setname_np (c_str (substr (to_name thread) 0 15)) (kt_comm k),
                  kt_cb := to_cb thread, kt_pc := AtNotify\<rparr>)
                (upd_obj a (\<lambda>t. t\<lparr>to_id := kt_gettid (tr_kernel s ! i), to_cb := None\<rparr>) s)))"

definition Thread_run_notify :: "nat \<Rightarrow> 'cb threads \<Rightarrow> 'cb threads call" where
  "Thread_run_notify i s =
     (let a = kt_arg (tr_kernel s ! i)
      in if destroyed a s then Undefined
         else bind_call (Semaphore_notify (to_sem (tr_objs s ! a))) (\<lambda>n.
                Returns (upd_kernel i (\<lambda>k. k\<lparr>kt_pc := AtCall\<rparr>) (upd_obj a (\<lambda>t. t\<lparr>to_sem := n\<rparr>) s))))"

text \<open>The call of the function and the return; an empty function throws, which ends the program.\<close>

definition Thread_run_return :: "nat \<Rightarrow> 'cb threads \<Rightarrow> 'cb threads call" where
  "Thread_run_return i s =
     (if kt_cb (tr_kernel s ! i) = None then Throws ''bad_function_call''
      else Returns (upd_kernel i (\<lambda>k. k\<lparr>kt_pc := Exited\<rparr>) s))"

text \<open>The static functions, called from the function that the thread runs.\<close>

definition Thread_GetThis :: "nat \<Rightarrow> 'cb threads \<Rightarrow> nat option" where
  "Thread_GetThis i s = kt_t_thread (tr_kernel s ! i)"

definition Thread_GetName :: "nat \<Rightarrow> 'cb threads \<Rightarrow> string" where
  "Thread_GetName i s = kt_t_thread_name (tr_kernel s ! i)"

definition Thread_SetName :: "nat \<Rightarrow> string \<Rightarrow> 'cb threads \<Rightarrow> 'cb threads call" where
  "Thread_SetName i name s =
     (if name = [] then Returns s
      else bind_call
        (case Thread_GetThis i s of
           None \<Rightarrow> Returns s
         | Some a \<Rightarrow> if destroyed a s then Undefined else Returns (upd_obj a (\<lambda>t. t\<lparr>to_name := name\<rparr>) s))
        (\<lambda>s'. Returns (upd_kernel i (\<lambda>k. k\<lparr>kt_t_thread_name := name\<rparr>) s')))"

section \<open>Join and destruction\<close>

definition EDEADLK :: int where
  "EDEADLK = 35"

text \<open>
  \<open>pthread_join\<close>: the kernel thread it names must still be joinable; a thread that joins itself
  gets an error; otherwise it waits for the end of the thread.
\<close>

definition pthread_join :: "nat option \<Rightarrow> nat \<Rightarrow> 'cb threads \<Rightarrow> ('cb threads \<times> int) call" where
  "pthread_join caller h s =
     (let i = h - 1
      in if kt_state (tr_kernel s ! i) \<noteq> Joinable then Undefined
         else if caller = Some i then Returns (s, EDEADLK)
         else if kt_pc (tr_kernel s ! i) \<noteq> Exited then Waits
         else Returns (upd_kernel i (\<lambda>k. k\<lparr>kt_state := Joined\<rparr>) s, 0))"

definition pthread_detach :: "nat \<Rightarrow> 'cb threads \<Rightarrow> 'cb threads call" where
  "pthread_detach h s =
     (if kt_state (tr_kernel s ! (h - 1)) \<noteq> Joinable then Undefined
      else Returns (upd_kernel (h - 1) (\<lambda>k. k\<lparr>kt_state := Detached\<rparr>) s))"

definition Thread_join :: "nat option \<Rightarrow> nat \<Rightarrow> 'cb threads \<Rightarrow> ('cb threads \<times> string option) call" where
  "Thread_join caller a s =
     (let m_thread = to_thread (tr_objs s ! a)
      in if m_thread = 0 then Returns (s, None)
         else bind_call (pthread_join caller m_thread s) (\<lambda>(s', rt).
                if rt \<noteq> 0 then
                  Returns (s'\<lparr>tr_log := tr_log s' @ [(ERROR, ''pthread_join thread fail, rt='' @ dec_int rt @
                     '' name='' @ to_name (tr_objs s ! a))]\<rparr>, Some ''pthread_join error'')
                else Returns (upd_obj a (\<lambda>t. t\<lparr>to_thread := 0\<rparr>) s', None)))"

definition Thread_destroy :: "nat \<Rightarrow> 'cb threads \<Rightarrow> 'cb threads call" where
  "Thread_destroy a s =
     bind_call
       (if to_thread (tr_objs s ! a) \<noteq> 0 then pthread_detach (to_thread (tr_objs s ! a)) s else Returns s)
       (\<lambda>s'. Returns (upd_obj a (\<lambda>t. t\<lparr>to_phase := Destroyed\<rparr>) s'))"

section \<open>Runs\<close>

text \<open>
  The steps of all threads. The waits of constructors are not interrupted by signals here, an
  object is joined or destroyed only after its construction, and only one thread does so.
\<close>

inductive thr_step :: "'cb threads \<Rightarrow> 'cb threads \<Rightarrow> bool" where
  create: "0 < tid \<Longrightarrow> length comm \<le> 15 \<Longrightarrow> Thread cb name rt tid comm s = (s', r) \<Longrightarrow> thr_step s s'"
| wait: "a < length (tr_objs s) \<Longrightarrow> to_phase (tr_objs s ! a) = Constructing \<Longrightarrow>
    Thread_wait False a s = Returns (s', r) \<Longrightarrow> thr_step s s'"
| enter: "i < length (tr_kernel s) \<Longrightarrow> kt_pc (tr_kernel s ! i) = AtEntry \<Longrightarrow>
    Thread_run_enter i s = Returns s' \<Longrightarrow> thr_step s s'"
| notify: "i < length (tr_kernel s) \<Longrightarrow> kt_pc (tr_kernel s ! i) = AtNotify \<Longrightarrow>
    Thread_run_notify i s = Returns s' \<Longrightarrow> thr_step s s'"
| set_name: "i < length (tr_kernel s) \<Longrightarrow> kt_pc (tr_kernel s ! i) = AtCall \<Longrightarrow>
    Thread_SetName i name s = Returns s' \<Longrightarrow> thr_step s s'"
| return: "i < length (tr_kernel s) \<Longrightarrow> kt_pc (tr_kernel s ! i) = AtCall \<Longrightarrow>
    Thread_run_return i s = Returns s' \<Longrightarrow> thr_step s s'"
| join: "a < length (tr_objs s) \<Longrightarrow> to_phase (tr_objs s ! a) = Constructed \<Longrightarrow>
    Thread_join caller a s = Returns (s', r) \<Longrightarrow> thr_step s s'"
| destroy: "a < length (tr_objs s) \<Longrightarrow> to_phase (tr_objs s ! a) = Constructed \<Longrightarrow>
    Thread_destroy a s = Returns s' \<Longrightarrow> thr_step s s'"

inductive thr_reach :: "'cb threads \<Rightarrow> bool" where
  start: "thr_reach threads_empty"
| step: "thr_reach s \<Longrightarrow> thr_step s s' \<Longrightarrow> thr_reach s'"

end
