(* ===== verification/Thread_Facts.thy ===== *)
theory Thread_Facts
  imports Threads
begin

text \<open>
  What \<open>Thread\<close> promises: an invariant that ties every object to its kernel thread in all
  reachable states, the handshake of the constructor (what holds when it returns, and that it
  returns), the release of kernel threads, and the calls that touch a destroyed object.
\<close>

section \<open>The invariant\<close>

text \<open>The new thread has taken over what the object held for it.\<close>

definition taken_over :: "nat \<Rightarrow> 'cb thread_object \<Rightarrow> 'cb kernel_thread \<Rightarrow> bool" where
  "taken_over i t k \<longleftrightarrow> to_id t = kt_gettid k \<and> to_cb t = None \<and> kt_t_thread k = Some i \<and>
     (to_phase t \<noteq> Destroyed \<longrightarrow> to_name t = kt_t_thread_name k)"

definition handshake_ok :: "nat \<Rightarrow> 'cb thread_object \<Rightarrow> 'cb kernel_thread \<Rightarrow> bool" where
  "handshake_ok i t k \<longleftrightarrow>
     (kt_pc k = AtEntry \<longrightarrow> to_phase t = Constructing \<and> to_sem t = 0) \<and>
     (kt_pc k = AtNotify \<longrightarrow> to_phase t = Constructing \<and> to_sem t = 0 \<and> taken_over i t k) \<and>
     (kt_pc k \<in> {AtCall, Exited} \<longrightarrow>
        to_sem t = (if to_phase t = Constructing then 1 else 0) \<and> taken_over i t k)"

definition release_ok :: "nat \<Rightarrow> 'cb thread_object \<Rightarrow> 'cb kernel_thread \<Rightarrow> bool" where
  "release_ok i t k \<longleftrightarrow>
     (if kt_state k = Joinable then to_phase t \<noteq> Destroyed \<and> to_thread t = Suc i
      else to_phase t = Destroyed \<or> to_phase t = Constructed \<and> to_thread t = 0) \<and>
     (kt_state k = Joined \<longrightarrow> kt_pc k = Exited)"

definition pair_ok :: "nat \<Rightarrow> 'cb thread_object \<Rightarrow> 'cb kernel_thread \<Rightarrow> bool" where
  "pair_ok i t k \<longleftrightarrow> kt_arg k = i \<and> 0 < kt_gettid k \<and> length (kt_comm k) \<le> 15 \<and>
     handshake_ok i t k \<and> release_ok i t k"

lemmas pair_defs = pair_ok_def handshake_ok_def release_ok_def taken_over_def

definition threads_ok :: "'cb threads \<Rightarrow> bool" where
  "threads_ok s \<longleftrightarrow> length (tr_kernel s) = length (tr_objs s) \<and>
     (\<forall>i < length (tr_objs s). pair_ok i (tr_objs s ! i) (tr_kernel s ! i))"

lemma threads_ok_pair:
  "threads_ok s \<Longrightarrow> i < length (tr_objs s) \<Longrightarrow> pair_ok i (tr_objs s ! i) (tr_kernel s ! i)"
  by (simp add: threads_ok_def)

lemma threads_ok_length: "threads_ok s \<Longrightarrow> length (tr_kernel s) = length (tr_objs s)"
  by (simp add: threads_ok_def)

text \<open>A change of one object and its kernel thread needs the pair to be right again.\<close>

lemma threads_ok_upd:
  assumes "threads_ok s" and "pair_ok i (f (tr_objs s ! i)) (g (tr_kernel s ! i))"
  shows "threads_ok (upd_kernel i g (upd_obj i f s))"
  using assms by (auto simp: threads_ok_def upd_kernel_def upd_obj_def nth_update)

lemma threads_ok_obj:
  assumes "threads_ok s" and "pair_ok i (f (tr_objs s ! i)) (tr_kernel s ! i)"
  shows "threads_ok (upd_obj i f s)"
  using assms by (auto simp: threads_ok_def upd_obj_def nth_update)

lemma threads_ok_kernel:
  assumes "threads_ok s" and "pair_ok i (tr_objs s ! i) (g (tr_kernel s ! i))"
  shows "threads_ok (upd_kernel i g s)"
  using assms by (auto simp: threads_ok_def upd_kernel_def nth_update)

lemma threads_ok_log [simp]: "threads_ok (s\<lparr>tr_log := l\<rparr>) \<longleftrightarrow> threads_ok s"
  by (simp add: threads_ok_def)

section \<open>Every step keeps it\<close>

lemma short_name: "length (c_str (substr name 0 15)) \<le> 15"
  using length_takeWhile_le [of _ "take 15 name"] by (simp add: c_str_def substr_def le_trans)

lemma threads_ok_append:
  assumes ok: "threads_ok s" and p: "pair_ok (length (tr_objs s)) t k"
  shows "threads_ok (s\<lparr>tr_objs := tr_objs s @ [t], tr_kernel := tr_kernel s @ [k]\<rparr>)"
proof -
  have len: "length (tr_kernel s) = length (tr_objs s)" by (rule threads_ok_length [OF ok])
  have "pair_ok i ((tr_objs s @ [t]) ! i) ((tr_kernel s @ [k]) ! i)" if "i < Suc (length (tr_objs s))" for i
  proof (cases "i < length (tr_objs s)")
    case True
    with threads_ok_pair [OF ok True] len show ?thesis by (simp add: nth_append)
  next
    case False
    with that have "i = length (tr_objs s)" by simp
    with p len show ?thesis by (simp add: nth_append)
  qed
  with len show ?thesis by (simp add: threads_ok_def)
qed

lemma Thread_ok:
  assumes ok: "threads_ok s" and new: "0 < tid" "length comm \<le> 15" "Thread cb name rt tid comm s = (s', r)"
  shows "threads_ok s'"
proof (cases "rt = 0")
  case True
  have "pair_ok (length (tr_objs s))
      \<lparr>to_id = - 1, to_thread = Suc (length (tr_kernel s)), to_cb = cb,
        to_name = (if name = [] then ''UNKNOW'' else name), to_sem = 0, to_phase = Constructing\<rparr>
      \<lparr>kt_arg = length (tr_objs s), kt_pc = AtEntry, kt_gettid = tid, kt_t_thread = None,
        kt_t_thread_name = ''UNKNOW'', kt_comm = comm, kt_cb = None, kt_state = Joinable\<rparr>"
    using new(1,2) threads_ok_length [OF ok] by (simp add: pair_defs)
  from threads_ok_append [OF ok this] new(3) True show ?thesis by (simp add: Thread_def)
next
  case False
  with new(3) ok show ?thesis by (auto simp: Thread_def)
qed

lemma Thread_wait_ok:
  assumes ok: "threads_ok s" and a: "a < length (tr_objs s)" "to_phase (tr_objs s ! a) = Constructing"
    and w: "Thread_wait False a s = Returns (s', r)"
  shows "threads_ok s'"
proof -
  have p: "pair_ok a (tr_objs s ! a) (tr_kernel s ! a)" by (rule threads_ok_pair [OF ok a(1)])
  from w have s: "to_sem (tr_objs s ! a) \<noteq> 0"
    "s' = upd_obj a (\<lambda>t. t\<lparr>to_sem := to_sem (tr_objs s ! a) - 1, to_phase := Constructed\<rparr>) s"
    by (auto simp: Thread_wait_def Semaphore_wait_def split: if_splits)
  show ?thesis
    unfolding s(2) using p a(2) s(1)
    by (intro threads_ok_obj [OF ok]) (cases "kt_pc (tr_kernel s ! a)"; auto simp: pair_defs)
qed

lemma Thread_run_enter_ok:
  assumes ok: "threads_ok s" and i: "i < length (tr_kernel s)" "kt_pc (tr_kernel s ! i) = AtEntry"
  obtains s' where "Thread_run_enter i s = Returns s'" and "threads_ok s'"
    and "kt_pc (tr_kernel s' ! i) = AtNotify" and "tr_objs s' ! i = (tr_objs s ! i)\<lparr>to_id := kt_gettid (tr_kernel s ! i), to_cb := None\<rparr>"
    and "length (tr_kernel s') = length (tr_kernel s)"
proof -
  have p: "pair_ok i (tr_objs s ! i) (tr_kernel s ! i)"
    using threads_ok_pair [OF ok] i(1) threads_ok_length [OF ok] by simp
  let ?g = "\<lambda>k. k\<lparr>kt_t_thread := Some i, kt_t_thread_name := to_name (tr_objs s ! i),
      kt_comm := pthread_setname_np (c_str (substr (to_name (tr_objs s ! i)) 0 15)) (kt_comm k),
      kt_cb := to_cb (tr_objs s ! i), kt_pc := AtNotify\<rparr>"
  let ?f = "\<lambda>t. t\<lparr>to_id := kt_gettid (tr_kernel s ! i), to_cb := None\<rparr>"
  have e: "Thread_run_enter i s = Returns (upd_kernel i ?g (upd_obj i ?f s))"
    using p i(2) by (simp add: Thread_run_enter_def pair_defs destroyed_def Let_def)
  moreover have "threads_ok (upd_kernel i ?g (upd_obj i ?f s))"
    using p i(2) short_name [of "to_name (tr_objs s ! i)"]
    by (intro threads_ok_upd [OF ok]) (auto simp: pair_defs pthread_setname_np_def split: if_splits)
  ultimately show thesis
    using i(1) threads_ok_length [OF ok]
    by (intro that [of "upd_kernel i ?g (upd_obj i ?f s)"]) (simp_all add: upd_kernel_def upd_obj_def)
qed

lemma Thread_run_notify_ok:
  assumes ok: "threads_ok s" and i: "i < length (tr_kernel s)" "kt_pc (tr_kernel s ! i) = AtNotify"
  obtains s' where "Thread_run_notify i s = Returns s'" and "threads_ok s'"
    and "to_sem (tr_objs s' ! i) = 1" and "to_phase (tr_objs s' ! i) = Constructing"
proof -
  have p: "pair_ok i (tr_objs s ! i) (tr_kernel s ! i)"
    using threads_ok_pair [OF ok] i(1) threads_ok_length [OF ok] by simp
  let ?s = "upd_kernel i (\<lambda>k. k\<lparr>kt_pc := AtCall\<rparr>) (upd_obj i (\<lambda>t. t\<lparr>to_sem := 1\<rparr>) s)"
  have "Thread_run_notify i s = Returns ?s"
    using p i(2)
    by (simp add: Thread_run_notify_def pair_defs destroyed_def Let_def Semaphore_notify_def SEM_VALUE_MAX_def)
  moreover have "threads_ok ?s"
    using p i(2) by (intro threads_ok_upd [OF ok]) (auto simp: pair_defs split: if_splits)
  ultimately show thesis
    using p i threads_ok_length [OF ok] by (intro that [of ?s]) (simp_all add: upd_kernel_def upd_obj_def pair_defs)
qed

lemma Thread_SetName_ok:
  assumes ok: "threads_ok s" and i: "i < length (tr_kernel s)" "kt_pc (tr_kernel s ! i) = AtCall"
    and "Thread_SetName i name s = Returns s'"
  shows "threads_ok s'"
proof (cases "name = []")
  case True
  with assms(4) ok show ?thesis by (simp add: Thread_SetName_def)
next
  case False
  have p: "pair_ok i (tr_objs s ! i) (tr_kernel s ! i)"
    using threads_ok_pair [OF ok] i(1) threads_ok_length [OF ok] by simp
  with False i(2) assms(4) have s': "s' = upd_kernel i (\<lambda>k. k\<lparr>kt_t_thread_name := name\<rparr>) (upd_obj i (\<lambda>t. t\<lparr>to_name := name\<rparr>) s)"
    by (auto simp: Thread_SetName_def Thread_GetThis_def pair_defs split: if_splits)
  show ?thesis unfolding s' using p i(2) by (intro threads_ok_upd [OF ok]) (auto simp: pair_defs split: if_splits)
qed

lemma Thread_run_return_ok:
  assumes ok: "threads_ok s" and i: "i < length (tr_kernel s)" "kt_pc (tr_kernel s ! i) = AtCall"
    and "Thread_run_return i s = Returns s'"
  shows "threads_ok s'"
proof -
  have p: "pair_ok i (tr_objs s ! i) (tr_kernel s ! i)"
    using threads_ok_pair [OF ok] i(1) threads_ok_length [OF ok] by simp
  have s': "s' = upd_kernel i (\<lambda>k. k\<lparr>kt_pc := Exited\<rparr>) s"
    using assms(4) by (auto simp: Thread_run_return_def split: if_splits)
  show ?thesis unfolding s' using p i(2) by (intro threads_ok_kernel [OF ok]) (auto simp: pair_defs)
qed

text \<open>A join never names a thread that was given up, and neither does a destruction.\<close>

lemma Thread_join_cases:
  assumes ok: "threads_ok s" and a: "a < length (tr_objs s)" "to_phase (tr_objs s ! a) = Constructed"
  shows "Thread_join caller a s =
    (if to_thread (tr_objs s ! a) = 0 then Returns (s, None)
     else if caller = Some a then
       Returns (s\<lparr>tr_log := tr_log s @ [(ERROR, ''pthread_join thread fail, rt='' @ dec_int EDEADLK @
         '' name='' @ to_name (tr_objs s ! a))]\<rparr>, Some ''pthread_join error'')
     else if kt_pc (tr_kernel s ! a) \<noteq> Exited then Waits
     else Returns (upd_obj a (\<lambda>t. t\<lparr>to_thread := 0\<rparr>) (upd_kernel a (\<lambda>k. k\<lparr>kt_state := Joined\<rparr>) s), None))"
proof -
  have "pair_ok a (tr_objs s ! a) (tr_kernel s ! a)" by (rule threads_ok_pair [OF ok a(1)])
  then show ?thesis using a(2)
    by (auto simp: Thread_join_def pthread_join_def Let_def pair_defs EDEADLK_def split: if_splits)
qed

lemma Thread_join_ok:
  assumes ok: "threads_ok s" and a: "a < length (tr_objs s)" "to_phase (tr_objs s ! a) = Constructed"
    and j: "Thread_join caller a s = Returns (s', r)"
  shows "threads_ok s'"
proof -
  have p: "pair_ok a (tr_objs s ! a) (tr_kernel s ! a)" by (rule threads_ok_pair [OF ok a(1)])
  have swap: "upd_obj a f (upd_kernel a g s) = upd_kernel a g (upd_obj a f s)" for f g
    by (simp add: upd_obj_def upd_kernel_def)
  have "threads_ok (upd_obj a (\<lambda>t. t\<lparr>to_thread := 0\<rparr>) (upd_kernel a (\<lambda>k. k\<lparr>kt_state := Joined\<rparr>) s))"
    if "kt_pc (tr_kernel s ! a) = Exited"
    unfolding swap using p a(2) that by (intro threads_ok_upd [OF ok]) (auto simp: pair_defs split: if_splits)
  with j ok show ?thesis
    unfolding Thread_join_cases [OF ok a] by (auto split: if_splits)
qed

lemma Thread_destroy_ok:
  assumes ok: "threads_ok s" and a: "a < length (tr_objs s)" "to_phase (tr_objs s ! a) = Constructed"
  obtains s' where "Thread_destroy a s = Returns s'" and "threads_ok s'"
    and "kt_state (tr_kernel s' ! a) \<noteq> Joinable"
proof -
  have p: "pair_ok a (tr_objs s ! a) (tr_kernel s ! a)" by (rule threads_ok_pair [OF ok a(1)])
  have swap: "upd_obj a f (upd_kernel a g s) = upd_kernel a g (upd_obj a f s)" for f g
    by (simp add: upd_obj_def upd_kernel_def)
  show thesis
  proof (cases "to_thread (tr_objs s ! a) = 0")
    case True
    with p have "kt_state (tr_kernel s ! a) \<noteq> Joinable" by (auto simp: pair_defs)
    moreover have "threads_ok (upd_obj a (\<lambda>t. t\<lparr>to_phase := Destroyed\<rparr>) s)"
      using p a(2) True by (intro threads_ok_obj [OF ok]) (auto simp: pair_defs split: if_splits)
    ultimately show thesis using True
      by (intro that [of "upd_obj a (\<lambda>t. t\<lparr>to_phase := Destroyed\<rparr>) s"]) (simp_all add: Thread_destroy_def upd_obj_def)
  next
    case False
    let ?s = "upd_kernel a (\<lambda>k. k\<lparr>kt_state := Detached\<rparr>) (upd_obj a (\<lambda>t. t\<lparr>to_phase := Destroyed\<rparr>) s)"
    from False p a(2) have "kt_state (tr_kernel s ! a) = Joinable" "to_thread (tr_objs s ! a) = Suc a"
      by (auto simp: pair_defs split: if_splits)
    then have "Thread_destroy a s = Returns ?s"
      by (simp add: Thread_destroy_def pthread_detach_def swap)
    moreover have "threads_ok ?s"
      using p a(2) by (intro threads_ok_upd [OF ok]) (auto simp: pair_defs split: if_splits)
    ultimately show thesis
      using a(1) threads_ok_length [OF ok] by (intro that [of ?s]) (simp_all add: upd_kernel_def upd_obj_def)
  qed
qed

lemma thr_step_ok: "thr_step s s' \<Longrightarrow> threads_ok s \<Longrightarrow> threads_ok s'"
proof (induction rule: thr_step.induct)
  case (enter i s s')
  then show ?case by (metis Thread_run_enter_ok call.inject(1))
next
  case (notify i s s')
  then show ?case by (metis Thread_run_notify_ok call.inject(1))
next
  case (destroy a s s')
  then show ?case by (metis Thread_destroy_ok call.inject(1))
qed (blast intro: Thread_ok Thread_wait_ok Thread_SetName_ok Thread_run_return_ok Thread_join_ok)+

lemma thr_reach_ok: "thr_reach s \<Longrightarrow> threads_ok s"
proof (induction rule: thr_reach.induct)
  case start
  then show ?case by (simp add: threads_ok_def threads_empty_def)
qed (rule thr_step_ok)

section \<open>Runs for the examples\<close>

definition demo_start :: "unit threads" where
  "demo_start = fst (Thread (Some ()) ''worker'' 0 4711 ''main'' threads_empty)"

definition demo_notified :: "unit threads" where
  "demo_notified = \<lparr>tr_objs = [\<lparr>to_id = 4711, to_thread = 1, to_cb = None, to_name = ''worker'', to_sem = 1,
       to_phase = Constructing\<rparr>],
     tr_kernel = [\<lparr>kt_arg = 0, kt_pc = AtCall, kt_gettid = 4711, kt_t_thread = Some 0,
       kt_t_thread_name = ''worker'', kt_comm = ''worker'', kt_cb = Some (), kt_state = Joinable\<rparr>], tr_log = []\<rparr>"

lemmas demo_eval = demo_start_def demo_notified_def Thread_def threads_empty_def Thread_run_enter_def
  Thread_run_notify_def destroyed_def upd_obj_def upd_kernel_def Semaphore_notify_def SEM_VALUE_MAX_def
  c_str_def substr_def pthread_setname_np_def Thread_wait_def Semaphore_wait_def Thread_destroy_def
  pthread_detach_def char_of_def

lemma demo_steps: "thr_step threads_empty demo_start"
  "bind_call (Thread_run_enter 0 demo_start) (Thread_run_notify 0) = Returns demo_notified"
proof -
  show "thr_step threads_empty demo_start"
    by (rule thr_step.create [of 4711 "''main''" "Some ()" "''worker''" 0 _ _ "Inr 0"]) (simp_all add: demo_eval)
  show "bind_call (Thread_run_enter 0 demo_start) (Thread_run_notify 0) = Returns demo_notified"
    by (simp add: demo_eval)
qed

lemma demo_start_reach: "thr_reach demo_start"
  by (rule thr_reach.step [OF thr_reach.start demo_steps(1)])

lemma demo_notified_reach: "thr_reach demo_notified"
proof -
  obtain s where s: "Thread_run_enter 0 demo_start = Returns s" "Thread_run_notify 0 s = Returns demo_notified"
    using demo_steps(2) by (auto simp: bind_call_Returns)
  have "thr_step demo_start s" by (rule thr_step.enter [OF _ _ s(1)]) (simp_all add: demo_eval)
  moreover have "thr_step s demo_notified"
    by (rule thr_step.notify [OF _ _ s(2)]) (use s(1) in \<open>auto simp: demo_eval\<close>)
  ultimately show ?thesis by (meson thr_reach.step demo_start_reach)
qed

definition demo_constructed :: "unit threads" where
  "demo_constructed = upd_obj 0 (\<lambda>t. t\<lparr>to_sem := 0, to_phase := Constructed\<rparr>) demo_notified"

lemma demo_constructed_reach: "thr_reach demo_constructed"
proof (rule thr_reach.step [OF demo_notified_reach thr_step.wait [of 0]])
  show "Thread_wait False 0 demo_notified = Returns (demo_constructed, None)"
    by (simp add: demo_eval demo_constructed_def)
qed (simp_all add: demo_eval)

definition demo_detached :: "unit threads" where
  "demo_detached = upd_kernel 0 (\<lambda>k. k\<lparr>kt_state := Detached\<rparr>)
     (upd_obj 0 (\<lambda>t. t\<lparr>to_phase := Destroyed\<rparr>) demo_constructed)"

lemma demo_detached_reach: "thr_reach demo_detached"
proof (rule thr_reach.step [OF demo_constructed_reach thr_step.destroy [of 0]])
  show "Thread_destroy 0 demo_constructed = Returns demo_detached"
    by (simp add: demo_eval demo_constructed_def demo_detached_def)
qed (simp_all add: demo_eval demo_constructed_def)

section \<open>The handshake\<close>

text \<open>
  C19: When the constructor of \<open>Thread\<close> has returned, the object's \<open>getId\<close> is the identifier of
  the kernel thread that runs for it (and not the initial -1), the thread has taken the function
  out of the object, and inside it \<open>GetThis\<close> is the object and \<open>GetName\<close> the object's name, whatever
  names are set afterwards and until the object is destroyed.
\<close>

theorem thread_constructed:
  assumes "thr_reach s" and "a < length (tr_objs s)" and "to_phase (tr_objs s ! a) = Constructed"
  shows "to_id (tr_objs s ! a) = kt_gettid (tr_kernel s ! a) \<and> 0 < to_id (tr_objs s ! a) \<and>
    to_cb (tr_objs s ! a) = None \<and> kt_pc (tr_kernel s ! a) \<in> {AtCall, Exited} \<and>
    Thread_GetThis a s = Some a \<and> Thread_GetName a s = to_name (tr_objs s ! a)"
  using threads_ok_pair [OF thr_reach_ok [OF assms(1)] assms(2)] assms(3)
  by (cases "kt_pc (tr_kernel s ! a)") (simp_all add: pair_defs Thread_GetThis_def Thread_GetName_def)

theorem thread_constructed_witness:
  "to_id (tr_objs demo_constructed ! 0) = 4711 \<and> Thread_GetName 0 demo_constructed = ''worker''"
proof -
  have c: "0 < length (tr_objs demo_constructed)" "to_phase (tr_objs demo_constructed ! 0) = Constructed"
    "kt_gettid (tr_kernel demo_constructed ! 0) = 4711" "to_name (tr_objs demo_constructed ! 0) = ''worker''"
    by (simp_all add: demo_constructed_def demo_notified_def upd_obj_def)
  from thread_constructed [OF demo_constructed_reach c(1,2)] c(3,4) show ?thesis by simp
qed

text \<open>The rest of \<open>run\<close> up to the call of the function.\<close>

definition run_to_call :: "nat \<Rightarrow> 'cb threads \<Rightarrow> 'cb threads call" where
  "run_to_call i s =
     (case kt_pc (tr_kernel s ! i) of
        AtEntry \<Rightarrow> bind_call (Thread_run_enter i s) (Thread_run_notify i)
      | AtNotify \<Rightarrow> Thread_run_notify i s
      | _ \<Rightarrow> Returns s)"

lemma run_to_call_ok:
  assumes ok: "threads_ok s" and a: "a < length (tr_objs s)" "to_phase (tr_objs s ! a) = Constructing"
  obtains s' where "run_to_call a s = Returns s'" and "to_sem (tr_objs s' ! a) = 1"
    and "to_phase (tr_objs s' ! a) = Constructing" and "a < length (tr_objs s')"
proof -
  have i: "a < length (tr_kernel s)" using threads_ok_length [OF ok] a(1) by simp
  have len: "length (tr_objs s2) = length (tr_objs s1)" if "Thread_run_notify a s1 = Returns s2" for s1 s2 :: "'a threads"
    using that by (auto simp: Thread_run_notify_def Let_def bind_call_Returns upd_kernel_def upd_obj_def split: if_splits)
  show thesis
  proof (cases "kt_pc (tr_kernel s ! a)")
    case AtEntry
    obtain s1 where 1: "Thread_run_enter a s = Returns s1" "threads_ok s1" "kt_pc (tr_kernel s1 ! a) = AtNotify"
      "length (tr_kernel s1) = length (tr_kernel s)"
      by (rule Thread_run_enter_ok [OF ok i AtEntry])
    obtain s2 where 2: "Thread_run_notify a s1 = Returns s2" "to_sem (tr_objs s2 ! a) = 1"
      "to_phase (tr_objs s2 ! a) = Constructing"
      using Thread_run_notify_ok [OF 1(2) _ 1(3)] 1(4) i by metis
    have "length (tr_objs s1) = length (tr_objs s)"
      using 1(2,4) ok by (simp add: threads_ok_length [symmetric])
    with 1 2 AtEntry len [OF 2(1)] a(1) show thesis by (intro that [of s2]) (simp_all add: run_to_call_def)
  next
    case AtNotify
    obtain s2 where 2: "Thread_run_notify a s = Returns s2" "to_sem (tr_objs s2 ! a) = 1"
      "to_phase (tr_objs s2 ! a) = Constructing"
      using Thread_run_notify_ok [OF ok i AtNotify] by metis
    with AtNotify len [OF 2(1)] a(1) show thesis by (intro that [of s2]) (simp_all add: run_to_call_def)
  qed (use threads_ok_pair [OF ok a(1)] a in \<open>auto intro!: that [of s] simp: run_to_call_def pair_defs\<close>)
qed

text \<open>
  C25: The constructor always returns: in every reachable state in which it waits, the steps that
  the new thread still makes before its function (two at most) succeed, and then the wait returns
  without an exception and the object is constructed. It never returns before: until the
  notification the wait is not enabled.
\<close>

theorem start_terminates:
  assumes "thr_reach s" and "a < length (tr_objs s)" and "to_phase (tr_objs s ! a) = Constructing"
  shows "(\<exists>s1 s2. run_to_call a s = Returns s1 \<and> Thread_wait False a s1 = Returns (s2, None) \<and>
      to_phase (tr_objs s2 ! a) = Constructed) \<and>
    (kt_pc (tr_kernel s ! a) \<in> {AtEntry, AtNotify} \<longrightarrow> Thread_wait False a s = Waits)"
proof
  have ok: "threads_ok s" using thr_reach_ok [OF assms(1)] .
  obtain s1 where "run_to_call a s = Returns s1" "to_sem (tr_objs s1 ! a) = 1"
    "to_phase (tr_objs s1 ! a) = Constructing" "a < length (tr_objs s1)"
    by (rule run_to_call_ok [OF ok assms(2,3)])
  then show "\<exists>s1 s2. run_to_call a s = Returns s1 \<and> Thread_wait False a s1 = Returns (s2, None) \<and>
      to_phase (tr_objs s2 ! a) = Constructed"
    by (simp add: Thread_wait_def Semaphore_wait_def upd_obj_def)
  show "kt_pc (tr_kernel s ! a) \<in> {AtEntry, AtNotify} \<longrightarrow> Thread_wait False a s = Waits"
    using threads_ok_pair [OF ok assms(2)]
    by (auto simp: pair_defs Thread_wait_def Semaphore_wait_def)
qed

theorem start_terminates_witness:
  "Thread_wait False 0 demo_start = Waits \<and> (\<exists>s1. run_to_call 0 demo_start = Returns s1)"
proof -
  have d: "0 < length (tr_objs demo_start)" "to_phase (tr_objs demo_start ! 0) = Constructing"
    "kt_pc (tr_kernel demo_start ! 0) = AtEntry"
    by (simp_all add: demo_start_def Thread_def threads_empty_def)
  from start_terminates [OF demo_start_reach d(1,2)] d(3) show ?thesis by auto
qed

section \<open>Release\<close>

text \<open>
  C34: In every reachable state, the new thread's accesses to its object before the call of its
  function never find it destroyed; joining or destroying a constructed object never names a
  kernel thread that was already joined or detached; a joined thread has ended; and no kernel
  thread is leaked: the one of a destroyed object was joined or detached.
\<close>

theorem threads_released_once:
  assumes "thr_reach s" and "a < length (tr_objs s)"
  shows "(kt_pc (tr_kernel s ! a) = AtEntry \<longrightarrow> (\<exists>s'. Thread_run_enter a s = Returns s')) \<and>
    (kt_pc (tr_kernel s ! a) = AtNotify \<longrightarrow> (\<exists>s'. Thread_run_notify a s = Returns s')) \<and>
    (to_phase (tr_objs s ! a) = Constructed \<longrightarrow>
      Thread_join caller a s \<noteq> Undefined \<and> (\<exists>s'. Thread_destroy a s = Returns s')) \<and>
    (kt_state (tr_kernel s ! a) = Joined \<longrightarrow> kt_pc (tr_kernel s ! a) = Exited) \<and>
    (to_phase (tr_objs s ! a) = Destroyed \<longrightarrow> kt_state (tr_kernel s ! a) \<noteq> Joinable)"
proof -
  have ok: "threads_ok s" using thr_reach_ok [OF assms(1)] .
  have a: "a < length (tr_kernel s)" using threads_ok_length [OF ok] assms(2) by simp
  have p: "pair_ok a (tr_objs s ! a) (tr_kernel s ! a)" by (rule threads_ok_pair [OF ok assms(2)])
  show ?thesis
  proof (intro conjI impI)
    assume "kt_pc (tr_kernel s ! a) = AtEntry"
    then show "\<exists>s'. Thread_run_enter a s = Returns s'" by (rule Thread_run_enter_ok [OF ok a]) blast
  next
    assume "kt_pc (tr_kernel s ! a) = AtNotify"
    then show "\<exists>s'. Thread_run_notify a s = Returns s'" by (rule Thread_run_notify_ok [OF ok a]) blast
  next
    assume "to_phase (tr_objs s ! a) = Constructed"
    then show "\<exists>s'. Thread_destroy a s = Returns s'" by (rule Thread_destroy_ok [OF ok assms(2)]) blast
  qed (use p in \<open>auto simp: Thread_join_cases [OF ok assms(2)] pair_defs split: if_splits\<close>)
qed

theorem threads_released_once_witness:
  "kt_state (tr_kernel demo_detached ! 0) \<noteq> Joinable \<and> Thread_join None 0 demo_constructed \<noteq> Undefined"
proof -
  have "0 < length (tr_objs demo_detached)" "to_phase (tr_objs demo_detached ! 0) = Destroyed"
    "0 < length (tr_objs demo_constructed)" "to_phase (tr_objs demo_constructed ! 0) = Constructed"
    by (simp_all add: demo_detached_def demo_constructed_def demo_notified_def upd_obj_def upd_kernel_def)
  with threads_released_once [OF demo_detached_reach, of 0] threads_released_once [OF demo_constructed_reach, of 0 None]
  show ?thesis by simp
qed

text \<open>
  Names fit the kernel: \<open>run\<close> cuts the name to 15 characters, so \<open>pthread_setname_np\<close> never
  fails and a name without a null character is set as its first 15 characters; in every reachable
  state the kernel's name has at most 15.
\<close>

theorem kernel_name_bounds:
  assumes "thr_reach s" and "i < length (tr_objs s)"
  shows "length (kt_comm (tr_kernel s ! i)) \<le> 15 \<and>
    (\<forall>s'. Thread_run_enter i s = Returns s' \<longrightarrow> list_all (\<lambda>c. c \<noteq> char_of (0 :: nat)) (to_name (tr_objs s ! i)) \<longrightarrow>
      kt_comm (tr_kernel s' ! i) = take 15 (to_name (tr_objs s ! i)))"
proof (intro conjI allI impI)
  have ok: "threads_ok s" using thr_reach_ok [OF assms(1)] .
  have p: "pair_ok i (tr_objs s ! i) (tr_kernel s ! i)" by (rule threads_ok_pair [OF ok assms(2)])
  then show "length (kt_comm (tr_kernel s ! i)) \<le> 15" by (simp add: pair_defs)
  fix s'
  assume e: "Thread_run_enter i s = Returns s'"
    and n: "list_all (\<lambda>c. c \<noteq> char_of (0 :: nat)) (to_name (tr_objs s ! i))"
  have "c_str (substr (to_name (tr_objs s ! i)) 0 15) = take 15 (to_name (tr_objs s ! i))"
    using n set_take_subset [of 15 "to_name (tr_objs s ! i)"]
    by (simp add: c_str_def substr_def takeWhile_eq_all_conv list_all_iff) blast
  with e p assms(2) threads_ok_length [OF ok]
  show "kt_comm (tr_kernel s' ! i) = take 15 (to_name (tr_objs s ! i))"
    by (auto simp: Thread_run_enter_def Let_def upd_kernel_def upd_obj_def pair_defs pthread_setname_np_def
        split: if_splits)
qed

theorem kernel_name_bounds_witness:
  "length (kt_comm (tr_kernel demo_notified ! 0)) \<le> 15"
  using kernel_name_bounds [OF demo_notified_reach, of 0] by (simp add: demo_notified_def)

section \<open>Objects that are gone\<close>

text \<open>
  \<open>t_thread\<close> is never cleared: when a \<open>Thread\<close> object is destroyed without a join, its thread
  goes on detached, \<open>GetThis\<close> returns the dead object, and \<open>SetName\<close> writes into it.
\<close>

theorem detached_thread_dangles:
  assumes "thr_reach s" and "a < length (tr_objs s)" and "to_phase (tr_objs s ! a) = Destroyed"
    and "kt_pc (tr_kernel s ! a) = AtCall" and "name \<noteq> []"
  shows "kt_state (tr_kernel s ! a) = Detached \<and> Thread_GetThis a s = Some a \<and>
    Thread_SetName a name s = Undefined"
proof -
  have "pair_ok a (tr_objs s ! a) (tr_kernel s ! a)"
    by (rule threads_ok_pair [OF thr_reach_ok [OF assms(1)] assms(2)])
  with assms(3-5) show ?thesis
    by (cases "kt_state (tr_kernel s ! a)")
       (simp_all add: pair_defs Thread_GetThis_def Thread_SetName_def destroyed_def)
qed

theorem detached_thread_dangles_witness:
  "Thread_SetName 0 ''x'' demo_detached = Undefined"
  using detached_thread_dangles [OF demo_detached_reach, of 0 "''x''"]
  by (simp add: demo_detached_def demo_constructed_def demo_notified_def upd_obj_def upd_kernel_def)

text \<open>
  A signal handler that interrupts the wait of the constructor makes it throw; the object is
  gone, the kernel thread is neither joined nor detached, and the thread touches the dead object as
  soon as it runs.
\<close>

theorem interrupted_start_dangles:
  assumes "Thread cb name 0 tid comm s = (s1, Inr a)" and "length (tr_kernel s) = length (tr_objs s)"
  shows "\<exists>s2. Thread_wait True a s1 = Returns (s2, Some ''sem_wait error'') \<and>
    kt_state (tr_kernel s2 ! a) = Joinable \<and> Thread_run_enter a s2 = Undefined"
  using assms
  by (auto simp: Thread_def Thread_wait_def Semaphore_wait_def upd_obj_def nth_append
      Thread_run_enter_def destroyed_def)

theorem interrupted_start_dangles_witness:
  "\<exists>s2. Thread_wait True 0 demo_start = Returns (s2, Some ''sem_wait error'') \<and>
     Thread_run_enter 0 s2 = Undefined"
proof -
  have "Thread (Some ()) ''worker'' 0 4711 ''main'' threads_empty = (demo_start, Inr 0)"
    by (simp add: demo_start_def Thread_def threads_empty_def)
  from interrupted_start_dangles [OF this] show ?thesis by (auto simp: threads_empty_def)
qed

end
