(* ===== verification/Scheduler_Start.thy ===== *)
theory Scheduler_Start
  imports Scheduler_Rounds Thread_Facts
begin

text \<open>
  \<open>Scheduler::start\<close> and the end of \<open>Scheduler::stop\<close> over \<open>Thread\<close>: the loop that constructs the
  threads of the pool, with the steps of all other threads in between, and the loop that joins
  them. Shown are what the pool is when \<open>start\<close> returns, when the joins return, and what an
  exception of the constructor leaves behind.
\<close>

section \<open>The two loops\<close>

text \<open>
  The loop of \<open>start\<close> after \<open>k\<close> turns: the addresses stored in \<open>m_threads\<close>, the identifiers pushed
  to \<open>m_threadIds\<close>, and the exception that left it. \<open>nm\<close> gives the names, \<open>cb\<close> is the bound \<open>run\<close>.
  Every constructor waits until its thread has notified it.
\<close>

inductive start_loop ::
  "(nat \<Rightarrow> string) \<Rightarrow> 'cb \<Rightarrow> 'cb threads \<Rightarrow> nat \<Rightarrow> nat list \<Rightarrow> int list \<Rightarrow> string option \<Rightarrow> 'cb threads \<Rightarrow> bool"
  for nm cb s where
  first: "start_loop nm cb s 0 [] [] None s"
| turn: "start_loop nm cb s k as ids None s1 \<Longrightarrow> thr_step\<^sup>*\<^sup>* s1 s2 \<Longrightarrow> 0 < tid \<Longrightarrow> length comm \<le> 15 \<Longrightarrow>
    Thread (Some cb) (nm k) 0 tid comm s2 = (s3, Inr a) \<Longrightarrow> thr_step\<^sup>*\<^sup>* s3 s4 \<Longrightarrow>
    to_phase (tr_objs s4 ! a) = Constructing \<Longrightarrow> Thread_wait False a s4 = Returns (s5, None) \<Longrightarrow>
    start_loop nm cb s (Suc k) (as @ [a]) (ids @ [to_id (tr_objs s5 ! a)]) None s5"
| thrown: "start_loop nm cb s k as ids None s1 \<Longrightarrow> thr_step\<^sup>*\<^sup>* s1 s2 \<Longrightarrow> rt \<noteq> 0 \<Longrightarrow>
    Thread (Some cb) (nm k) rt tid comm s2 = (s3, Inl e) \<Longrightarrow> start_loop nm cb s k as ids (Some e) s3"

text \<open>\<open>m_threads\<close> is resized before the loop, so the places that were not reached are null.\<close>

definition start_members :: "nat \<Rightarrow> nat list \<Rightarrow> nat option list" where
  "start_members n as = map Some as @ replicate (n - length as) None"

text \<open>The loop at the end of \<open>stop\<close>. A null pointer is undefined behaviour.\<close>

fun stop_join_each ::
  "nat option \<Rightarrow> nat option list \<Rightarrow> 'cb threads \<Rightarrow> ('cb threads \<times> string option) call"
where
  "stop_join_each caller [] s = Returns (s, None)"
| "stop_join_each caller (None # thrs) s = Undefined"
| "stop_join_each caller (Some a # thrs) s =
     bind_call (Thread_join caller a s)
       (\<lambda>(s', r). case r of Some e \<Rightarrow> Returns (s', Some e) | None \<Rightarrow> stop_join_each caller thrs s')"

section \<open>What a thread carries\<close>

text \<open>
  The kernel thread of the object \<open>a\<close> has the identifier \<open>tid\<close> and, once it has taken them
  over, the function and the name that the constructor got.
\<close>

definition carries :: "nat \<Rightarrow> 'cb option \<Rightarrow> string \<Rightarrow> int \<Rightarrow> 'cb threads \<Rightarrow> bool" where
  "carries a cb name tid s \<longleftrightarrow> a < length (tr_objs s) \<and> kt_gettid (tr_kernel s ! a) = tid \<and>
     (if kt_pc (tr_kernel s ! a) = AtEntry then to_cb (tr_objs s ! a) = cb \<and> to_name (tr_objs s ! a) = name
      else kt_cb (tr_kernel s ! a) = cb \<and> kt_comm (tr_kernel s ! a) = c_str (substr name 0 15))"

lemma carries_bound: "carries a cb name tid s \<Longrightarrow> a < length (tr_objs s)"
  by (simp add: carries_def)

lemma obj_at: "a < length (tr_objs s) \<Longrightarrow>
    tr_objs (upd_obj b f s) ! a = (if a = b then f (tr_objs s ! a) else tr_objs s ! a)"
  by (simp add: upd_obj_def)

lemma kernel_at: "a < length (tr_kernel s) \<Longrightarrow>
    tr_kernel (upd_kernel b g s) ! a = (if a = b then g (tr_kernel s ! a) else tr_kernel s ! a)"
  by (simp add: upd_kernel_def)

lemma upd_other [simp]:
  "tr_kernel (upd_obj b f s) = tr_kernel s" "length (tr_objs (upd_obj b f s)) = length (tr_objs s)"
  "tr_objs (upd_kernel b g s) = tr_objs s" "length (tr_kernel (upd_kernel b g s)) = length (tr_kernel s)"
  by (simp_all add: upd_obj_def upd_kernel_def)

lemma carries_new:
  assumes "threads_ok s" and "Thread cb name 0 tid comm s = (s', Inr a)" and "name \<noteq> []"
  shows "carries a cb name tid s' \<and> a = length (tr_objs s)"
  using assms threads_ok_length [OF assms(1)]
  by (auto simp: Thread_def carries_def nth_append)

lemma carries_step:
  assumes "thr_step s s'" and "threads_ok s" and "carries a cb name tid s"
  shows "carries a cb name tid s'"
  using assms
proof (induction rule: thr_step.induct)
  case (create tid' comm cb' name' rt s s' r)
  then show ?case
    by (auto simp: Thread_def carries_def nth_append threads_ok_length split: if_splits)
next
  case (wait b s s' r)
  then show ?case
    by (auto simp: Thread_wait_def carries_def obj_at split: call.splits)
next
  case (enter i s s')
  from threads_ok_pair [OF enter.prems(1), of i] enter short_name [of name] show ?case
    by (auto simp: Thread_run_enter_def Let_def carries_def obj_at kernel_at threads_ok_length
        pair_ok_def pthread_setname_np_def split: if_splits)
next
  case (notify i s s')
  then show ?case
    by (auto simp: Thread_run_notify_def Let_def bind_call_Returns carries_def obj_at kernel_at
        threads_ok_length split: if_splits)
next
  case (set_name i name' s s')
  from threads_ok_pair [OF set_name.prems(1), of i] set_name show ?case
    by (auto simp: Thread_SetName_def Thread_GetThis_def bind_call_Returns carries_def obj_at kernel_at
        threads_ok_length pair_defs split: if_splits option.splits)
next
  case (return i s s')
  then show ?case
    by (auto simp: Thread_run_return_def carries_def kernel_at threads_ok_length split: if_splits)
next
  case (join b s caller s' r)
  then show ?case
    by (auto simp: Thread_join_cases carries_def obj_at kernel_at threads_ok_length split: if_splits)
next
  case (destroy b s s')
  then show ?case
    by (auto simp: Thread_destroy_def pthread_detach_def bind_call_Returns carries_def obj_at kernel_at
        threads_ok_length split: if_splits)
qed

lemma thr_steps_ok:
  "thr_step\<^sup>*\<^sup>* s s' \<Longrightarrow> threads_ok s \<Longrightarrow> threads_ok s' \<and> (carries a cb name tid s \<longrightarrow> carries a cb name tid s')"
proof (induction rule: rtranclp_induct)
  case (step y z)
  then show ?case using thr_step_ok carries_step by blast
qed simp

text \<open>It is past the handshake once it has been, and then what it carries is taken over.\<close>

definition started :: "nat \<Rightarrow> 'cb threads \<Rightarrow> bool" where
  "started a s \<longleftrightarrow> kt_pc (tr_kernel s ! a) \<in> {AtCall, Exited}"

lemma started_step:
  assumes "thr_step s s'" and "threads_ok s" and "started a s" and "a < length (tr_objs s)"
  shows "started a s'"
  using assms
proof (induction rule: thr_step.induct)
  case (create tid' comm cb' name' rt s s' r)
  then show ?case by (auto simp: Thread_def started_def nth_append threads_ok_length split: if_splits)
next
  case (wait b s s' r)
  then show ?case by (auto simp: Thread_wait_def started_def split: call.splits)
next
  case (enter i s s')
  then show ?case
    by (auto simp: Thread_run_enter_def Let_def started_def kernel_at threads_ok_length split: if_splits)
next
  case (notify i s s')
  then show ?case
    by (auto simp: Thread_run_notify_def Let_def bind_call_Returns started_def kernel_at threads_ok_length split: if_splits)
next
  case (set_name i name' s s')
  then show ?case
    by (auto simp: Thread_SetName_def bind_call_Returns started_def kernel_at threads_ok_length
        split: if_splits option.splits)
next
  case (return i s s')
  then show ?case by (auto simp: Thread_run_return_def started_def kernel_at threads_ok_length split: if_splits)
next
  case (join b s caller s' r)
  then show ?case by (auto simp: Thread_join_cases started_def kernel_at threads_ok_length split: if_splits)
next
  case (destroy b s s')
  then show ?case
    by (auto simp: Thread_destroy_def pthread_detach_def bind_call_Returns started_def kernel_at
        threads_ok_length split: if_splits)
qed

definition launched :: "nat \<Rightarrow> 'cb option \<Rightarrow> string \<Rightarrow> int \<Rightarrow> 'cb threads \<Rightarrow> bool" where
  "launched a cb name tid s \<longleftrightarrow> carries a cb name tid s \<and> started a s"

lemma thr_steps_launched:
  "thr_step\<^sup>*\<^sup>* s s' \<Longrightarrow> threads_ok s \<Longrightarrow> launched a cb name tid s \<Longrightarrow> launched a cb name tid s'"
proof (induction rule: rtranclp_induct)
  case (step y z)
  then have ok: "threads_ok y" using thr_steps_ok by blast
  from step have y: "carries a cb name tid y" "started a y" by (simp_all add: launched_def)
  from carries_step [OF step.hyps(2) ok y(1)] started_step [OF step.hyps(2) ok y(2) carries_bound [OF y(1)]]
  show ?case by (simp add: launched_def)
qed simp

lemma constructed_launched:
  assumes "threads_ok s" and "carries a cb name tid s" and "to_phase (tr_objs s ! a) = Constructed"
  shows "launched a cb name tid s \<and> to_id (tr_objs s ! a) = tid"
  using threads_ok_pair [OF assms(1), of a] assms(2,3)
  by (cases "kt_pc (tr_kernel s ! a)") (auto simp: launched_def started_def carries_def pair_defs)

definition pool_ok :: "(nat \<Rightarrow> string) \<Rightarrow> 'cb \<Rightarrow> nat list \<Rightarrow> int list \<Rightarrow> 'cb threads \<Rightarrow> bool" where
  "pool_ok nm cb as ids s \<longleftrightarrow> threads_ok s \<and> distinct as \<and> length ids = length as \<and>
     (\<forall>i < length as. launched (as ! i) (Some cb) (nm i) (ids ! i) s)"

lemma pool_ok_steps: "pool_ok nm cb as ids s \<Longrightarrow> thr_step\<^sup>*\<^sup>* s s' \<Longrightarrow> pool_ok nm cb as ids s'"
  using thr_steps_ok thr_steps_launched by (fastforce simp: pool_ok_def)

lemma pool_ok_fresh: "pool_ok nm cb as ids s \<Longrightarrow> length (tr_objs s) \<notin> set as"
  by (fastforce simp: pool_ok_def launched_def carries_def in_set_conv_nth)

lemma pool_ok_add:
  assumes "pool_ok nm cb as ids s" and "launched a (Some cb) (nm (length as)) tid s" and "a \<notin> set as"
  shows "pool_ok nm cb (as @ [a]) (ids @ [tid]) s"
  using assms by (auto simp: pool_ok_def nth_append less_Suc_eq)

lemma objs_grow_step: "thr_step s s' \<Longrightarrow> length (tr_objs s) \<le> length (tr_objs s')"
proof (induction rule: thr_step.induct)
  case (create tid comm cb name rt s s' r)
  then show ?case by (auto simp: Thread_def split: if_splits)
next
  case (join a s caller s' r)
  then show ?case
    by (auto simp: Thread_join_def pthread_join_def Let_def bind_call_Returns split: if_splits)
qed (auto simp: Thread_wait_def Thread_run_enter_def Thread_run_notify_def Thread_SetName_def
  Thread_run_return_def Thread_destroy_def pthread_detach_def Let_def bind_call_Returns
  split: if_splits call.splits option.splits)

lemma objs_grow: "thr_step\<^sup>*\<^sup>* s s' \<Longrightarrow> length (tr_objs s) \<le> length (tr_objs s')"
  by (induction rule: rtranclp_induct) (auto dest: objs_grow_step)

lemma Thread_wait_phase:
  "Thread_wait False a s = Returns (s', r) \<Longrightarrow> a < length (tr_objs s) \<Longrightarrow> to_phase (tr_objs s' ! a) = Constructed"
  by (auto simp: Thread_wait_def Semaphore_wait_def obj_at split: if_splits)

lemma start_loop_ok:
  assumes "start_loop nm cb s k as ids e s'" and "threads_ok s" and "\<And>i. nm i \<noteq> []"
  shows "pool_ok nm cb as ids s' \<and> length as = k"
  using assms(1)
proof (induction rule: start_loop.induct)
  case first
  with assms(2) show ?case by (simp add: pool_ok_def)
next
  case (turn k as ids s1 s2 tid comm s3 a s4 s5)
  have p2: "pool_ok nm cb as ids s2" using turn.IH pool_ok_steps [OF _ turn.hyps(2)] by blast
  then have ok2: "threads_ok s2" by (simp add: pool_ok_def)
  have new: "thr_step s2 s3" using thr_step.create [OF turn.hyps(3,4,5)] .
  have c3: "carries a (Some cb) (nm k) tid s3" "a = length (tr_objs s2)"
    using carries_new [OF ok2 turn.hyps(5) assms(3)] by blast+
  have to4: "thr_step\<^sup>*\<^sup>* s2 s4" using new turn.hyps(6) by (rule converse_rtranclp_into_rtranclp)
  have "a < length (tr_objs s4)"
    using thr_steps_ok [OF turn.hyps(6) thr_step_ok [OF new ok2]] c3(1) by (auto simp: carries_def)
  then have w: "thr_step s4 s5" "to_phase (tr_objs s5 ! a) = Constructed"
    using thr_step.wait [OF _ turn.hyps(7,8)] Thread_wait_phase [OF turn.hyps(8)] by simp_all
  have p5: "pool_ok nm cb as ids s5" using pool_ok_steps [OF p2 rtranclp.rtrancl_into_rtrancl [OF to4 w(1)]] .
  have "carries a (Some cb) (nm k) tid s5"
    using thr_steps_ok [OF rtranclp.rtrancl_into_rtrancl [OF turn.hyps(6) w(1)] thr_step_ok [OF new ok2]] c3(1) by blast
  then have "launched a (Some cb) (nm k) tid s5" "to_id (tr_objs s5 ! a) = tid"
    using constructed_launched [of s5 a "Some cb" "nm k" tid] p5 w(2) by (simp_all add: pool_ok_def)
  with pool_ok_add [OF p5, of a tid] pool_ok_fresh [OF p2] c3(2) turn.IH show ?case by simp
next
  case (thrown k as ids s1 s2 rt tid comm s3 e)
  have p2: "pool_ok nm cb as ids s2" using thrown.IH pool_ok_steps [OF _ thrown.hyps(2)] by blast
  from thrown.hyps(3,4) have "s3 = s2\<lparr>tr_log := tr_log s3\<rparr>" by (auto simp: Thread_def split: if_splits)
  moreover have "pool_ok nm cb as ids (s2\<lparr>tr_log := l\<rparr>)" for l
    using p2 by (simp add: pool_ok_def launched_def carries_def started_def)
  ultimately show ?case using thrown.IH by metis
qed

section \<open>start\<close>

definition pool_name :: "scheduler \<Rightarrow> nat \<Rightarrow> string" where
  "pool_name sc i = sc_name sc @ ''_'' @ dec_nat i"

text \<open>
  C20: When \<open>start\<close> returns on a stopped scheduler without threads, \<open>m_threadIds\<close> has grown by the
  identifiers of the kernel threads of the pool, in order and as many as \<open>m_threadCount\<close>; the
  thread objects are different, each is the \<open>GetThis\<close> of its kernel thread, which has passed the
  handshake, runs the function bound in \<open>start\<close>, and has the first 15 characters of \<open>name_i\<close> as its
  name; whatever other threads of the process did meanwhile.
\<close>

theorem start_launches_pool:
  assumes "thr_reach s0" and "start_loop (pool_name sc) cb s0 (unat (sc_threadCount sc)) as ids None s"
    and "sc_stopping sc" and "sc_threads sc = []"
  shows "\<exists>sc'. Scheduler_start ((!) ids) sc = Inr sc' \<and> \<not> sc_stopping sc' \<and>
    sc_threadIds sc' = sc_threadIds sc @ ids \<and> map fst (sc_threads sc') = ids \<and>
    distinct as \<and> length as = unat (sc_threadCount sc) \<and>
    list_all (\<lambda>i. kt_gettid (tr_kernel s ! (as ! i)) = ids ! i \<and> Thread_GetThis (as ! i) s = Some (as ! i) \<and>
      kt_pc (tr_kernel s ! (as ! i)) \<in> {AtCall, Exited} \<and> kt_cb (tr_kernel s ! (as ! i)) = Some cb \<and>
      kt_comm (tr_kernel s ! (as ! i)) = c_str (substr (snd (sc_threads sc' ! i)) 0 15))
      [0..<unat (sc_threadCount sc)]"
proof -
  let ?n = "unat (sc_threadCount sc)"
  have p: "pool_ok (pool_name sc) cb as ids s" "length as = ?n"
    using start_loop_ok [OF assms(2) thr_reach_ok [OF assms(1)]] by (simp_all add: pool_name_def)
  then have ids: "map ((!) ids) [0..<?n] = ids" by (metis map_nth pool_ok_def)
  have "kt_gettid (tr_kernel s ! (as ! i)) = ids ! i \<and> Thread_GetThis (as ! i) s = Some (as ! i) \<and>
      kt_pc (tr_kernel s ! (as ! i)) \<in> {AtCall, Exited} \<and> kt_cb (tr_kernel s ! (as ! i)) = Some cb \<and>
      kt_comm (tr_kernel s ! (as ! i)) = c_str (substr (pool_name sc i) 0 15)" if "i < ?n" for i
  proof -
    have l: "launched (as ! i) (Some cb) (pool_name sc i) (ids ! i) s" "threads_ok s"
      using p that by (simp_all add: pool_ok_def)
    then have "as ! i < length (tr_objs s)" by (simp add: launched_def carries_def)
    from threads_ok_pair [OF l(2) this] l(1) show ?thesis
      by (auto simp: launched_def carries_def started_def pair_defs Thread_GetThis_def split: if_splits)
  qed
  with p ids assms(3,4) show ?thesis
    by (auto simp: Scheduler_start_def Let_def list_all_iff pool_name_def comp_def pool_ok_def)
qed

text \<open>A pool of one thread, for the instances.\<close>

lemma run_to_call_steps:
  assumes "run_to_call i s = Returns s'" and "i < length (tr_kernel s)"
  shows "thr_step\<^sup>*\<^sup>* s s'"
proof (cases "kt_pc (tr_kernel s ! i)")
  case AtEntry
  with assms(1) obtain s1 where 1: "Thread_run_enter i s = Returns s1" "Thread_run_notify i s1 = Returns s'"
    by (auto simp: run_to_call_def bind_call_Returns)
  have "i < length (tr_kernel s1)" "kt_pc (tr_kernel s1 ! i) = AtNotify"
    using 1(1) assms(2) by (auto simp: Thread_run_enter_def Let_def kernel_at split: if_splits)
  with thr_step.enter [OF assms(2) AtEntry 1(1)] thr_step.notify [OF _ _ 1(2)] show ?thesis by auto
next
  case AtNotify
  with assms thr_step.notify [OF assms(2) AtNotify, of s'] show ?thesis by (auto simp: run_to_call_def)
qed (use assms in \<open>simp_all add: run_to_call_def\<close>)

definition demo_pool :: "start_pc \<Rightarrow> unit threads" where
  "demo_pool pc = \<lparr>tr_objs = [\<lparr>to_id = 7, to_thread = 1, to_cb = None, to_name = ''test_0'', to_sem = 0,
       to_phase = Constructed\<rparr>],
     tr_kernel = [\<lparr>kt_arg = 0, kt_pc = pc, kt_gettid = 7, kt_t_thread = Some 0,
       kt_t_thread_name = ''test_0'', kt_comm = ''test_0'', kt_cb = Some (), kt_state = Joinable\<rparr>], tr_log = []\<rparr>"

lemma demo_pool_loop: "start_loop (pool_name demo_sched) () threads_empty 1 [0] [7] None (demo_pool AtCall)"
proof -
  let ?s3 = "fst (Thread (Some ()) (pool_name demo_sched 0) 0 7 ''main'' threads_empty)"
  let ?s4 = "upd_obj 0 (\<lambda>t. t\<lparr>to_sem := 1, to_phase := Constructing\<rparr>) (demo_pool AtCall)"
  have nm: "pool_name demo_sched 0 = ''test_0''" by code_simp
  have "run_to_call 0 ?s3 = Returns ?s4"
    by (simp add: run_to_call_def demo_eval demo_pool_def nm)
  then have "thr_step\<^sup>*\<^sup>* ?s3 ?s4" by (rule run_to_call_steps) (simp add: Thread_def threads_empty_def)
  moreover have "Thread_wait False 0 ?s4 = Returns (demo_pool AtCall, None)"
    by (simp add: demo_eval demo_pool_def)
  moreover have "Thread (Some ()) (pool_name demo_sched 0) 0 7 ''main'' threads_empty = (?s3, Inr 0)"
    by (simp add: Thread_def threads_empty_def)
  ultimately show ?thesis
    using start_loop.turn [OF start_loop.first rtranclp.rtrancl_refl, of 7 "''main''" "()" "pool_name demo_sched"
        threads_empty ?s3 0 ?s4 "demo_pool AtCall"]
    by (simp add: upd_obj_def demo_pool_def)
qed

theorem start_launches_pool_witness:
  "\<exists>sc'. Scheduler_start ((!) [7]) demo_sched = Inr sc' \<and> sc_threadIds sc' = [7] \<and>
     kt_comm (tr_kernel (demo_pool AtCall) ! 0) = c_str (substr (snd (sc_threads sc' ! 0)) 0 15)"
proof -
  have d: "unat (sc_threadCount demo_sched) = 1" "sc_stopping demo_sched" "sc_threads demo_sched = []"
    "sc_threadIds demo_sched = []"
    by (simp_all add: demo_sched_def)
  have "start_loop (pool_name demo_sched) () threads_empty (unat (sc_threadCount demo_sched)) [0] [7] None (demo_pool AtCall)"
    using demo_pool_loop d(1) by simp
  from start_launches_pool [OF thr_reach.start this d(2,3)] d show ?thesis by auto
qed

section \<open>The joins of stop\<close>

lemma join_each_exited:
  assumes "thr_reach s" and "distinct as" and "list_all (\<lambda>a. a < length (tr_objs s) \<and>
      to_phase (tr_objs s ! a) = Constructed \<and> to_thread (tr_objs s ! a) \<noteq> 0 \<and> caller \<noteq> Some a \<and>
      kt_pc (tr_kernel s ! a) = Exited) as"
  shows "\<exists>s'. stop_join_each caller (map Some as @ rest) s = stop_join_each caller rest s' \<and> thr_reach s' \<and>
    list_all (\<lambda>a. kt_state (tr_kernel s' ! a) = Joined \<and> to_thread (tr_objs s' ! a) = 0) as \<and>
    length (tr_objs s') = length (tr_objs s) \<and>
    (\<forall>b. b \<notin> set as \<longrightarrow> tr_objs s' ! b = tr_objs s ! b \<and> tr_kernel s' ! b = tr_kernel s ! b)"
  using assms
proof (induction as arbitrary: s)
  case (Cons a as)
  let ?s = "upd_obj a (\<lambda>t. t\<lparr>to_thread := 0\<rparr>) (upd_kernel a (\<lambda>k. k\<lparr>kt_state := Joined\<rparr>) s)"
  have ok: "threads_ok s" using thr_reach_ok Cons.prems(1) .
  have a: "a < length (tr_objs s)" "to_phase (tr_objs s ! a) = Constructed" using Cons.prems(3) by simp_all
  have j: "Thread_join caller a s = Returns (?s, None)"
    using Thread_join_cases [OF ok a, of caller] Cons.prems(3) by simp
  have reach: "thr_reach ?s" using thr_reach.step [OF Cons.prems(1) thr_step.join [OF a j]] .
  have other: "tr_objs ?s ! b = tr_objs s ! b" "tr_kernel ?s ! b = tr_kernel s ! b" if "b \<noteq> a" for b
    using that by (simp_all add: upd_obj_def upd_kernel_def)
  have "list_all (\<lambda>b. b < length (tr_objs ?s) \<and> to_phase (tr_objs ?s ! b) = Constructed \<and>
      to_thread (tr_objs ?s ! b) \<noteq> 0 \<and> caller \<noteq> Some b \<and> kt_pc (tr_kernel ?s ! b) = Exited) as"
    using Cons.prems(2,3) other by (fastforce simp: list_all_iff)
  from Cons.IH [OF reach _ this] Cons.prems(2) obtain s' where
    s': "stop_join_each caller (map Some as @ rest) ?s = stop_join_each caller rest s'" "thr_reach s'"
      "list_all (\<lambda>a. kt_state (tr_kernel s' ! a) = Joined \<and> to_thread (tr_objs s' ! a) = 0) as"
      "length (tr_objs s') = length (tr_objs ?s)"
      "\<And>b. b \<notin> set as \<Longrightarrow> tr_objs s' ! b = tr_objs ?s ! b \<and> tr_kernel s' ! b = tr_kernel ?s ! b"
    by auto
  have "kt_state (tr_kernel s' ! a) = Joined \<and> to_thread (tr_objs s' ! a) = 0"
    using s'(5) [of a] Cons.prems(2) a(1) threads_ok_length [OF ok] by (simp add: upd_obj_def upd_kernel_def)
  with s' j other show ?case by (intro exI [of _ s']) auto
qed (auto intro: exI [of _ s for s])

lemma join_each_waits:
  assumes "thr_reach s" and "distinct as" and "list_all (\<lambda>a. a < length (tr_objs s) \<and>
      to_phase (tr_objs s ! a) = Constructed \<and> to_thread (tr_objs s ! a) \<noteq> 0 \<and> caller \<noteq> Some a) as"
    and "\<not> list_all (\<lambda>a. kt_pc (tr_kernel s ! a) = Exited) as"
  shows "stop_join_each caller (map Some as @ rest) s = Waits"
proof -
  let ?ex = "\<lambda>a. kt_pc (tr_kernel s ! a) = Exited"
  obtain pre b post where as: "as = pre @ b # post" "\<not> ?ex b" and ex: "\<forall>a \<in> set pre. ?ex a"
    using split_list_first_prop [of as "\<lambda>a. \<not> ?ex a"] assms(4) by (auto simp: list_all_iff)
  have pre: "distinct pre" "b \<notin> set pre" using assms(2) as(1) by simp_all
  have "list_all (\<lambda>a. a < length (tr_objs s) \<and> to_phase (tr_objs s ! a) = Constructed \<and>
      to_thread (tr_objs s ! a) \<noteq> 0 \<and> caller \<noteq> Some a \<and> ?ex a) pre"
    using assms(3) as(1) ex by (simp add: list_all_iff)
  from join_each_exited [OF assms(1) pre(1) this, of "map Some (b # post) @ rest"] pre(2) obtain s' where
    s': "stop_join_each caller (map Some pre @ map Some (b # post) @ rest) s =
        stop_join_each caller (map Some (b # post) @ rest) s'" "thr_reach s'"
      "length (tr_objs s') = length (tr_objs s)" "tr_objs s' ! b = tr_objs s ! b" "tr_kernel s' ! b = tr_kernel s ! b"
    by blast
  have "b \<in> set as" by (simp add: as(1))
  with assms(3) have b: "b < length (tr_objs s')" "to_phase (tr_objs s' ! b) = Constructed"
    "to_thread (tr_objs s' ! b) \<noteq> 0" "caller \<noteq> Some b"
    using s'(3,4) by (simp_all add: list_all_iff)
  have "map Some as @ rest = map Some pre @ map Some (b # post) @ rest"
    by (simp add: as(1))
  with s' b as(2) Thread_join_cases [OF thr_reach_ok [OF s'(2)] b(1,2), of caller] show ?thesis by simp
qed

text \<open>
  C21: The joins at the end of \<open>stop\<close>, called outside the pool: they return, without an exception
  and with every worker joined exactly once, when all workers have left \<open>run\<close>, and wait otherwise.
\<close>

theorem stop_joins_workers:
  assumes "thr_reach s" and "distinct as" and "list_all (\<lambda>a. a < length (tr_objs s) \<and>
      to_phase (tr_objs s ! a) = Constructed \<and> to_thread (tr_objs s ! a) \<noteq> 0 \<and> caller \<noteq> Some a) as"
  shows "if list_all (\<lambda>a. kt_pc (tr_kernel s ! a) = Exited) as
    then \<exists>s'. stop_join_each caller (map Some as) s = Returns (s', None) \<and> thr_reach s' \<and>
      list_all (\<lambda>a. kt_state (tr_kernel s' ! a) = Joined \<and> to_thread (tr_objs s' ! a) = 0) as
    else stop_join_each caller (map Some as) s = Waits"
proof (cases "list_all (\<lambda>a. kt_pc (tr_kernel s ! a) = Exited) as")
  case True
  with assms(3) have "list_all (\<lambda>a. a < length (tr_objs s) \<and> to_phase (tr_objs s ! a) = Constructed \<and>
      to_thread (tr_objs s ! a) \<noteq> 0 \<and> caller \<noteq> Some a \<and> kt_pc (tr_kernel s ! a) = Exited) as"
    by (simp add: list_all_iff)
  from join_each_exited [OF assms(1,2) this, of "[]"] True show ?thesis by auto
next
  case False
  with join_each_waits [OF assms False, of "[]"] show ?thesis by simp
qed

lemma thr_steps_reach: "thr_step\<^sup>*\<^sup>* s s' \<Longrightarrow> thr_reach s \<Longrightarrow> thr_reach s'"
  by (induction rule: rtranclp_induct) (auto intro: thr_reach.step)

lemma start_loop_reach: "start_loop nm cb s k as ids e s' \<Longrightarrow> thr_reach s \<Longrightarrow> thr_reach s'"
proof (induction rule: start_loop.induct)
  case (turn k as ids s1 s2 tid comm s3 a s4 s5)
  have r4: "thr_reach s4"
    using turn thr_steps_reach thr_reach.step thr_step.create by metis
  have "a < length (tr_objs s3)" using turn.hyps(5) by (auto simp: Thread_def split: if_splits)
  then have "a < length (tr_objs s4)" using objs_grow [OF turn.hyps(6)] by simp
  with r4 turn.hyps(7,8) show ?case by (blast intro: thr_reach.step thr_step.wait)
next
  case (thrown k as ids s1 s2 rt tid comm s3 e)
  have "Thread (Some cb) (nm k) rt 1 [] s2 = (s3, Inl e)"
    using thrown.hyps(3,4) by (simp add: Thread_def)
  from thr_step.create [OF _ _ this] thrown thr_steps_reach show ?case
    by (metis list.size(3) thr_reach.step zero_le zero_less_one)
qed

lemma demo_pool_reach: "thr_reach (demo_pool Exited)"
proof (rule thr_reach.step [OF start_loop_reach [OF demo_pool_loop thr_reach.start]])
  show "thr_step (demo_pool AtCall) (demo_pool Exited)"
    by (rule thr_step.return [of 0]) (simp_all add: demo_pool_def Thread_run_return_def upd_kernel_def)
qed

theorem stop_joins_workers_witness:
  "\<exists>s'. stop_join_each None [Some 0] (demo_pool Exited) = Returns (s', None) \<and> kt_state (tr_kernel s' ! 0) = Joined"
  using stop_joins_workers [OF demo_pool_reach, of "[0]" None] by (auto simp: demo_pool_def)

section \<open>An exception in start\<close>

text \<open>
  C40: When \<open>pthread_create\<close> fails in the loop of \<open>start\<close>, the exception leaves null pointers in
  \<open>m_threads\<close>, which was resized before; a later \<open>stop\<close> joins the threads that were started,
  once they have exited, and then calls \<open>join\<close> through a null pointer.
\<close>

theorem failed_start_breaks_stop:
  assumes "thr_reach s0" and "start_loop (pool_name sc) cb s0 k as ids (Some e) s" and "k < n"
    and "list_all (\<lambda>a. to_phase (tr_objs s ! a) = Constructed \<and> to_thread (tr_objs s ! a) \<noteq> 0 \<and>
      caller \<noteq> Some a \<and> kt_pc (tr_kernel s ! a) = Exited) as"
  shows "length (start_members n as) = n \<and> start_members n as ! k = None \<and>
    stop_join_each caller (start_members n as) s = Undefined"
proof -
  have p: "pool_ok (pool_name sc) cb as ids s" "length as = k"
    using start_loop_ok [OF assms(2) thr_reach_ok [OF assms(1)]] by (simp_all add: pool_name_def)
  then have "list_all (\<lambda>a. a < length (tr_objs s)) as"
    by (auto simp: list_all_length pool_ok_def launched_def carries_def)
  with assms(4) have all: "list_all (\<lambda>a. a < length (tr_objs s) \<and> to_phase (tr_objs s ! a) = Constructed \<and>
      to_thread (tr_objs s ! a) \<noteq> 0 \<and> caller \<noteq> Some a \<and> kt_pc (tr_kernel s ! a) = Exited) as"
    by (simp add: list_all_iff)
  have nulls: "replicate (n - k) None = None # replicate (n - Suc k) None"
    using assms(3) by (simp add: Suc_diff_Suc replicate_Suc [symmetric] del: replicate_Suc)
  have null: "stop_join_each caller (replicate (n - k) None) s' = Undefined" for s' :: "'a threads"
    by (simp add: nulls)
  have "distinct as" using p(1) by (simp add: pool_ok_def)
  from join_each_exited [OF start_loop_reach [OF assms(2,1)] this all, of "replicate (n - k) None"]
  show ?thesis using p(2) assms(3) null by (auto simp: start_members_def nth_append)
qed

theorem failed_start_breaks_stop_witness:
  "\<exists>s. stop_join_each None (start_members 2 []) (s :: unit threads) = Undefined"
proof -
  have "start_loop (pool_name demo_sched) () threads_empty 0 [] [] (Some ''pthread_create error'')
      (fst (Thread (Some ()) (pool_name demo_sched 0) 11 1 [] threads_empty))"
    by (rule start_loop.thrown [OF start_loop.first rtranclp.rtrancl_refl, where rt = 11 and tid = 1 and comm = "[]"])
       (simp_all add: Thread_def)
  from failed_start_breaks_stop [OF thr_reach.start this, of 2 None] show ?thesis by auto
qed

end
