(* ===== verification/Config_Threads.thy ===== *)
theory Config_Threads
  imports Guarded Config_Facts
begin

text \<open>
  The operations of a configuration variable (gwn/config.h) as threads call them: sections under
  scoped guards on the read-write lock of the variable. \<open>setValue\<close> has two, the comparison and
  the listeners under the read lock and the assignment under the write lock; all others have one.
  The loop over the listeners takes a step per listener, \<open>addListener\<close> a step per access of the
  counter \<open>s_fun_id\<close>. Listeners act on the state \<open>'w\<close> of the program and do not call the variable.
\<close>

section \<open>The sections of the operations\<close>

record ('v, 'w) var_state =
  vs_var :: "('v, 'w) config_var"
  vs_fun_id :: u64
  vs_world :: 'w

datatype ('v, 'w) var_work =
    Getting
  | Printing
  | Finding u64
  | Comparing 'v
  | Notifying 'v "(u64, ('v, 'w) listener option) std_map" "(u64, ('v, 'w) listener option) std_map"
  | Storing 'v
  | Loading "('v, 'w) listener option"
  | Incrementing "('v, 'w) listener option" u64
  | Assigning "('v, 'w) listener option"
  | Answering "('v, 'w) listener option"
  | Erasing u64
  | Clearing

datatype ('v, 'w) var_answer =
    Value 'v
  | Text string messages
  | Found "('v, 'w) listener option"
  | Ident u64
  | Finished
  | Threw string

fun var_mode :: "('v, 'w) var_work \<Rightarrow> mode" where
  "var_mode Getting = Shared"
| "var_mode Printing = Shared"
| "var_mode (Finding key) = Shared"
| "var_mode (Comparing v) = Shared"
| "var_mode (Notifying v called todo) = Shared"
| "var_mode _ = Exclusive"

text \<open>
  The work of the sections. \<open>Notifying\<close> has the listeners that were called and those that are
  left; \<open>addListener\<close> reads the counter, writes it, reads it for the assignment to the map and
  once more for its result.
\<close>

fun var_body :: "(('v, 'w) var_work, ('v, 'w) var_answer, ('v, 'w) var_state) section_body" where
  "var_body Getting s = (s, Inr (Inl (Value (ConfigVar_getValue (vs_var s)))))"
| "var_body Printing s =
     (s, Inr (Inl (case ConfigVar_toString (vs_var s) of (text, ms) \<Rightarrow> Text text ms)))"
| "var_body (Finding key) s = (s, Inr (Inl (Found (ConfigVar_getListener key (vs_var s)))))"
| "var_body (Comparing v) s =
     (s, if vt_eq (cv_type (vs_var s)) v (cv_val (vs_var s)) then Inr (Inl Finished)
         else Inl (Notifying v [] (cv_cbs (vs_var s))))"
| "var_body (Notifying v called []) s = (s, Inr (Inr (Storing v)))"
| "var_body (Notifying v called ((key, cb) # todo)) s =
     (case call_listener cb (cv_val (vs_var s)) v (vs_world s) of
        (w, Some what) \<Rightarrow> (s\<lparr>vs_world := w\<rparr>, Inr (Inl (Threw what)))
      | (w, None) \<Rightarrow> (s\<lparr>vs_world := w\<rparr>, Inl (Notifying v (called @ [(key, cb)]) todo)))"
| "var_body (Storing v) s = (s\<lparr>vs_var := setValue_store v (vs_var s)\<rparr>, Inr (Inl Finished))"
| "var_body (Loading cb) s = (s, Inl (Incrementing cb (vs_fun_id s)))"
| "var_body (Incrementing cb n) s = (s\<lparr>vs_fun_id := n + 1\<rparr>, Inl (Assigning cb))"
| "var_body (Assigning cb) s =
     (s\<lparr>vs_var := (vs_var s)\<lparr>cv_cbs := map_assign (vs_fun_id s) cb (cv_cbs (vs_var s))\<rparr>\<rparr>, Inl (Answering cb))"
| "var_body (Answering cb) s = (s, Inr (Inl (Ident (vs_fun_id s))))"
| "var_body (Erasing key) s = (s\<lparr>vs_var := ConfigVar_delListener key (vs_var s)\<rparr>, Inr (Inl Finished))"
| "var_body Clearing s = (s\<lparr>vs_var := ConfigVar_clearListener (vs_var s)\<rparr>, Inr (Inl Finished))"

text \<open>The first section of each operation.\<close>

fun var_call :: "('v, 'w) var_work \<Rightarrow> bool" where
  "var_call (Notifying v called todo) \<longleftrightarrow> False"
| "var_call (Storing v) \<longleftrightarrow> False"
| "var_call (Incrementing cb n) \<longleftrightarrow> False"
| "var_call (Assigning cb) \<longleftrightarrow> False"
| "var_call (Answering cb) \<longleftrightarrow> False"
| "var_call _ \<longleftrightarrow> True"

fun var_early :: "('v, 'w) var_work \<Rightarrow> nat" where
  "var_early (Comparing v) = 1"
| "var_early _ = 0"

fun var_late :: "('v, 'w) var_work \<Rightarrow> nat" where
  "var_late (Notifying v called todo) = length todo + 1"
| "var_late (Loading cb) = 3"
| "var_late (Incrementing cb n) = 2"
| "var_late (Assigning cb) = 1"
| "var_late _ = 0"

definition var_fixed :: "('v, 'w) var_state \<Rightarrow> ('v, 'w) config_var \<times> u64" where
  "var_fixed s = (vs_var s, vs_fun_id s)"

abbreviation var_step :: "(rwmutex, ('v, 'w) var_state, ('v, 'w) var_work, ('v, 'w) var_answer) section_state \<Rightarrow>
    (rwmutex, ('v, 'w) var_state, ('v, 'w) var_work, ('v, 'w) var_answer) section_state \<Rightarrow> bool"
where
  "var_step \<equiv> section_step rw_guards var_mode var_body"

abbreviation var_reach :: "('v, 'w) var_state \<Rightarrow>
    (rwmutex, ('v, 'w) var_state, ('v, 'w) var_work, ('v, 'w) var_answer) section_state \<Rightarrow> bool"
where
  "var_reach \<equiv> section_reach rw_guards var_mode var_body var_call RWMutex"

interpretation var: guarded_object rw_guards rw_holds var_mode var_body var_fixed var_early var_late
proof unfold_locales
  show "var_mode w' = var_mode w" if "var_body w s = (s', Inl w')" for w w' s s'
    using that by (induction w s rule: var_body.induct) (auto split: if_splits prod.splits option.splits)
  show "var_fixed s' = var_fixed s" if "var_mode w = Shared" "var_body w s = (s', n)" for w s s' n
    using that by (induction w s rule: var_body.induct) (auto simp: var_fixed_def split: if_splits prod.splits option.splits)
  show "var_early w' < var_early w \<or> var_early w' = var_early w \<and> var_late w' < var_late w"
    if "var_body w s = (s', Inl w') \<or> var_body w s = (s', Inr (Inr w'))" for w w' s s'
    using that by (induction w s rule: var_body.induct) (auto split: if_splits prod.splits option.splits)
qed (rule rw_new)

section \<open>Sections exclude each other\<close>

text \<open>What a thread can rely on where it is.\<close>

definition var_sees :: "(('v, 'w) var_work, ('v, 'w) var_answer) section_pc \<Rightarrow> ('v, 'w) var_state \<Rightarrow> bool" where
  "var_sees pc s = (case pc of
     Entering w \<Rightarrow> var_call w \<or> (\<exists>v. w = Storing v)
   | Inside (Notifying v called todo) \<Rightarrow>
       cv_cbs (vs_var s) = called @ todo \<and> \<not> vt_eq (cv_type (vs_var s)) v (cv_val (vs_var s))
   | Inside (Incrementing cb n) \<Rightarrow> n = vs_fun_id s
   | Inside (Answering cb) \<Rightarrow> map_find (cv_cbs (vs_var s)) (vs_fun_id s) = Some cb
   | Leaving k (Inr w) \<Rightarrow> \<exists>v. w = Storing v
   | _ \<Rightarrow> True)"

definition var_sorted :: "('v, 'w) var_state \<Rightarrow> bool" where
  "var_sorted s \<longleftrightarrow> map_sorted (cv_cbs (vs_var s))"

lemma var_body_sorted: "var_body w s = (s', n) \<Longrightarrow> var_sorted s \<Longrightarrow> var_sorted s'"
  by (induction w s rule: var_body.induct)
    (auto simp: var_sorted_def setValue_store_def ConfigVar_delListener_def ConfigVar_clearListener_def
      map_sorted_assign map_sorted_erase split: prod.splits option.splits)

lemma var_body_sees:
  "var_body w s = (s', n) \<Longrightarrow> var_sorted s \<Longrightarrow> var_sees (Inside w) s \<Longrightarrow>
     var_sees (case n of Inl w' \<Rightarrow> Inside w' | Inr r \<Rightarrow> Leaving (var_mode w) r) s'"
  by (induction w s rule: var_body.induct)
    (auto simp: var_sees_def var_sorted_def map_find_assign split: if_splits prod.splits option.splits)

lemma var_reach_sees:
  assumes "var_reach s0 (m, s, pcs)" and "var_sorted s0"
  shows "\<forall>pc \<in> set pcs. var_sees pc s"
proof -
  have "var_sorted (fst (snd (m, s, pcs))) \<and> (\<forall>pc \<in> set (snd (snd (m, s, pcs))). var_sees pc (fst (snd (m, s, pcs))))"
  proof (rule var.reach_threads [where Q = var_sorted and P = var_sees, OF assms(1) rw_free assms(2)])
    show "var_sorted s'" if "var_body w s = (s', n)" "var_sorted s" for w s s' n
      by (rule var_body_sorted [OF that])
    show "var_sees pc s'" if "var_fixed s' = var_fixed s" "var_sees pc s" for pc s s'
      using that by (auto simp: var_sees_def var_fixed_def split: section_pc.splits var_work.splits sum.splits)
    show "var_sees pc s'" if "pc_mode var_mode pc = None" "var_sees pc s" for pc s s'
      using that by (cases pc) (auto simp: var_sees_def pc_mode_def)
    show "var_sees pc' s'"
      if "section_thread rw_guards var_mode var_body t m s pc = Returns (m', s', pc')" "var_sorted s" "var_sees pc s"
      for t m s pc m' s' pc'
    proof (cases pc)
      case (Inside w)
      obtain s1 n where "var_body w s = (s1, n)" by fastforce
      with var_body_sees [OF this] that Inside show ?thesis by (cases n) (auto simp: section_thread_def)
    next
      case (Entering w)
      with that show ?thesis
        by (cases w) (auto simp: section_thread_def bind_call_Returns var_sees_def)
    qed (use that in \<open>auto simp: section_thread_def bind_call_Returns var_sees_def split: sum.splits\<close>)
  qed (auto simp: var_sees_def)
  then show ?thesis by simp
qed

lemma var_reach_holds: "var_reach s0 (m, s, pcs) \<Longrightarrow> rw_holds m (held var_mode pcs)"
  using var.reach_holds_locks [OF _ rw_free] by fastforce

lemma var_step_keeps:
  assumes "var_reach s0 (m, s, pcs)" and "i < length pcs" and "pcs ! i = Inside w" and "var_mode w = Shared"
    and "var_step (m, s, pcs) (m', s', pcs')"
  shows "var_fixed s' = var_fixed s"
  using assms(5)
proof (cases rule: section_step.cases)
  case (step j pc)
  show ?thesis
  proof (cases "j = i")
    case True
    then show ?thesis
      using step(3) assms(3) var.shared [OF assms(4)]
      by (auto simp: section_thread_def split: prod.splits sum.splits)
  next
    case False
    show ?thesis
      by (rule var.others_keep [OF var_reach_holds [OF assms(1)] assms(2) step(2) False _ step(3)])
        (simp add: assms(3) pc_mode_def)
  qed
qed

definition var_init :: "('v, 'w) config_var \<Rightarrow> u64 \<Rightarrow> 'w \<Rightarrow> ('v, 'w) var_state" where
  "var_init cv n w = \<lparr>vs_var = cv, vs_fun_id = n, vs_world = w\<rparr>"

text \<open>
  C28: While a thread is in a section of a variable, however many others call its operations:
  in an exclusive section it is alone, and in a shared one no step of any thread changes the
  variable. So \<open>setValue\<close> walks over the listeners as they stand, those called followed by
  those left, with a value that still differs from the current one; and the id that
  \<open>addListener\<close> is about to return has its listener.
\<close>

theorem var_sections_undisturbed:
  assumes "var_reach (var_init cv n w0) (m, s, pcs)" and "map_sorted (cv_cbs cv)"
    and "i < length pcs" and "pcs ! i = Inside w"
  shows "(var_mode w = Exclusive \<longrightarrow> (\<forall>j < length pcs. pc_mode var_mode (pcs ! j) \<noteq> None \<longrightarrow> j = i)) \<and>
    (var_mode w = Shared \<longrightarrow> (\<forall>m' s' pcs'. var_step (m, s, pcs) (m', s', pcs') \<longrightarrow> vs_var s' = vs_var s)) \<and>
    (\<forall>v called todo. w = Notifying v called todo \<longrightarrow>
       cv_cbs (vs_var s) = called @ todo \<and> \<not> vt_eq (cv_type (vs_var s)) v (cv_val (vs_var s))) \<and>
    (\<forall>cb. w = Answering cb \<longrightarrow> map_find (cv_cbs (vs_var s)) (vs_fun_id s) = Some cb)"
proof -
  have "var_sees (Inside w) s"
    using var_reach_sees [OF assms(1)] assms(2-) by (metis nth_mem var_sorted_def var_init_def var_state.select_convs(1))
  moreover have "\<forall>j < length pcs. pc_mode var_mode (pcs ! j) \<noteq> None \<longrightarrow> j = i" if "var_mode w = Exclusive"
    using var.sections_exclude [OF var_reach_holds [OF assms(1)] assms(3)] that assms(4)
    by (simp add: pc_mode_def)
  moreover have "vs_var s' = vs_var s" if "var_mode w = Shared" "var_step (m, s, pcs) (m', s', pcs')" for m' s' pcs'
    using var_step_keeps [OF assms(1,3,4) that] by (simp add: var_fixed_def)
  ultimately show ?thesis by (auto simp: var_sees_def)
qed

text \<open>Two threads set the variable; the first has called one listener of two.\<close>

definition demo_moves :: "(nat, (nat \<times> nat \<times> nat) list) var_work move list" where
  "demo_moves = [Begin 0 (Comparing 8), Begin 1 (Comparing 9), Go 0, Go 1, Go 0, Go 0]"

lemma demo_moves_reach:
  "\<exists>m s pc. var_reach (var_init demo_var 2 []) (m, s, [Inside (Notifying 8 [(1, Some (recorder 4))] [(2, Some (recorder 5))]), pc]) \<and>
     vs_world s = [(4, 7, 8)]"
proof -
  have "section_moves rw_guards var_mode var_body var_call demo_moves
      (RWMutex, var_init demo_var 2 [], replicate 2 (Outside None)) = Some (RWMutex\<lparr>rw_readers := [1, 0]\<rparr>,
        (var_init demo_var 2 [])\<lparr>vs_world := [(4, 7, 8)]\<rparr>,
        [Inside (Notifying 8 [(1, Some (recorder 4))] [(2, Some (recorder 5))]), Inside (Comparing 9)])"
    by (simp add: demo_moves_def numeral_2_eq_2 section_thread_def rw_guards_def guard_defs RWMutex_rdlock_def
        RWMutex_def var_init_def call_listener_def recorder_def)
  from moves_reach [OF section_reach.start this] show ?thesis by fastforce
qed

theorem var_sections_undisturbed_witness:
  "\<exists>m s pc. var_reach (var_init demo_var 2 []) (m, s, [Inside (Notifying 8 [(1, Some (recorder 4))] [(2, Some (recorder 5))]), pc]) \<and>
     cv_cbs (vs_var s) = [(1, Some (recorder 4)), (2, Some (recorder 5))] \<and>
     (\<forall>m' s' pcs'. var_step (m, s, [Inside (Notifying 8 [(1, Some (recorder 4))] [(2, Some (recorder 5))]), pc]) (m', s', pcs') \<longrightarrow>
        vs_var s' = vs_var s)"
proof -
  obtain m s pc where r: "var_reach (var_init demo_var 2 [])
      (m, s, [Inside (Notifying 8 [(1, Some (recorder 4))] [(2, Some (recorder 5))]), pc])"
    using demo_moves_reach by blast
  from var_sections_undisturbed [OF r, of 0 "Notifying 8 [(1, Some (recorder 4))] [(2, Some (recorder 5))]"] r
  show ?thesis by (auto intro!: exI [of _ m] exI [of _ s] exI [of _ pc])
qed

section \<open>The calls end\<close>

text \<open>
  C13: However the threads that call the operations of a variable are scheduled, their calls come
  to an end: the steps of the calls that were begun cannot go on for ever, and as long as one of
  them has not returned some thread can take a step.
\<close>

theorem var_calls_finish:
  assumes "var_reach s0 x"
  shows "(\<nexists>f. f 0 = x \<and> (\<forall>k. var_step (f k) (f (Suc k)))) \<and>
    (\<forall>y. var_step\<^sup>*\<^sup>* x y \<longrightarrow> (\<exists>z. var_step y z) \<or> (\<forall>pc \<in> set (snd (snd y)). \<exists>r. pc = Outside r))"
  using var.no_infinite_run var.calls_end [OF assms rw_free] by metis

theorem var_calls_finish_witness:
  "\<exists>m s pc. var_reach (var_init demo_var 2 []) (m, s, [Inside (Notifying 8 [(1, Some (recorder 4))] [(2, Some (recorder 5))]), pc]) \<and>
     (\<exists>z. var_step (m, s, [Inside (Notifying 8 [(1, Some (recorder 4))] [(2, Some (recorder 5))]), pc]) z)"
proof -
  obtain m s pc where r: "var_reach (var_init demo_var 2 [])
      (m, s, [Inside (Notifying 8 [(1, Some (recorder 4))] [(2, Some (recorder 5))]), pc])"
    using demo_moves_reach by blast
  with var_calls_finish [OF r] show ?thesis by fastforce
qed

section \<open>A call alone\<close>

text \<open>The operations as the sequential model has them.\<close>

fun var_alone :: "('v, 'w) var_work \<Rightarrow> ('v, 'w) var_state \<Rightarrow> ('v, 'w) var_state \<times> ('v, 'w) var_answer" where
  "var_alone Getting s = (s, Value (ConfigVar_getValue (vs_var s)))"
| "var_alone Printing s = (s, case ConfigVar_toString (vs_var s) of (text, ms) \<Rightarrow> Text text ms)"
| "var_alone (Finding key) s = (s, Found (ConfigVar_getListener key (vs_var s)))"
| "var_alone (Comparing v) s =
     (case ConfigVar_setValue v (vs_var s) (vs_world s) of
        (cv, w, e) \<Rightarrow> (s\<lparr>vs_world := w, vs_var := cv\<rparr>, case e of None \<Rightarrow> Finished | Some what \<Rightarrow> Threw what))"
| "var_alone (Loading cb) s =
     (case ConfigVar_addListener cb (vs_fun_id s) (vs_var s) of
        (ident, n, cv) \<Rightarrow> (s\<lparr>vs_fun_id := n, vs_var := cv\<rparr>, Ident ident))"
| "var_alone (Erasing key) s = (s\<lparr>vs_var := ConfigVar_delListener key (vs_var s)\<rparr>, Finished)"
| "var_alone Clearing s = (s\<lparr>vs_var := ConfigVar_clearListener (vs_var s)\<rparr>, Finished)"
| "var_alone _ s = (s, Finished)"

lemma var_section_steps:
  assumes "body_run var_body w s s' n" and "i < length pcs"
  shows "var_step\<^sup>*\<^sup>* (RWMutex, s, pcs[i := Entering w]) (RWMutex, s', pcs[i := after_section n])"
  using rw_alone [of "var_mode w" "int i"] var.section_steps [OF _ _ assms] by blast

lemma var_single_section:
  assumes "var_body w s = (fst (var_alone w s), Inr (Inl (snd (var_alone w s))))" and "i < length pcs"
  shows "var_step\<^sup>*\<^sup>* (RWMutex, s, pcs[i := Entering w])
    (RWMutex, fst (var_alone w s), pcs[i := Outside (Some (snd (var_alone w s)))])"
proof -
  have "body_run var_body w s (fst (var_alone w s)) (Inl (snd (var_alone w s)))"
    by (rule body_run.last) (rule assms(1))
  from var_section_steps [OF this assms(2)] show ?thesis by (simp add: after_section_def)
qed

lemma notify_run:
  "body_run var_body (Notifying v called todo) s
     (s\<lparr>vs_world := fst (notify (map snd todo) (cv_val (vs_var s)) v (vs_world s))\<rparr>)
     (case snd (notify (map snd todo) (cv_val (vs_var s)) v (vs_world s)) of
        None \<Rightarrow> Inr (Storing v) | Some what \<Rightarrow> Inl (Threw what))"
proof (induction todo arbitrary: called s)
  case (Cons kcb todo)
  obtain k cb where kcb: "kcb = (k, cb)" by fastforce
  obtain w e where c: "call_listener cb (cv_val (vs_var s)) v (vs_world s) = (w, e)" by fastforce
  show ?case
  proof (cases e)
    case None
    from c None have n: "notify (map snd (kcb # todo)) (cv_val (vs_var s)) v (vs_world s) =
        notify (map snd todo) (cv_val (vs_var s)) v w"
      by (cases cb) (auto simp: call_listener_def kcb)
    show ?thesis
      by (rule body_run.more) (use c None kcb Cons.IH [of "called @ [(k, cb)]" "s\<lparr>vs_world := w\<rparr>"] n in auto)
  next
    case (Some what)
    with c have "notify (map snd (kcb # todo)) (cv_val (vs_var s)) v (vs_world s) = (w, Some what)"
      by (cases cb) (auto simp: call_listener_def kcb)
    with c Some kcb show ?thesis by (auto intro: body_run.last)
  qed
qed (auto intro: body_run.last)

text \<open>
  C14: Every operation of a variable that runs while no other thread is in a section, step by step
  under its guards, does what the sequential definition of the operation does and returns its
  result, \<open>setValue\<close> with its two sections and its exceptions included; the lock is free afterwards.
\<close>

theorem var_call_alone:
  assumes "var_call w" and "i < length pcs"
  shows "var_step\<^sup>*\<^sup>* (RWMutex, s, pcs[i := Entering w])
    (RWMutex, fst (var_alone w s), pcs[i := Outside (Some (snd (var_alone w s)))])"
proof (cases w)
  case (Comparing v)
  show ?thesis
  proof (cases "vt_eq (cv_type (vs_var s)) v (cv_val (vs_var s))")
    case True
    then have "body_run var_body w s s (Inl Finished)" by (auto simp: Comparing intro: body_run.last)
    from var_section_steps [OF this assms(2)] True show ?thesis
      by (simp add: Comparing after_section_def ConfigVar_setValue_def setValue_notify_def)
  next
    case False
    obtain w1 e where n: "notify (map snd (cv_cbs (vs_var s))) (cv_val (vs_var s)) v (vs_world s) = (w1, e)" by fastforce
    have run: "body_run var_body w s (s\<lparr>vs_world := w1\<rparr>) (case e of None \<Rightarrow> Inr (Storing v) | Some what \<Rightarrow> Inl (Threw what))"
      using notify_run [of v "[]" "cv_cbs (vs_var s)" s] False n by (auto simp: Comparing intro: body_run.more)
    show ?thesis
    proof (cases e)
      case None
      let ?s = "s\<lparr>vs_world := w1\<rparr>"
      have "body_run var_body (Storing v) ?s (?s\<lparr>vs_var := setValue_store v (vs_var s)\<rparr>) (Inl Finished)"
        by (auto intro: body_run.last)
      note store = var_section_steps [OF this assms(2)]
      from rtranclp_trans [OF var_section_steps [OF run assms(2)]] store None False n show ?thesis
        by (simp add: Comparing after_section_def ConfigVar_setValue_def setValue_notify_def)
    next
      case (Some what)
      with var_section_steps [OF run assms(2)] False n show ?thesis
        by (simp add: Comparing after_section_def ConfigVar_setValue_def setValue_notify_def)
    qed
  qed
next
  case (Loading cb)
  let ?n = "vs_fun_id s + 1"
  let ?s = "s\<lparr>vs_fun_id := ?n, vs_var := (vs_var s)\<lparr>cv_cbs := map_assign ?n cb (cv_cbs (vs_var s))\<rparr>\<rparr>"
  have "body_run var_body (Answering cb) ?s ?s (Inl (Ident ?n))" by (auto intro: body_run.last)
  then have "body_run var_body (Assigning cb) (s\<lparr>vs_fun_id := ?n\<rparr>) ?s (Inl (Ident ?n))"
    by (auto intro: body_run.more)
  then have "body_run var_body (Incrementing cb (vs_fun_id s)) s ?s (Inl (Ident ?n))" by (auto intro: body_run.more)
  then have "body_run var_body (Loading cb) s ?s (Inl (Ident ?n))" by (auto intro: body_run.more)
  from var_section_steps [OF this assms(2)] show ?thesis
    by (simp add: Loading after_section_def ConfigVar_addListener_def Let_def)
qed (use assms(1) var_single_section [OF _ assms(2), of w s] in simp_all)

theorem var_call_alone_witness:
  "\<exists>s'. var_step\<^sup>*\<^sup>* (RWMutex, var_init demo_var 2 [], [Entering (Comparing 8), Outside None])
     (RWMutex, s', [Outside (Some Finished), Outside None]) \<and> cv_val (vs_var s') = 8 \<and> vs_world s' = [(4, 7, 8), (5, 7, 8)]"
  using var_call_alone [of "Comparing 8" 0 "[Outside None, Outside None]" "var_init demo_var 2 []"]
  by (force simp: var_init_def ConfigVar_setValue_def setValue_notify_def setValue_store_def recorder_def)

section \<open>One counter for all variables of a type\<close>

text \<open>
  Several variables of one type, each with its own lock, share the counter \<open>s_fun_id\<close>. A step
  of a thread on variable \<open>a\<close> is a step on its lock, its value and listeners, and the counter.
\<close>

record ('v, 'w) vars_state =
  vr_locks :: "rwmutex list"
  vr_vars :: "('v, 'w) config_var list"
  vr_fun_id :: u64
  vr_world :: 'w

type_synonym ('v, 'w) vars_thread = "nat \<times> (('v, 'w) var_work, ('v, 'w) var_answer) section_pc"

definition vars_view :: "nat \<Rightarrow> ('v, 'w) vars_state \<Rightarrow> ('v, 'w) var_state" where
  "vars_view a x = \<lparr>vs_var = vr_vars x ! a, vs_fun_id = vr_fun_id x, vs_world = vr_world x\<rparr>"

definition vars_put :: "nat \<Rightarrow> rwmutex \<Rightarrow> ('v, 'w) var_state \<Rightarrow> ('v, 'w) vars_state \<Rightarrow> ('v, 'w) vars_state" where
  "vars_put a m s x =
     \<lparr>vr_locks = (vr_locks x)[a := m], vr_vars = (vr_vars x)[a := vs_var s],
      vr_fun_id = vs_fun_id s, vr_world = vs_world s\<rparr>"

text \<open>Threads that add listeners, and do nothing else.\<close>

fun adds_move :: "(nat \<times> ('v, 'w) listener option) move \<Rightarrow> ('v, 'w) vars_state \<times> ('v, 'w) vars_thread list \<Rightarrow>
    (('v, 'w) vars_state \<times> ('v, 'w) vars_thread list) option"
where
  "adds_move (Begin i (a, cb)) (x, ts) =
     (if i < length ts \<and> a < length (vr_vars x) then
        (case ts ! i of (b, Outside r) \<Rightarrow> Some (x, ts[i := (a, Entering (Loading cb))]) | _ \<Rightarrow> None)
      else None)"
| "adds_move (Go i) (x, ts) =
     (if i < length ts then
        (case ts ! i of (a, pc) \<Rightarrow>
          (case section_thread rw_guards var_mode var_body (int i) (vr_locks x ! a) (vars_view a x) pc of
             Returns (m, s, pc') \<Rightarrow> Some (vars_put a m s x, ts[i := (a, pc')])
           | _ \<Rightarrow> None))
      else None)"

fun adds_moves :: "(nat \<times> ('v, 'w) listener option) move list \<Rightarrow> ('v, 'w) vars_state \<times> ('v, 'w) vars_thread list \<Rightarrow>
    (('v, 'w) vars_state \<times> ('v, 'w) vars_thread list) option"
where
  "adds_moves [] x = Some x"
| "adds_moves (a # as) x = (case adds_move a x of None \<Rightarrow> None | Some y \<Rightarrow> adds_moves as y)"

definition two_vars :: "'v value_type \<Rightarrow> string \<Rightarrow> string \<Rightarrow> 'v \<Rightarrow> 'w \<Rightarrow> ('v, 'w) vars_state \<times> ('v, 'w) vars_thread list" where
  "two_vars ty name1 name2 v w =
     (\<lparr>vr_locks = [RWMutex, RWMutex], vr_vars = [ConfigVar ty name1 v [], ConfigVar ty name2 v []],
       vr_fun_id = 0, vr_world = w\<rparr>,
      [(0, Outside None), (1, Outside None)])"

text \<open>
  The second thread is about to write the counter it has read as 0, in an addition to the other
  variable, while the first adds two listeners; then it writes it, and the first adds a third.
\<close>

definition add_all :: "nat \<Rightarrow> nat \<Rightarrow> ('v, 'w) listener option \<Rightarrow> (nat \<times> ('v, 'w) listener option) move list" where
  "add_all i a cb = Begin i (a, cb) # replicate 6 (Go i)"

text \<open>
  The counter of the listener ids is shared by all variables of a type, and the lock of one
  variable does not protect it against an addition to another: two threads that do nothing but
  add listeners can reach a state in which a thread has got the id 2 for its listener on the
  first variable, and from there a state in which the id 2 was given out again on the same
  variable and the listener is gone, though nobody has deleted it.
\<close>

theorem additions_lose_listener:
  "\<exists>as1 as2 x ts y ts'.
     adds_moves as1 (two_vars ty name1 name2 v w) = Some (x, ts) \<and>
     ts ! 0 = (0, Outside (Some (Ident 2))) \<and> cv_cbs (vr_vars x ! 0) = [(1, f), (2, g)] \<and>
     adds_moves as2 (x, ts) = Some (y, ts') \<and>
     ts' ! 0 = (0, Outside (Some (Ident 2))) \<and> cv_cbs (vr_vars y ! 0) = [(1, f), (2, h)]"
proof -
  let ?as1 = "[Begin 1 (1, k), Go 1, Go 1] @ add_all 0 0 f @ add_all 0 0 g"
  let ?as2 = "Go 1 # add_all 0 0 h"
  obtain x ts where 1: "adds_moves ?as1 (two_vars ty name1 name2 v w) = Some (x, ts)"
    and x: "x = \<lparr>vr_locks = [RWMutex, RWMutex\<lparr>rw_writer := Some 1\<rparr>],
        vr_vars = [(ConfigVar ty name1 v [])\<lparr>cv_cbs := [(1, f), (2, g)]\<rparr>, ConfigVar ty name2 v []],
        vr_fun_id = 2, vr_world = w\<rparr>"
    and ts: "ts = [(0, Outside (Some (Ident 2))), (1, Inside (Incrementing k 0))]"
    by (simp add: two_vars_def add_all_def eval_nat_numeral section_thread_def rw_guards_def guard_defs
        vars_view_def vars_put_def RWMutex_wrlock_def RWMutex_unlock_def RWMutex_def ConfigVar_def)
  moreover obtain y ts' where "adds_moves ?as2 (x, ts) = Some (y, ts')"
      "ts' ! 0 = (0, Outside (Some (Ident 2)))" "cv_cbs (vr_vars y ! 0) = [(1, f), (2, h)]"
    by (simp add: x ts add_all_def eval_nat_numeral section_thread_def rw_guards_def guard_defs
        vars_view_def vars_put_def RWMutex_wrlock_def RWMutex_unlock_def RWMutex_def ConfigVar_def)
  moreover have "ts ! 0 = (0, Outside (Some (Ident 2)))" "cv_cbs (vr_vars x ! 0) = [(1, f), (2, g)]"
    by (simp_all add: x ts)
  ultimately show ?thesis by blast
qed

end
