(* ===== verification/Registry_Threads.thy ===== *)
theory Registry_Threads
  imports Guarded_Serial Config_Registry
begin

text \<open>
  The registry of configuration variables (gwn/config.h, gwn/config.cc) as threads look names up:
  sections on the read-write lock \<open>GetMutex()\<close>. \<open>LookUp\<close> with a default value searches and
  inserts in one exclusive section, here in two steps; the other lookups read.
\<close>

datatype 'v registry_work =
    Searching "'v value_type" string 'v string
  | Inserting "'v value_type" string 'v string
  | Seeking "'v value_type" string
  | SeekingBase string

datatype registry_answer = Looked string lookup_result | Sought string "nat option"

fun registry_mode :: "'v registry_work \<Rightarrow> mode" where
  "registry_mode (Searching ty name v description) = Exclusive"
| "registry_mode (Inserting ty name v description) = Exclusive"
| "registry_mode (Seeking ty name) = Shared"
| "registry_mode (SeekingBase name) = Shared"

fun registry_body :: "('v registry_work, registry_answer, ('v, 'w) config) section_body" where
  "registry_body (Searching ty name v description) c =
     (if map_find (cf_datas c) name = None \<and> valid_name name then (c, Inl (Inserting ty name v description))
      else (case Config_LookUp_default ty name v description c of (r, c') \<Rightarrow> (c', Inr (Inl (Looked name r)))))"
| "registry_body (Inserting ty name v description) c =
     (c\<lparr>cf_vars := cf_vars c @ [ConfigVar ty name v description],
        cf_datas := map_assign name (length (cf_vars c)) (cf_datas c)\<rparr>,
      Inr (Inl (Looked name (FoundVar (length (cf_vars c))))))"
| "registry_body (Seeking ty name) c = (c, Inr (Inl (Sought name (Config_LookUp ty name c))))"
| "registry_body (SeekingBase name) c = (c, Inr (Inl (Sought name (Config_LookupBase name c))))"

fun registry_call :: "'v registry_work \<Rightarrow> bool" where
  "registry_call (Inserting ty name v description) \<longleftrightarrow> False"
| "registry_call _ \<longleftrightarrow> True"

fun registry_late :: "'v registry_work \<Rightarrow> nat" where
  "registry_late (Searching ty name v description) = 1"
| "registry_late _ = 0"

abbreviation registry_reach :: "(rwmutex, ('v, 'w) config, 'v registry_work, registry_answer) section_state \<Rightarrow> bool" where
  "registry_reach \<equiv> section_reach rw_guards registry_mode registry_body registry_call RWMutex config_empty"

interpretation registry: guarded_object rw_guards rw_holds registry_mode registry_body "\<lambda>c. c" "\<lambda>_. 0" registry_late
proof unfold_locales
  show "registry_mode w' = registry_mode w" if "registry_body w s = (s', Inl w')" for w w' s s'
    using that by (cases w) (auto split: if_splits prod.splits)
  show "s' = s" if "registry_mode w = Shared" "registry_body w s = (s', n)" for w s s' n
    using that by (cases w) auto
  show "(0::nat) < 0 \<or> (0::nat) = 0 \<and> registry_late w' < registry_late w"
    if "registry_body w s = (s', Inl w') \<or> registry_body w s = (s', Inr (Inr w'))" for w w' s s'
    using that by (cases w) (auto split: if_splits prod.splits)
qed (rule rw_new)

text \<open>What a thread knows: an insertion is under way for a new valid name; an answer is still true.\<close>

definition answer_true :: "('v, 'w) config \<Rightarrow> registry_answer \<Rightarrow> bool" where
  "answer_true c r = (case r of
     Looked name (FoundVar a) \<Rightarrow> map_find (cf_datas c) name = Some a
   | Sought name (Some a) \<Rightarrow> map_find (cf_datas c) name = Some a
   | _ \<Rightarrow> True)"

definition registry_sees :: "('v registry_work, registry_answer) section_pc \<Rightarrow> ('v, 'w) config \<Rightarrow> bool" where
  "registry_sees pc c = (case pc of
     Outside r \<Rightarrow> (case r of None \<Rightarrow> True | Some r \<Rightarrow> answer_true c r)
   | Entering w \<Rightarrow> registry_call w
   | Inside (Inserting ty name v description) \<Rightarrow> map_find (cf_datas c) name = None \<and> valid_name name
   | Inside w \<Rightarrow> True
   | Leaving k n \<Rightarrow> (case n of Inl r \<Rightarrow> answer_true c r | Inr w \<Rightarrow> False))"

lemma insertion_is_lookup:
  assumes "map_find (cf_datas c) name = None" and "valid_name name"
    and "registry_body (Inserting ty name v description) c = (c', n)"
  shows "Config_LookUp_default ty name v description c = (FoundVar (length (cf_vars c)), c')"
    and "n = Inr (Inl (Looked name (FoundVar (length (cf_vars c)))))"
  using assms by (auto simp: Config_LookUp_default_def)

text \<open>A section leaves the registry as it is, or does what one \<open>LookUp\<close> does.\<close>

lemma registry_body_lookup:
  assumes "registry_body w c = (c', n)" and "registry_sees (Inside w) c"
  obtains "c' = c" and "\<And>r. n = Inr (Inl r) \<Longrightarrow> answer_true c r"
    | ty name v description r where "Config_LookUp_default ty name v description c = (r, c')"
      and "n = Inr (Inl (Looked name r))"
proof (cases w)
  case (Inserting ty name v description)
  with assms(2) have "map_find (cf_datas c) name = None" "valid_name name" by (simp_all add: registry_sees_def)
  from insertion_is_lookup [OF this, of ty v description c' n] assms(1) Inserting that(2) show ?thesis by blast
qed (use assms that in \<open>auto simp: answer_true_def Config_LookUp_def Config_LookupBase_def split: if_splits prod.splits option.splits\<close>)

lemma lookup_keeps:
  assumes "config_ok c" and "Config_LookUp_default ty name v description c = (r, c')"
  shows "map_find (cf_datas c) k = Some a \<Longrightarrow> map_find (cf_datas c') k = Some a"
    and "answer_true c' (Looked name r)"
proof -
  have "map_sorted (cf_datas c)" using assms(1) by (simp add: config_ok_def)
  then show "map_find (cf_datas c) k = Some a \<Longrightarrow> map_find (cf_datas c') k = Some a"
    and "answer_true c' (Looked name r)"
    using assms(2) by (auto simp: Config_LookUp_default_def Let_def map_find_assign answer_true_def
        split: option.splits if_splits prod.splits)
qed

lemma answer_kept:
  assumes "\<And>k a. map_find (cf_datas c) k = Some a \<Longrightarrow> map_find (cf_datas c') k = Some a"
  shows "answer_true c r \<Longrightarrow> answer_true c' r"
  using assms by (auto simp: answer_true_def split: registry_answer.splits lookup_result.splits option.splits)

lemma registry_body_step:
  assumes "registry_body w c = (c', n)" and "registry_sees (Inside w) c" and "config_reach c"
  shows "config_reach c'" and "answer_true c r \<Longrightarrow> answer_true c' r"
    and "registry_sees (case n of Inl w' \<Rightarrow> Inside w' | Inr r \<Rightarrow> Leaving (registry_mode w) r) c'"
proof -
  have ok: "config_ok c" using assms(3) by (rule config_reach_ok)
  show "config_reach c'" by (rule registry_body_lookup [OF assms(1,2)]) (auto intro: assms(3) config_reach.lookup)
  show "answer_true c r \<Longrightarrow> answer_true c' r"
    by (rule registry_body_lookup [OF assms(1,2)]) (auto dest: lookup_keeps(1) [OF ok] intro: answer_kept [of c c' r])
  show "registry_sees (case n of Inl w' \<Rightarrow> Inside w' | Inr r \<Rightarrow> Leaving (registry_mode w) r) c'"
  proof (cases n)
    case (Inl w')
    with assms(1,2) show ?thesis by (cases w) (auto simp: registry_sees_def split: if_splits prod.splits)
  next
    case (Inr n')
    have "\<exists>r. n' = Inl r \<and> answer_true c' r"
    proof (rule registry_body_lookup [OF assms(1,2)])
      assume "c' = c" and a: "\<And>r. n = Inr (Inl r) \<Longrightarrow> answer_true c r"
      from assms(1) Inr obtain r where "n' = Inl r" by (cases w) (auto split: if_splits prod.splits)
      with Inr a \<open>c' = c\<close> show ?thesis by blast
    qed (use Inr lookup_keeps(2) [OF ok] in blast)
    with Inr show ?thesis by (auto simp: registry_sees_def)
  qed
qed

lemma registry_reach_sees:
  assumes "registry_reach (m, c, pcs)"
  shows "config_reach c \<and> (\<forall>pc \<in> set pcs. registry_sees pc c)"
proof -
  have "config_reach (fst (snd (m, c, pcs))) \<and>
      (\<forall>pc \<in> set (snd (snd (m, c, pcs))). registry_sees pc (fst (snd (m, c, pcs))))"
  proof (rule registry.reach_threads [where Q = config_reach and P = registry_sees, OF assms rw_free config_reach.empty])
    show "registry_sees pc c'"
      if "registry_body w c = (c', n)" "registry_sees (Inside w) c" "config_reach c" "pc_mode registry_mode pc = None"
        "registry_sees pc c" for pc w c c' n
      using that(4,5) registry_body_step(2) [OF that(1-3)]
      by (cases pc) (auto simp: registry_sees_def pc_mode_def split: option.splits)
    show "registry_sees pc' c'"
      if "section_thread rw_guards registry_mode registry_body t m c pc = Returns (m', c', pc')" "config_reach c"
        "registry_sees pc c" for t m c pc m' c' pc'
    proof (cases pc)
      case (Inside w)
      obtain c1 n where "registry_body w c = (c1, n)" by fastforce
      with registry_body_step(3) [OF this] that Inside show ?thesis by (cases n) (auto simp: section_thread_def)
    next
      case (Entering w)
      with that show ?thesis
        by (cases w) (auto simp: section_thread_def bind_call_Returns registry_sees_def)
    qed (use that in \<open>auto simp: section_thread_def bind_call_Returns registry_sees_def split: sum.splits\<close>)
  qed (auto simp: registry_sees_def registry_body_step(1))
  then show ?thesis by simp
qed

text \<open>
  Threads that look names up at the same time, each under the guards of the lock of the
  registry, leave it in a state that lookups one after the other reach as well; every variable
  they were given is still the variable of its name, so two threads that looked up one name,
  creating it if need be, have the same variable.
\<close>

theorem concurrent_lookups_agree:
  assumes "registry_reach (m, c, pcs)"
    and "i < length pcs" and "pcs ! i = Outside (Some (Looked name (FoundVar a)))"
  shows "config_reach c \<and> Config_LookupBase name c = Some a \<and>
    (\<forall>j < length pcs. \<forall>b. pcs ! j = Outside (Some (Looked name (FoundVar b))) \<longrightarrow> b = a)"
proof -
  have "map_find (cf_datas c) name = Some b"
    if "j < length pcs" "pcs ! j = Outside (Some (Looked name (FoundVar b)))" for j b
    using registry_reach_sees [OF assms(1)] that by (force simp: registry_sees_def answer_true_def dest!: nth_mem)
  with this [OF assms(2,3)] registry_reach_sees [OF assms(1)] show ?thesis by (fastforce simp: Config_LookupBase_def)
qed

text \<open>Two threads look up \<open>port\<close>; the first creates it, with its own default value.\<close>

definition registry_moves :: "nat registry_work move list" where
  "registry_moves = [Begin 0 (Searching nat_type ''port'' 7 []), Begin 1 (Searching nat_type ''port'' 8 []),
     Go 0, Go 0, Go 0, Go 0, Go 1, Go 1, Go 1]"

theorem concurrent_lookups_agree_witness:
  "\<exists>m (c :: (nat, unit) config) pcs. registry_reach (m, c, pcs) \<and>
     pcs = [Outside (Some (Looked ''port'' (FoundVar 0))), Outside (Some (Looked ''port'' (FoundVar 0)))] \<and>
     config_reach c \<and> Config_LookupBase ''port'' c = Some 0"
proof -
  have "\<exists>m c. section_moves rw_guards registry_mode registry_body registry_call registry_moves
      (RWMutex, config_empty :: (nat, unit) config, replicate 2 (Outside None)) =
    Some (m, c, [Outside (Some (Looked ''port'' (FoundVar 0))), Outside (Some (Looked ''port'' (FoundVar 0)))])"
    by (simp add: registry_moves_def numeral_2_eq_2 section_thread_def rw_guards_def guard_defs RWMutex_wrlock_def
        RWMutex_unlock_def RWMutex_def config_empty_def valid_name_def name_chars_def all_in_def
        Config_LookUp_default_def ConfigVar_def Let_def say_def same_type_def)
  then obtain m and c :: "(nat, unit) config" where "section_moves rw_guards registry_mode registry_body registry_call registry_moves
      (RWMutex, config_empty, replicate 2 (Outside None)) =
    Some (m, c, [Outside (Some (Looked ''port'' (FoundVar 0))), Outside (Some (Looked ''port'' (FoundVar 0)))])"
    by blast
  note r = moves_reach [OF section_reach.start this]
  from concurrent_lookups_agree [OF r, of 0 "''port''" 0] r show ?thesis by auto
qed

section \<open>Lookups one after the other\<close>

text \<open>The operations of the sequential model, and the insertion that is left inside a section.\<close>

fun registry_op :: "'v registry_work \<Rightarrow> ('v, 'w) config \<Rightarrow> ('v, 'w) config \<times> registry_answer" where
  "registry_op (Searching ty name v description) c =
     (case Config_LookUp_default ty name v description c of (r, c') \<Rightarrow> (c', Looked name r))"
| "registry_op (Inserting ty name v description) c =
     (c\<lparr>cf_vars := cf_vars c @ [ConfigVar ty name v description],
        cf_datas := map_assign name (length (cf_vars c)) (cf_datas c)\<rparr>,
      Looked name (FoundVar (length (cf_vars c))))"
| "registry_op (Seeking ty name) c = (c, Sought name (Config_LookUp ty name c))"
| "registry_op (SeekingBase name) c = (c, Sought name (Config_LookupBase name c))"

interpretation registry_calls: serial_object rw_guards rw_holds registry_mode registry_body "\<lambda>c. c"
  "\<lambda>_. 0" registry_late registry_call registry_op config_reach
proof unfold_locales
  show "s' = s" if "registry_mode w = Shared" "registry_body w s = (s', n)" for w s s' n
    using that by (cases w) auto
  show "registry_body w s \<noteq> (s', Inr (Inr w'))" for w s s' w'
    by (cases w) (auto split: prod.splits)
  show "registry_op w s = (s', r)" if "body_run registry_body w s s' (Inl r)" for w s s' r
  proof (rule body_run_op [OF that HOL.refl, where I = "\<lambda>w s. True"])
    show "True \<and> registry_op w c = registry_op w1 c1" if "registry_body w c = (c1, Inl w1)" for w c c1 w1
      using that by (cases w) (auto simp: Config_LookUp_default_def split: if_splits prod.splits)
    show "registry_op w c = (c1, r)" if "registry_body w c = (c1, Inr (Inl r))" for w c c1 r
      using that by (cases w) (auto split: if_splits prod.splits)
  qed simp
  show "config_reach s'" if "registry_call w" "config_reach s" "registry_op w s = (s', r)" for w s s' r
    using that by (cases w) (auto split: prod.splits intro: config_reach.lookup)
qed

lemma registry_replay:
  assumes "replay registry_op c h = Some c'" and "\<forall>x \<in> set h. registry_call (fst (snd x))" and "config_reach c"
  shows "config_reach c' \<and> (\<forall>k a. map_find (cf_datas c) k = Some a \<longrightarrow> map_find (cf_datas c') k = Some a) \<and>
    (\<forall>x \<in> set h. answer_true c' (snd (snd x)))"
  using assms
proof (induction h arbitrary: c)
  case (Cons x h)
  obtain i w r where x: "x = (i, w, r)" by (cases x)
  obtain c1 where c1: "registry_op w c = (c1, r)" "replay registry_op c1 h = Some c'"
    using Cons.prems(1) x by (auto split: prod.splits if_splits)
  have w: "registry_call w" using Cons.prems(2) x by simp
  have ok: "config_ok c" using Cons.prems(3) by (rule config_reach_ok)
  have "config_reach c1 \<and> (\<forall>k a. map_find (cf_datas c) k = Some a \<longrightarrow> map_find (cf_datas c1) k = Some a) \<and> answer_true c1 r"
  proof (cases w)
    case (Searching ty name v description)
    with c1(1) obtain r' where l: "Config_LookUp_default ty name v description c = (r', c1)" "r = Looked name r'"
      by (auto split: prod.splits)
    from lookup_keeps [OF ok l(1)] l Cons.prems(3) show ?thesis by (auto intro: config_reach.lookup)
  qed (use w c1(1) Cons.prems(3) in
      \<open>auto simp: answer_true_def Config_LookUp_def Config_LookupBase_def split: option.splits if_splits\<close>)
  with Cons.IH [OF c1(2)] Cons.prems(2) answer_kept [of c1 c'] show ?case by (auto simp: x)
qed simp

text \<open>
  C15: Threads that look names up at the same time, under the guards of the lock of the registry,
  leave it as the same lookups one after the other do, in an order that is the order of each thread
  and with the same answers; every variable they were given is the variable of its name at the end,
  so threads that looked up one name, creating it if need be, have the same variable.
\<close>

theorem lookups_serial:
  assumes "section_moves rw_guards registry_mode registry_body registry_call as
      (RWMutex, c0, replicate n (Outside None)) = Some (m, c, pcs)"
    and "config_reach c0" and "\<forall>pc \<in> set pcs. \<exists>r. pc = Outside r"
  shows "config_reach c \<and> (\<exists>h. replay registry_op c0 h = Some c \<and>
    (\<forall>i < length pcs. calls_of i h = begun i as \<and> pcs ! i = Outside (latest (answers_of i h))) \<and>
    (\<forall>i w name a. (i, w, Looked name (FoundVar a)) \<in> set h \<longrightarrow> Config_LookupBase name c = Some a))"
proof -
  from registry_calls.linearizable [OF assms(1) rw_free assms(2,3)] obtain h where
    h: "replay registry_op c0 h = Some c" "\<forall>x \<in> set h. fst x < length pcs"
      "\<forall>i < length pcs. calls_of i h = begun i as \<and> pcs ! i = Outside (latest (answers_of i h))"
    by blast
  have "\<forall>x \<in> set h. registry_call (fst (snd x))"
  proof
    fix x assume "x \<in> set h"
    with h(2,3) have "Begin (fst x) (fst (snd x)) \<in> set as" by (auto intro!: begun_in in_calls_of)
    with assms(1) show "registry_call (fst (snd x))" by (rule moves_call)
  qed
  from registry_replay [OF h(1) this assms(2)] have "config_reach c" "\<forall>x \<in> set h. answer_true c (snd (snd x))"
    by blast+
  with h(1,3) show ?thesis by (fastforce simp: answer_true_def Config_LookupBase_def)
qed

theorem lookups_serial_witness:
  "\<exists>m (c :: (nat, unit) config) h. section_moves rw_guards registry_mode registry_body registry_call registry_moves
      (RWMutex, config_empty, replicate 2 (Outside None)) =
      Some (m, c, replicate 2 (Outside (Some (Looked ''port'' (FoundVar 0))))) \<and>
    replay registry_op config_empty h = Some c \<and> calls_of 1 h = [Searching nat_type ''port'' 8 []]"
proof -
  have "\<exists>m c. section_moves rw_guards registry_mode registry_body registry_call registry_moves
      (RWMutex, config_empty :: (nat, unit) config, replicate 2 (Outside None)) =
    Some (m, c, replicate 2 (Outside (Some (Looked ''port'' (FoundVar 0)))))"
    by (simp add: registry_moves_def numeral_2_eq_2 section_thread_def rw_guards_def guard_defs RWMutex_wrlock_def
        RWMutex_unlock_def RWMutex_def config_empty_def valid_name_def name_chars_def all_in_def
        Config_LookUp_default_def ConfigVar_def Let_def say_def same_type_def)
  then obtain m and c :: "(nat, unit) config" where run: "section_moves rw_guards registry_mode registry_body registry_call
      registry_moves (RWMutex, config_empty, replicate 2 (Outside None)) =
    Some (m, c, replicate 2 (Outside (Some (Looked ''port'' (FoundVar 0)))))" by blast
  from lookups_serial [OF run config_reach.empty] obtain h where "replay registry_op config_empty h = Some c"
    "\<forall>i < 2. calls_of i h = begun i registry_moves" by auto
  moreover have "begun 1 registry_moves = [Searching nat_type ''port'' 8 []]" by (simp add: registry_moves_def)
  ultimately show ?thesis using run by auto
qed

end
