(* ===== verification/Framework_Locks.thy ===== *)
theory Framework_Locks
  imports Lock_Facts
begin

text \<open>
  The locks of the whole framework: which locks every call takes and in which order (gwn/log.h,
  gwn/log.cc, gwn/config.h, gwn/config.cc, gwn/scheduler.h, gwn/scheduler.cc). A call is the list of
  the locks it takes and releases; what it finds on its way (a level that is too low, a formatter
  that is missing, a fallback to the root logger) is part of its description, so every run of the
  code is one of these lists.
\<close>

section \<open>The locks\<close>

text \<open>
  Mutexes of schedulers, the read-write locks of the registry and of the variables, and the spin
  locks of the logger manager, the loggers and the appenders. \<open>LoggerLock None\<close> is that of the
  root logger.
\<close>

datatype lock_name =
    SchedulerLock nat
  | RegistryLock
  | VariableLock nat
  | ManagerLock
  | LoggerLock "nat option"
  | AppenderLock nat

datatype lock_action = Acquire lock_name mode | Release lock_name mode

text \<open>A scoped guard: the lock is taken, the block runs, the guard is destroyed.\<close>

definition under :: "lock_name \<Rightarrow> mode \<Rightarrow> lock_action list \<Rightarrow> lock_action list" where
  "under n k block = Acquire n k # block @ [Release n k]"

abbreviation touch :: "lock_name \<Rightarrow> mode \<Rightarrow> lock_action list" where
  "touch n k \<equiv> under n k []"

section \<open>Loggers and appenders\<close>

text \<open>
  \<open>LogAppender::log\<close>: the level of the appender is too high, or the event goes to the console, or
  to a file that is perhaps opened anew first.
\<close>

datatype appender_event = Below | ToConsole | ToFile bool

fun appender_log_locks :: "nat \<times> appender_event \<Rightarrow> lock_action list" where
  "appender_log_locks (p, Below) = []"
| "appender_log_locks (p, ToConsole) = touch (AppenderLock p) Exclusive"
| "appender_log_locks (p, ToFile reopened) =
     (if reopened then touch (AppenderLock p) Exclusive else []) @ touch (AppenderLock p) Exclusive"

text \<open>
  \<open>Logger::log\<close>: the level of the logger is too high, or its appenders get the event, or it has
  none and the root logger gets it. The root logger has no root (\<open>m_root\<close> is null).
\<close>

datatype log_outcome = Dropped | Handed "(nat \<times> appender_event) list"

datatype log_path = Own log_outcome | Fallback log_outcome

definition handed_locks :: "nat option \<Rightarrow> log_outcome \<Rightarrow> lock_action list" where
  "handed_locks lg out = (case out of
     Dropped \<Rightarrow> []
   | Handed evs \<Rightarrow> under (LoggerLock lg) Exclusive (concat (map appender_log_locks evs)))"

fun log_locks :: "nat option \<Rightarrow> log_path \<Rightarrow> lock_action list" where
  "log_locks lg (Own out) = handed_locks lg out"
| "log_locks None (Fallback out) = touch (LoggerLock None) Exclusive"
| "log_locks (Some a) (Fallback out) = under (LoggerLock (Some a)) Exclusive (handed_locks None out)"

text \<open>
  The other operations on loggers, appenders and the manager. \<open>AddsAppender\<close> says whether the
  appender had a formatter; \<open>AppenderAccess\<close> is any of \<open>setFormatter\<close>, \<open>getFormatter\<close>, \<open>reopen\<close>
  and \<open>toYamlString\<close> of an appender.
\<close>

datatype log_call =
    Logs "nat option" log_path
  | SetsFormatter "nat option" "nat list"
  | LoggerAccess "nat option"
  | AddsAppender "nat option" nat bool
  | PrintsLogger "nat option" "nat list"
  | AppenderAccess nat
  | GetsLogger
  | PrintsManager "(nat option \<times> nat list) list"

definition each_appender :: "nat option \<Rightarrow> nat list \<Rightarrow> lock_action list" where
  "each_appender lg ps = under (LoggerLock lg) Exclusive (concat (map (\<lambda>p. touch (AppenderLock p) Exclusive) ps))"

fun log_call_locks :: "log_call \<Rightarrow> lock_action list" where
  "log_call_locks (Logs lg path) = log_locks lg path"
| "log_call_locks (SetsFormatter lg ps) = each_appender lg ps"
| "log_call_locks (LoggerAccess lg) = touch (LoggerLock lg) Exclusive"
| "log_call_locks (AddsAppender lg p had) =
     under (LoggerLock lg) Exclusive
       (touch (AppenderLock p) Exclusive @ (if had then [] else touch (AppenderLock p) Exclusive))"
| "log_call_locks (PrintsLogger lg ps) = each_appender lg ps"
| "log_call_locks (AppenderAccess p) = touch (AppenderLock p) Exclusive"
| "log_call_locks GetsLogger = touch ManagerLock Exclusive"
| "log_call_locks (PrintsManager lgs) = under ManagerLock Exclusive (concat (map (\<lambda>(lg, ps). each_appender lg ps) lgs))"

section \<open>Variables, registry and schedulers\<close>

text \<open>
  \<open>setValue\<close>: the value is the same, or the listeners run under the read lock, and one of them throws
  or the value is stored. A listener of the framework is a sequence of calls to the loggers.
\<close>

datatype set_outcome = Same | Thrown "log_call list" | Stored "log_call list"

definition listener_locks :: "log_call list \<Rightarrow> lock_action list" where
  "listener_locks cs = concat (map log_call_locks cs)"

fun setValue_locks :: "nat \<Rightarrow> set_outcome \<Rightarrow> lock_action list" where
  "setValue_locks v Same = touch (VariableLock v) Shared"
| "setValue_locks v (Thrown cs) = under (VariableLock v) Shared (listener_locks cs)"
| "setValue_locks v (Stored cs) =
     under (VariableLock v) Shared (listener_locks cs) @ touch (VariableLock v) Exclusive"

text \<open>\<open>toString\<close> and \<open>fromString\<close> log through the root logger when there was an exception.\<close>

definition report_locks :: "log_path option \<Rightarrow> lock_action list" where
  "report_locks r = (case r of None \<Rightarrow> [] | Some path \<Rightarrow> log_locks None path)"

definition toString_locks :: "nat \<Rightarrow> log_path option \<Rightarrow> lock_action list" where
  "toString_locks v failure = touch (VariableLock v) Shared @ report_locks failure"

text \<open>\<open>fromString\<close> with a text that does not convert does not come to \<open>setValue\<close>.\<close>

definition fromString_locks :: "nat \<Rightarrow> set_outcome option \<Rightarrow> log_path option \<Rightarrow> lock_action list" where
  "fromString_locks v out failure =
     (case out of None \<Rightarrow> [] | Some so \<Rightarrow> setValue_locks v so) @ report_locks failure"

text \<open>
  \<open>LookUp\<close> with a default value logs under its lock; the message about a variable of another type
  prints the variable, unless the level of the root logger is so high that it is not built.
\<close>

datatype lookup_outcome =
    Exists log_path
  | OtherType "(nat \<times> log_path option) option" log_path
  | BadName log_path
  | Created

fun lookup_locks :: "lookup_outcome \<Rightarrow> lock_action list" where
  "lookup_locks (Exists path) = under RegistryLock Exclusive (log_locks None path)"
| "lookup_locks (OtherType None path) = touch RegistryLock Exclusive"
| "lookup_locks (OtherType (Some (v, failure)) path) =
     under RegistryLock Exclusive (toString_locks v failure @ log_locks None path)"
| "lookup_locks (BadName path) = under RegistryLock Exclusive (log_locks None path)"
| "lookup_locks Created = touch RegistryLock Exclusive"

text \<open>
  All calls. \<open>WritesVar\<close> is \<open>addListener\<close>, \<open>delListener\<close> or \<open>clearListener\<close>, \<open>ReadsVar\<close> is
  \<open>getValue\<close> or \<open>getListener\<close>, \<open>FindsVar\<close> is \<open>LookUp\<close> without a default or \<open>LookupBase\<close>.
  \<open>Schedules\<close> logs in \<open>tickle\<close> when the queue was empty; \<open>SchedulerAccess\<close> is \<open>stopping\<close>, the scan
  of \<open>run\<close> or the exchange of the threads in \<open>stop\<close>; \<open>StartsPool\<close> is \<open>start\<close>, with what the
  constructors of the threads log. \<open>LoadFromYaml\<close> is a sequence of \<open>FindsVar\<close>, \<open>FromString\<close> and
  \<open>Logs\<close>.
\<close>

datatype framework_call =
    LogCall log_call
  | ReadsVar nat
  | WritesVar nat
  | ToString nat "log_path option"
  | SetsValue nat set_outcome
  | FromString nat "set_outcome option" "log_path option"
  | LooksUp lookup_outcome
  | FindsVar
  | Schedules nat "(nat option \<times> log_path) option"
  | SchedulerAccess nat
  | StartsPool nat "(nat option \<times> log_path) list"

fun call_locks :: "framework_call \<Rightarrow> lock_action list" where
  "call_locks (LogCall c) = log_call_locks c"
| "call_locks (ReadsVar v) = touch (VariableLock v) Shared"
| "call_locks (WritesVar v) = touch (VariableLock v) Exclusive"
| "call_locks (ToString v failure) = toString_locks v failure"
| "call_locks (SetsValue v out) = setValue_locks v out"
| "call_locks (FromString v out failure) = fromString_locks v out failure"
| "call_locks (LooksUp out) = lookup_locks out"
| "call_locks FindsVar = touch RegistryLock Shared"
| "call_locks (Schedules s tickled) =
     touch (SchedulerLock s) Exclusive @ (case tickled of None \<Rightarrow> [] | Some (lg, path) \<Rightarrow> log_locks lg path)"
| "call_locks (SchedulerAccess s) = touch (SchedulerLock s) Exclusive"
| "call_locks (StartsPool s logs) =
     under (SchedulerLock s) Exclusive (concat (map (\<lambda>(lg, path). log_locks lg path) logs))"

end
