(* ===== verification/Lock_Order.thy ===== *)
theory Lock_Order
  imports Framework_Locks
begin

text \<open>
  The order of the locks of the framework: every call takes them in the order schedulers, registry,
  variables, manager, loggers, root logger, appenders, and releases what it takes. Hence threads that
  run any calls never block each other for ever.
\<close>

section \<open>Every call keeps to the order\<close>

fun rank :: "lock_name \<Rightarrow> nat" where
  "rank (SchedulerLock s) = 1"
| "rank RegistryLock = 2"
| "rank (VariableLock v) = 3"
| "rank ManagerLock = 4"
| "rank (LoggerLock (Some a)) = 5"
| "rank (LoggerLock None) = 6"
| "rank (AppenderLock p) = 7"

text \<open>
  With the locks \<open>hs\<close> held, the last one first, the actions take only locks of higher rank, release
  in the opposite order, and end without a lock.
\<close>

fun ordered :: "(lock_name \<times> mode) list \<Rightarrow> lock_action list \<Rightarrow> bool" where
  "ordered hs [] \<longleftrightarrow> hs = []"
| "ordered hs (Acquire n k # as) \<longleftrightarrow> (\<forall>h \<in> set hs. rank (fst h) < rank n) \<and> ordered ((n, k) # hs) as"
| "ordered [] (Release n k # as) \<longleftrightarrow> False"
| "ordered (h # hs) (Release n k # as) \<longleftrightarrow> h = (n, k) \<and> ordered hs as"

text \<open>Actions that may stand wherever the locks held have a rank below \<open>r\<close>.\<close>

definition scoped :: "nat \<Rightarrow> lock_action list \<Rightarrow> bool" where
  "scoped r as \<longleftrightarrow> (\<forall>hs rest. (\<forall>h \<in> set hs. rank (fst h) < r) \<longrightarrow> ordered hs rest \<longrightarrow> ordered hs (as @ rest))"

lemma scoped_Nil [simp, intro]: "scoped r []"
  by (simp add: scoped_def)

lemma scoped_append [intro]: "scoped r as \<Longrightarrow> scoped r bs \<Longrightarrow> scoped r (as @ bs)"
  by (simp add: scoped_def)

lemma scoped_concat [intro]: "(\<And>as. as \<in> set ass \<Longrightarrow> scoped r as) \<Longrightarrow> scoped r (concat ass)"
  by (induction ass) auto

lemma scoped_mono: "scoped r as \<Longrightarrow> q \<le> r \<Longrightarrow> scoped q as"
  by (fastforce simp: scoped_def)

lemma scoped_under:
  assumes "r \<le> rank n" and "scoped (Suc (rank n)) block"
  shows "scoped r (under n k block)"
  unfolding scoped_def
proof (intro allI impI)
  fix hs rest assume hs: "\<forall>h \<in> set hs. rank (fst h) < r" and rest: "ordered hs rest"
  have "\<forall>h \<in> set ((n, k) # hs). rank (fst h) < Suc (rank n)" using hs assms(1) by fastforce
  moreover have "ordered ((n, k) # hs) (Release n k # rest)" using rest by simp
  ultimately have "ordered ((n, k) # hs) (block @ Release n k # rest)" using assms(2) by (simp add: scoped_def)
  with hs assms(1) show "ordered hs (under n k block @ rest)" by (fastforce simp: under_def)
qed

lemma scoped_appender: "scoped 7 (appender_log_locks e)"
  by (cases e rule: appender_log_locks.cases) (auto intro!: scoped_under)

lemma scoped_handed: "rank (LoggerLock lg) = r \<Longrightarrow> r \<le> 6 \<Longrightarrow> scoped r (handed_locks lg out)"
  by (cases out) (auto simp: handed_locks_def intro!: scoped_under scoped_concat scoped_mono [OF scoped_appender])

lemma scoped_log: "scoped 5 (log_locks lg path)"
proof (cases "(lg, path)" rule: log_locks.cases)
  case (1 lg out)
  then show ?thesis by (cases lg) (auto intro: scoped_mono [OF scoped_handed])
next
  case (3 a out)
  then show ?thesis by (auto intro!: scoped_under scoped_handed)
qed (auto intro!: scoped_under)

lemma scoped_each_appender: "scoped 5 (each_appender lg ps)"
  by (cases lg) (auto simp: each_appender_def intro!: scoped_under scoped_concat)

lemma scoped_log_call: "scoped 4 (log_call_locks c)"
proof (cases c)
  case (AddsAppender lg p had)
  then show ?thesis by (cases lg) (auto intro!: scoped_under)
next
  case (LoggerAccess lg)
  then show ?thesis by (cases lg) (auto intro!: scoped_under)
qed (auto intro!: scoped_under scoped_concat scoped_mono [OF scoped_log] scoped_mono [OF scoped_each_appender]
    scoped_each_appender)

lemma scoped_report: "scoped 5 (report_locks r)"
  by (auto simp: report_locks_def scoped_log split: option.splits)

lemma scoped_setValue: "scoped 3 (setValue_locks v out)"
  by (cases out) (auto simp: listener_locks_def intro!: scoped_under scoped_concat scoped_log_call)

lemma scoped_toString: "scoped 3 (toString_locks v failure)"
  by (auto simp: toString_locks_def intro!: scoped_under scoped_mono [OF scoped_report])

lemma scoped_fromString: "scoped 3 (fromString_locks v out failure)"
  by (auto simp: fromString_locks_def intro!: scoped_setValue scoped_mono [OF scoped_report] split: option.splits)

lemma scoped_lookup: "scoped 2 (lookup_locks out)"
  by (cases out rule: lookup_locks.cases) (auto intro!: scoped_under scoped_toString scoped_mono [OF scoped_log])

lemma scoped_call: "scoped 1 (call_locks c)"
proof (cases c)
  case (LogCall c')
  then show ?thesis by (auto intro: scoped_mono [OF scoped_log_call])
qed (auto intro!: scoped_under scoped_concat scoped_mono [OF scoped_log] scoped_mono [OF scoped_setValue]
    scoped_mono [OF scoped_toString] scoped_mono [OF scoped_fromString] scoped_mono [OF scoped_lookup]
    split: option.splits)

lemma calls_ordered: "ordered [] (concat (map call_locks cs))"
proof -
  have "scoped 1 (concat (map call_locks cs))" by (intro scoped_concat) (auto simp: scoped_call simp del: One_nat_def)
  then show ?thesis unfolding scoped_def by (metis append_Nil2 empty_iff empty_set ordered.simps(1))
qed

section \<open>The locks in use\<close>

record framework_locks =
  fl_rw :: "lock_name \<Rightarrow> rwmutex"
  fl_mutex :: "lock_name \<Rightarrow> mutex"

definition locks_free :: framework_locks where
  "locks_free = \<lparr>fl_rw = (\<lambda>_. RWMutex), fl_mutex = (\<lambda>_. None)\<rparr>"

fun is_rw :: "lock_name \<Rightarrow> bool" where
  "is_rw RegistryLock \<longleftrightarrow> True"
| "is_rw (VariableLock v) \<longleftrightarrow> True"
| "is_rw _ \<longleftrightarrow> False"

text \<open>Schedulers have a \<open>Mutex\<close>, manager, loggers and appenders a \<open>Spinlock\<close>.\<close>

fun plain_guards :: "lock_name \<Rightarrow> mutex guard_class" where
  "plain_guards (SchedulerLock s) = mutex_guards"
| "plain_guards _ = spinlock_guards"

definition acquire :: "tid \<Rightarrow> lock_name \<Rightarrow> mode \<Rightarrow> framework_locks \<Rightarrow> framework_locks call" where
  "acquire t n k fl =
     (if is_rw n
      then bind_call (gc_new rw_guards k t (fl_rw fl n)) (\<lambda>(m, b). Returns (fl\<lparr>fl_rw := (fl_rw fl)(n := m)\<rparr>))
      else bind_call (gc_new (plain_guards n) k t (fl_mutex fl n)) (\<lambda>(m, b). Returns (fl\<lparr>fl_mutex := (fl_mutex fl)(n := m)\<rparr>)))"

definition release :: "tid \<Rightarrow> lock_name \<Rightarrow> mode \<Rightarrow> framework_locks \<Rightarrow> framework_locks call" where
  "release t n k fl =
     (if is_rw n
      then bind_call (gc_destroy rw_guards k t (fl_rw fl n, True)) (\<lambda>m. Returns (fl\<lparr>fl_rw := (fl_rw fl)(n := m)\<rparr>))
      else bind_call (gc_destroy (plain_guards n) k t (fl_mutex fl n, True)) (\<lambda>m. Returns (fl\<lparr>fl_mutex := (fl_mutex fl)(n := m)\<rparr>)))"

definition lock_holds :: "lock_name \<Rightarrow> framework_locks \<Rightarrow> (tid \<times> mode) multiset \<Rightarrow> bool" where
  "lock_holds n fl H = (if is_rw n then rw_holds (fl_rw fl n) H else mutex_holds (fl_mutex fl n) H)"

lemma plain_contract: "guard_contract (plain_guards n) mutex_holds"
  using mutex.guard_contract_axioms spinlock.guard_contract_axioms by (cases n) simp_all

lemma acquire_holds:
  assumes "lock_holds n fl H" and "(t, Exclusive) \<notin># H" and "acquire t n k fl = Returns fl'"
  shows "lock_holds n fl' (add_mset (t, k) H) \<and> (\<forall>n' H'. n' \<noteq> n \<longrightarrow> lock_holds n' fl' H' = lock_holds n' fl H')"
proof (cases "is_rw n")
  case True
  with assms(3) obtain m b where m: "gc_new rw_guards k t (fl_rw fl n) = Returns (m, b)"
    "fl' = fl\<lparr>fl_rw := (fl_rw fl)(n := m)\<rparr>"
    by (auto simp: acquire_def bind_call_Returns)
  have "rw_holds m (add_mset (t, k) H)"
    using rw.new [OF _ assms(2) m(1)] True assms(1) by (simp add: lock_holds_def)
  with True m(2) show ?thesis by (simp add: lock_holds_def)
next
  case False
  with assms(3) obtain m b where m: "gc_new (plain_guards n) k t (fl_mutex fl n) = Returns (m, b)"
    "fl' = fl\<lparr>fl_mutex := (fl_mutex fl)(n := m)\<rparr>"
    by (auto simp: acquire_def bind_call_Returns)
  have "mutex_holds m (add_mset (t, k) H)"
    using guard_contract.new [OF plain_contract _ assms(2) m(1)] False assms(1) by (simp add: lock_holds_def)
  with False m(2) show ?thesis by (simp add: lock_holds_def)
qed

lemma release_returns:
  assumes "lock_holds n fl H" and "(t, k) \<in># H"
  shows "\<exists>fl'. release t n k fl = Returns fl' \<and> lock_holds n fl' (H - {#(t, k)#}) \<and>
    (\<forall>n' H'. n' \<noteq> n \<longrightarrow> lock_holds n' fl' H' = lock_holds n' fl H')"
proof (cases "is_rw n")
  case True
  with assms(1) have "rw_holds (fl_rw fl n) H" by (simp add: lock_holds_def)
  then obtain m where "gc_destroy rw_guards k t (fl_rw fl n, True) = Returns m" "rw_holds m (H - {#(t, k)#})"
    using rw.destroy_held [OF _ assms(2)] by metis
  with True show ?thesis by (simp add: release_def lock_holds_def)
next
  case False
  with assms(1) have "mutex_holds (fl_mutex fl n) H" by (simp add: lock_holds_def)
  then obtain m where "gc_destroy (plain_guards n) k t (fl_mutex fl n, True) = Returns m" "mutex_holds m (H - {#(t, k)#})"
    using guard_contract.destroy_held [OF plain_contract _ assms(2)] by metis
  with False show ?thesis by (simp add: release_def lock_holds_def)
qed

lemma acquire_free: "lock_holds n fl {#} \<Longrightarrow> \<exists>fl'. acquire t n k fl = Returns fl'"
  by (cases n; cases k) (auto simp: lock_holds_def acquire_def rw_guards_def mutex_guards_def spinlock_guards_def
      guard_defs rw_holds_def mutex_holds_def RWMutex_rdlock_def RWMutex_wrlock_def Mutex_lock_def Spinlock_lock_def
      split: option.splits)

section \<open>Threads that run calls\<close>

text \<open>A thread has the guards it holds, the last one first, and the actions that are left.\<close>

type_synonym lock_thread = "(lock_name \<times> mode) list \<times> lock_action list"

inductive frame_step :: "framework_locks \<times> lock_thread list \<Rightarrow> framework_locks \<times> lock_thread list \<Rightarrow> bool" where
  acquire: "i < length ts \<Longrightarrow> ts ! i = (hs, Acquire n k # as) \<Longrightarrow> acquire (int i) n k fl = Returns fl' \<Longrightarrow>
    frame_step (fl, ts) (fl', ts[i := ((n, k) # hs, as)])"
| release: "i < length ts \<Longrightarrow> ts ! i = (h # hs, Release n k # as) \<Longrightarrow> release (int i) n k fl = Returns fl' \<Longrightarrow>
    frame_step (fl, ts) (fl', ts[i := (hs, as)])"

inductive frame_reach :: "framework_call list list \<Rightarrow> framework_locks \<times> lock_thread list \<Rightarrow> bool" for css where
  start: "frame_reach css (locks_free, map (\<lambda>cs. ([], concat (map call_locks cs))) css)"
| step: "frame_reach css x \<Longrightarrow> frame_step x y \<Longrightarrow> frame_reach css y"

definition part :: "lock_name \<Rightarrow> nat \<Rightarrow> lock_thread \<Rightarrow> (tid \<times> mode) multiset" where
  "part n i th = mset (map (\<lambda>h. (int i, snd h)) (filter (\<lambda>h. fst h = n) (fst th)))"

definition holders :: "lock_name \<Rightarrow> lock_thread list \<Rightarrow> (tid \<times> mode) multiset" where
  "holders n ts = (\<Sum>i < length ts. part n i (ts ! i))"

lemma in_holders: "(t, k) \<in># holders n ts \<longleftrightarrow> (\<exists>i < length ts. t = int i \<and> (n, k) \<in> set (fst (ts ! i)))"
  by (force simp: holders_def set_mset_sum part_def)

lemma holders_update:
  assumes "i < length ts"
  shows "holders n (ts[i := th]) + part n i (ts ! i) = holders n ts + part n i th"
proof -
  let ?J = "{..<length ts} - {i}"
  have split: "(\<Sum>j < length ts. f j) = f i + (\<Sum>j \<in> ?J. f j)" for f :: "nat \<Rightarrow> (tid \<times> mode) multiset"
    using assms by (simp add: sum.remove)
  show ?thesis using assms by (simp add: holders_def split)
qed

definition frame_ok :: "framework_locks \<times> lock_thread list \<Rightarrow> bool" where
  "frame_ok x = (case x of (fl, ts) \<Rightarrow>
     (\<forall>(hs, as) \<in> set ts. ordered hs as) \<and> (\<forall>n. lock_holds n fl (holders n ts)))"

lemma frame_okD:
  assumes "frame_ok (fl, ts)" and "i < length ts" and "ts ! i = (hs, as)"
  shows "ordered hs as" and "lock_holds n fl (holders n ts)"
  using assms nth_mem [OF assms(2)] by (auto simp: frame_ok_def)

lemma frame_ok_update:
  assumes "frame_ok (fl, ts)" and "ordered hs as" and "\<And>n. lock_holds n fl' (holders n (ts[i := (hs, as)]))"
  shows "frame_ok (fl', ts[i := (hs, as)])"
  using assms by (auto simp: frame_ok_def dest!: subsetD [OF set_update_subset_insert])

lemma frame_step_ok:
  assumes "frame_step x y" and "frame_ok x"
  shows "frame_ok y"
  using assms(1)
proof (cases rule: frame_step.cases)
  case (acquire i ts hs n k as fl fl')
  note ok = assms(2) [unfolded acquire(1)]
  have o: "ordered hs (Acquire n k # as)" and h: "lock_holds n' fl (holders n' ts)" for n'
    using frame_okD [OF ok acquire(3,4)] by simp_all
  have new: "(int i, Exclusive) \<notin># holders n ts" using o acquire(4) by (auto simp: in_holders)
  have held: "holders n' (ts[i := ((n, k) # hs, as)]) = (if n' = n then add_mset (int i, k) (holders n ts) else holders n' ts)"
    for n' using holders_update [OF acquire(3), of n' "((n, k) # hs, as)"] acquire(4) by (auto simp: part_def)
  have "lock_holds n' fl' (holders n' (ts[i := ((n, k) # hs, as)]))" for n'
    using acquire_holds [OF h new acquire(5)] h [of n'] by (cases "n' = n") (simp_all add: held)
  from frame_ok_update [OF ok _ this] o show ?thesis by (simp add: acquire(2))
next
  case (release i ts h hs n k as fl fl')
  note ok = assms(2) [unfolded release(1)]
  have o: "ordered (h # hs) (Release n k # as)" and l: "lock_holds n' fl (holders n' ts)" for n'
    using frame_okD [OF ok release(3,4)] by simp_all
  then have h: "h = (n, k)" by simp
  have mem: "(int i, k) \<in># holders n ts" using release(3,4) h by (auto simp: in_holders)
  have "add_mset (int i, k) (holders n (ts[i := (hs, as)])) = holders n ts"
    using holders_update [OF release(3), of n "(hs, as)"] release(4) h by (simp add: part_def)
  then have "holders n (ts[i := (hs, as)]) = holders n ts - {#(int i, k)#}" by (metis add_mset_remove_trivial)
  moreover have "holders n' (ts[i := (hs, as)]) = holders n' ts" if "n' \<noteq> n" for n'
    using holders_update [OF release(3), of n' "(hs, as)"] release(4) h that by (simp add: part_def)
  ultimately have held: "holders n' (ts[i := (hs, as)]) = (if n' = n then holders n ts - {#(int i, k)#} else holders n' ts)"
    for n' by simp
  have "lock_holds n' fl' (holders n' (ts[i := (hs, as)]))" for n'
    using release_returns [OF l mem] release(5) l [of n'] by (cases "n' = n") (simp_all add: held)
  from frame_ok_update [OF ok _ this] o show ?thesis by (simp add: release(2))
qed

lemma frame_reach_ok: "frame_reach css x \<Longrightarrow> frame_ok x"
proof (induction rule: frame_reach.induct)
  case start
  have "holders n (map (\<lambda>cs. ([], concat (map call_locks cs))) css) = {#}" for n
    by (simp add: holders_def part_def)
  moreover have "lock_holds n locks_free {#}" for n
    by (simp add: lock_holds_def locks_free_def rw_holds_def RWMutex_def mutex_holds_def)
  ultimately show ?case by (auto simp: frame_ok_def calls_ordered)
qed (rule frame_step_ok)

section \<open>No deadlock\<close>

lemma ordered_held: "ordered hs (Acquire n k # as) \<Longrightarrow> (n', k') \<in> set hs \<Longrightarrow> rank n' < rank n"
  by fastforce

lemma next_action:
  assumes "ordered hs as" and "as \<noteq> []"
  obtains (acq) n k bs where "as = Acquire n k # bs" | (rel) n k bs hs' where "as = Release n k # bs" "hs = (n, k) # hs'"
  using assms by (cases "(hs, as)" rule: ordered.cases) auto

lemma some_step:
  assumes ok: "frame_ok (fl, ts)" and i: "i < length ts" "snd (ts ! i) \<noteq> []"
  shows "\<exists>y. frame_step (fl, ts) y"
proof (rule ccontr)
  assume stuck: "\<nexists>y. frame_step (fl, ts) y"
  define W where "W = {i. i < length ts \<and> snd (ts ! i) \<noteq> []}"
  have wants: "\<exists>n k bs. snd (ts ! j) = Acquire n k # bs" if j: "j \<in> W" for j
  proof -
    obtain hs as where th: "ts ! j = (hs, as)" by fastforce
    note D = frame_okD [OF ok _ th]
    have "ordered hs as" "as \<noteq> []" using D(1) j th by (simp_all add: W_def)
    then show ?thesis
    proof (cases rule: next_action)
      case (rel n k bs hs')
      have "(int j, k) \<in># holders n ts" using j th rel by (auto simp: in_holders W_def)
      with release_returns [OF D(2) this] j obtain fl' where "release (int j) n k fl = Returns fl'" by (auto simp: W_def)
      with frame_step.release [of j ts "(n, k)" hs' n k bs] j th rel stuck show ?thesis by (auto simp: W_def)
    qed (auto simp: W_def th)
  qed
  define want where "want j = (case snd (ts ! j) of Acquire n k # bs \<Rightarrow> rank n | _ \<Rightarrow> 0)" for j
  have fin: "finite (want ` W)" "want ` W \<noteq> {}" using i by (auto simp: W_def)
  obtain j where j: "j \<in> W" "want j = Max (want ` W)" using Max_in [OF fin] by auto
  obtain hs n k bs where th: "ts ! j = (hs, Acquire n k # bs)" using wants [OF j(1)] by (cases "ts ! j") auto
  have jl: "j < length ts" using j(1) by (simp add: W_def)
  have "\<nexists>fl'. acquire (int j) n k fl = Returns fl'" using frame_step.acquire [OF jl th] stuck by blast
  with acquire_free frame_okD(2) [OF ok jl th, of n] have "holders n ts \<noteq> {#}" by metis
  then obtain l k' where l: "l < length ts" "(n, k') \<in> set (fst (ts ! l))"
    by (metis in_holders multiset_nonemptyE surj_pair)
  obtain hs' as' where th': "ts ! l = (hs', as')" by fastforce
  have o: "ordered hs' as'" by (rule frame_okD(1) [OF ok l(1) th'])
  with l th' have "l \<in> W" by (cases as') (auto simp: W_def)
  with wants th' obtain n2 k2 bs2 where as': "as' = Acquire n2 k2 # bs2" by fastforce
  have "rank n < rank n2" using ordered_held [of hs' n2 k2 bs2 n k'] o l th' as' by simp
  moreover have "want l \<le> want j" using Max_ge [OF fin(1), of "want l"] j(2) \<open>l \<in> W\<close> by simp
  ultimately show False by (simp add: want_def th th' as')
qed

lemma frame_step_less:
  assumes "frame_step x y"
  shows "total_of (\<lambda>th. length (snd th)) (snd y) < total_of (\<lambda>th. length (snd th)) (snd x)"
  using assms
proof (cases rule: frame_step.cases)
  case (acquire i ts hs n k as fl fl')
  with total_of_update [OF acquire(3), of "\<lambda>th. length (snd th)" "((n, k) # hs, as)"] show ?thesis by simp
next
  case (release i ts h hs n k as fl fl')
  with total_of_update [OF release(3), of "\<lambda>th. length (snd th)" "(hs, as)"] show ?thesis by simp
qed

lemma frame_steps_end: "\<nexists>f. \<forall>k. frame_step (f k) (f (Suc k))"
proof
  assume "\<exists>f. \<forall>k. frame_step (f k) (f (Suc k))"
  then obtain f where "\<And>k. frame_step (f k) (f (Suc k))" by blast
  then have "(f (Suc k), f k) \<in> measure (\<lambda>x. total_of (\<lambda>th. length (snd th)) (snd x))" for k
    using frame_step_less by fastforce
  then show False using wf_measure unfolding wf_iff_no_infinite_down_chain by blast
qed

text \<open>
  C10: Threads that run any calls of the framework, logging, changing loggers and appenders, printing
  them, reading and setting variables with the listener of the framework, looking variables up,
  scheduling and starting pools, never block each other for ever: as long as one of them is not
  done some thread can go on, this comes to an end, and then every lock was given back.
\<close>

theorem framework_never_deadlocks:
  assumes "frame_reach css (fl, ts)"
  shows "((\<exists>y. frame_step (fl, ts) y) \<or> (\<forall>th \<in> set ts. th = ([], [])) \<and> (\<forall>n. lock_holds n fl {#})) \<and>
    (\<nexists>f. f 0 = (fl, ts) \<and> (\<forall>k. frame_step (f k) (f (Suc k))))"
proof -
  have ok: "frame_ok (fl, ts)" by (rule frame_reach_ok [OF assms])
  have "(\<forall>th \<in> set ts. th = ([], [])) \<and> (\<forall>n. lock_holds n fl {#})" if stuck: "\<nexists>y. frame_step (fl, ts) y"
  proof -
    have ended: "ts ! i = ([], [])" if "i < length ts" for i
    proof -
      obtain hs as where th: "ts ! i = (hs, as)" by fastforce
      have "as = []" using some_step [OF ok that] stuck th by auto
      with frame_okD(1) [OF ok that th] th show ?thesis by simp
    qed
    then have "holders n ts = {#}" for n by (simp add: holders_def part_def)
    with ok ended show ?thesis by (auto simp: frame_ok_def in_set_conv_nth)
  qed
  with frame_steps_end show ?thesis by blast
qed

text \<open>
  One thread sets the variable 0 and is about to run its listener, another has the registry and is
  about to print the variable 0.
\<close>

definition demo_calls :: "framework_call list list" where
  "demo_calls = [[SetsValue 0 (Stored [Logs None (Own (Handed [(0, ToConsole)])), GetsLogger])],
     [LooksUp (OtherType (Some (0, None)) (Own (Handed [(0, ToConsole)])))]]"

theorem framework_never_deadlocks_witness:
  "\<exists>fl hs0 as0 hs1 as1. frame_reach demo_calls (fl, [(hs0, as0), (hs1, as1)]) \<and>
     hs0 = [(VariableLock 0, Shared)] \<and> hs1 = [(RegistryLock, Exclusive)] \<and>
     (\<exists>y. frame_step (fl, [(hs0, as0), (hs1, as1)]) y)"
proof -
  let ?as0 = "concat (map call_locks (demo_calls ! 0))" and ?as1 = "concat (map call_locks (demo_calls ! 1))"
  let ?fl1 = "locks_free\<lparr>fl_rw := (\<lambda>_. RWMutex)(VariableLock 0 := RWMutex\<lparr>rw_readers := [0]\<rparr>)\<rparr>"
  let ?fl2 = "locks_free\<lparr>fl_rw := (\<lambda>_. RWMutex)(VariableLock 0 := RWMutex\<lparr>rw_readers := [0]\<rparr>, RegistryLock := RWMutex\<lparr>rw_writer := Some 1\<rparr>)\<rparr>"
  have 0: "frame_reach demo_calls (locks_free, [([], ?as0), ([], ?as1)])"
    using frame_reach.start [of demo_calls] by (simp add: demo_calls_def)
  have "?as0 = Acquire (VariableLock 0) Shared # tl ?as0" "?as1 = Acquire RegistryLock Exclusive # tl ?as1"
    by (simp_all add: demo_calls_def under_def)
  then have 1: "frame_reach demo_calls (?fl1, [([(VariableLock 0, Shared)], tl ?as0), ([], ?as1)])"
    using frame_reach.step [OF 0 frame_step.acquire [of 0 _ "[]" "VariableLock 0" Shared "tl ?as0" _ ?fl1]]
    by (simp add: acquire_def rw_guards_def guard_defs RWMutex_rdlock_def locks_free_def RWMutex_def)
  have 2: "frame_reach demo_calls (?fl2, [([(VariableLock 0, Shared)], tl ?as0), ([(RegistryLock, Exclusive)], tl ?as1)])"
    using frame_reach.step [OF 1 frame_step.acquire [of 1 _ "[]" RegistryLock Exclusive "tl ?as1" _ ?fl2]]
      \<open>?as1 = Acquire RegistryLock Exclusive # tl ?as1\<close>
    by (simp add: acquire_def rw_guards_def guard_defs RWMutex_wrlock_def locks_free_def RWMutex_def)
  from framework_never_deadlocks [OF 2] 2 show ?thesis by fastforce
qed

end
