(* ===== verification/Singleton.thy ===== *)
theory Singleton
  imports Locks
begin

text \<open>
  The accessors of singleton.h. Each holds its instance in a static variable of a function, one for
  every choice of the template arguments, and one for every translation unit when the function is
  in the unnamed namespace. The first call initialises the variable; calls that come meanwhile
  wait; when the constructor throws, a later call tries again. Types are names; the object that a
  constructor makes, or the text of its exception, is given with the step that ends it.
\<close>

section \<open>The accessors\<close>

datatype static_key =
    InstanceX string string string int
  | InstancePtr string string string int
  | ClassInstance string string int
  | ClassInstancePtr string string int

datatype static_state = Initialising nat | Initialised nat

text \<open>
  The variables by their keys; objects live in a list, with the key for which they were made, and
  their addresses are indices. For the accessors that return a \<open>shared_ptr\<close> the references are
  counted, the one of the static variable included.
\<close>

record 'o static_object =
  so_key :: static_key
  so_value :: 'o
  so_refs :: nat

record 'o statics =
  ss_state :: "static_key \<Rightarrow> static_state option"
  ss_objects :: "'o static_object list"

definition statics_new :: "'o statics" where
  "statics_new = \<lparr>ss_state = (\<lambda>_. None), ss_objects = []\<rparr>"

text \<open>The returned \<open>shared_ptr\<close> is a copy of the static one, and is destroyed later.\<close>

fun returns_pointer :: "static_key \<Rightarrow> bool" where
  "returns_pointer (InstanceX u T X N) \<longleftrightarrow> False"
| "returns_pointer (InstancePtr u T X N) \<longleftrightarrow> True"
| "returns_pointer (ClassInstance T X N) \<longleftrightarrow> False"
| "returns_pointer (ClassInstancePtr T X N) \<longleftrightarrow> True"

definition set_refs :: "(nat \<Rightarrow> nat) \<Rightarrow> static_key \<Rightarrow> nat \<Rightarrow> 'o statics \<Rightarrow> 'o statics" where
  "set_refs f k a s =
     (if returns_pointer k
      then s\<lparr>ss_objects := (ss_objects s)[a := (ss_objects s ! a)\<lparr>so_refs := f (so_refs (ss_objects s ! a))\<rparr>]\<rparr>
      else s)"

text \<open>
  A call when the thread comes to the declaration of the variable: the variable is there and is
  returned, or the thread has to initialise it (\<open>None\<close>), or it waits for the thread that does
  so. A constructor that comes to its own variable again is undefined.
\<close>

definition GetInstance :: "static_key \<Rightarrow> nat \<Rightarrow> 'o statics \<Rightarrow> ('o statics \<times> nat option) call" where
  "GetInstance k t s = (case ss_state s k of
     None \<Rightarrow> Returns (s\<lparr>ss_state := (ss_state s)(k := Some (Initialising t))\<rparr>, None)
   | Some (Initialising u) \<Rightarrow> if u = t then Undefined else Waits
   | Some (Initialised a) \<Rightarrow> Returns (set_refs Suc k a s, Some a))"

text \<open>The end of the initialisation: an exception leaves the function, or the new object is returned.\<close>

definition GetInstance_end :: "static_key \<Rightarrow> string + 'o \<Rightarrow> 'o statics \<Rightarrow> 'o statics \<times> (string + nat)" where
  "GetInstance_end k r s = (case r of
     Inl what \<Rightarrow> (s\<lparr>ss_state := (ss_state s)(k := None)\<rparr>, Inl what)
   | Inr obj \<Rightarrow>
       (let a = length (ss_objects s)
        in (set_refs Suc k a
              \<lparr>ss_state = (ss_state s)(k := Some (Initialised a)),
               ss_objects = ss_objects s @ [\<lparr>so_key = k, so_value = obj, so_refs = 1\<rparr>]\<rparr>, Inr a)))"

text \<open>The four accessors, in the translation unit \<open>u\<close> where it matters.\<close>

definition GetInstanceX :: "string \<Rightarrow> string \<Rightarrow> string \<Rightarrow> int \<Rightarrow> nat \<Rightarrow> 'o statics \<Rightarrow> ('o statics \<times> nat option) call" where
  "GetInstanceX u T X N = GetInstance (InstanceX u T X N)"

definition GetInstancePtr :: "string \<Rightarrow> string \<Rightarrow> string \<Rightarrow> int \<Rightarrow> nat \<Rightarrow> 'o statics \<Rightarrow> ('o statics \<times> nat option) call" where
  "GetInstancePtr u T X N = GetInstance (InstancePtr u T X N)"

definition Singleton_GetInstance :: "string \<Rightarrow> string \<Rightarrow> int \<Rightarrow> nat \<Rightarrow> 'o statics \<Rightarrow> ('o statics \<times> nat option) call" where
  "Singleton_GetInstance T X N = GetInstance (ClassInstance T X N)"

definition SingletonPtr_GetInstance :: "string \<Rightarrow> string \<Rightarrow> int \<Rightarrow> nat \<Rightarrow> 'o statics \<Rightarrow> ('o statics \<times> nat option) call" where
  "SingletonPtr_GetInstance T X N = GetInstance (ClassInstancePtr T X N)"

section \<open>Threads that call them\<close>

text \<open>
  A thread holds the result of its last call, or constructs an object. \<open>forget\<close> is the end of the
  lifetime of a result, where a returned pointer is destroyed.
\<close>

datatype static_caller = Resting "(static_key \<times> (string + nat)) option" | Making static_key

inductive static_step :: "'o statics \<times> static_caller list \<Rightarrow> 'o statics \<times> static_caller list \<Rightarrow> bool" where
  found: "i < length pcs \<Longrightarrow> pcs ! i = Resting None \<Longrightarrow> GetInstance k i s = Returns (s', Some a) \<Longrightarrow>
    static_step (s, pcs) (s', pcs[i := Resting (Some (k, Inr a))])"
| first: "i < length pcs \<Longrightarrow> pcs ! i = Resting None \<Longrightarrow> GetInstance k i s = Returns (s', None) \<Longrightarrow>
    static_step (s, pcs) (s', pcs[i := Making k])"
| constructed: "i < length pcs \<Longrightarrow> pcs ! i = Making k \<Longrightarrow> GetInstance_end k r s = (s', res) \<Longrightarrow>
    static_step (s, pcs) (s', pcs[i := Resting (Some (k, res))])"
| forget: "i < length pcs \<Longrightarrow> pcs ! i = Resting (Some (k, res)) \<Longrightarrow>
    s' = (case res of Inl what \<Rightarrow> s | Inr a \<Rightarrow> set_refs (\<lambda>n. n - 1) k a s) \<Longrightarrow>
    static_step (s, pcs) (s', pcs[i := Resting None])"

inductive static_reach :: "'o statics \<times> static_caller list \<Rightarrow> bool" where
  start: "static_reach (statics_new, replicate n (Resting None))"
| step: "static_reach x \<Longrightarrow> static_step x y \<Longrightarrow> static_reach y"

section \<open>One object for each key\<close>

definition holds_pointer :: "nat \<Rightarrow> static_caller \<Rightarrow> nat" where
  "holds_pointer a pc = (case pc of Resting (Some (k, Inr b)) \<Rightarrow> if returns_pointer k \<and> b = a then 1 else 0 | _ \<Rightarrow> 0)"

definition turns_ok :: "'o statics \<Rightarrow> static_caller list \<Rightarrow> bool" where
  "turns_ok s pcs \<longleftrightarrow> (\<forall>k t. ss_state s k = Some (Initialising t) \<longleftrightarrow>
     t < length pcs \<and> pcs ! t = Making k)"

definition objects_ok :: "'o statics \<Rightarrow> bool" where
  "objects_ok s \<longleftrightarrow> (\<forall>k a. ss_state s k = Some (Initialised a) \<longleftrightarrow>
     a < length (ss_objects s) \<and> so_key (ss_objects s ! a) = k)"

definition results_ok :: "'o statics \<Rightarrow> static_caller list \<Rightarrow> bool" where
  "results_ok s pcs \<longleftrightarrow> (\<forall>i < length pcs. \<forall>k a. pcs ! i = Resting (Some (k, Inr a)) \<longrightarrow>
     ss_state s k = Some (Initialised a))"

definition refs_ok :: "'o statics \<Rightarrow> static_caller list \<Rightarrow> bool" where
  "refs_ok s pcs \<longleftrightarrow> (\<forall>a < length (ss_objects s).
     so_refs (ss_objects s ! a) = 1 + total_of (holds_pointer a) pcs)"

definition statics_ok :: "'o statics \<times> static_caller list \<Rightarrow> bool" where
  "statics_ok x = (case x of (s, pcs) \<Rightarrow> turns_ok s pcs \<and> objects_ok s \<and> results_ok s pcs \<and> refs_ok s pcs)"

lemma holds_pointer_simps [simp]:
  "holds_pointer a (Making k) = 0" "holds_pointer a (Resting None) = 0"
  "holds_pointer a (Resting (Some (k, Inl what))) = 0"
  "holds_pointer a (Resting (Some (k, Inr b))) = (if returns_pointer k \<and> b = a then 1 else 0)"
  by (simp_all add: holds_pointer_def)

lemma set_refs_simps [simp]:
  "ss_state (set_refs f k a s) = ss_state s" "length (ss_objects (set_refs f k a s)) = length (ss_objects s)"
  "b < length (ss_objects s) \<Longrightarrow> so_key (ss_objects (set_refs f k a s) ! b) = so_key (ss_objects s ! b)"
  "b < length (ss_objects s) \<Longrightarrow> so_refs (ss_objects (set_refs f k a s) ! b) =
     (if returns_pointer k \<and> b = a then f (so_refs (ss_objects s ! a)) else so_refs (ss_objects s ! b))"
  by (simp_all add: set_refs_def nth_update)

text \<open>The kinds of steps as changes of the state and of one thread.\<close>

lemma static_step_cases:
  assumes "static_step (s, pcs) y"
  obtains (found) i k a where "i < length pcs" "pcs ! i = Resting None" "ss_state s k = Some (Initialised a)"
      "y = (set_refs Suc k a s, pcs[i := Resting (Some (k, Inr a))])"
    | (first) i k where "i < length pcs" "pcs ! i = Resting None" "ss_state s k = None"
      "y = (s\<lparr>ss_state := (ss_state s)(k := Some (Initialising i))\<rparr>, pcs[i := Making k])"
    | (failed) i k what where "i < length pcs" "pcs ! i = Making k"
      "y = (s\<lparr>ss_state := (ss_state s)(k := None)\<rparr>, pcs[i := Resting (Some (k, Inl what))])"
    | (constructed) i k obj where "i < length pcs" "pcs ! i = Making k"
      "y = (set_refs Suc k (length (ss_objects s))
              \<lparr>ss_state = (ss_state s)(k := Some (Initialised (length (ss_objects s)))),
               ss_objects = ss_objects s @ [\<lparr>so_key = k, so_value = obj, so_refs = 1\<rparr>]\<rparr>,
            pcs[i := Resting (Some (k, Inr (length (ss_objects s))))])"
    | (forget_error) i k what where "i < length pcs" "pcs ! i = Resting (Some (k, Inl what))" "y = (s, pcs[i := Resting None])"
    | (forget) i k a where "i < length pcs" "pcs ! i = Resting (Some (k, Inr a))"
      "y = (set_refs (\<lambda>n. n - 1) k a s, pcs[i := Resting None])"
  using assms
proof (cases rule: static_step.cases)
  case (found i k s' a)
  with that(1) show ?thesis by (auto simp: GetInstance_def split: option.splits static_state.splits if_splits)
next
  case (first i k s')
  with that(2) show ?thesis by (auto simp: GetInstance_def split: option.splits static_state.splits if_splits)
next
  case (constructed i k r s' res)
  with that(3,4) show ?thesis by (cases r) (auto simp: GetInstance_end_def Let_def)
next
  case (forget i k res s')
  with that(5,6) show ?thesis by (cases res) auto
qed

lemma turn_of:
  assumes "turns_ok s pcs" and "i < length pcs" and "pcs ! i = Making k"
  shows "ss_state s k = Some (Initialising i)"
    and "t < length pcs \<Longrightarrow> pcs ! t = Making k \<longleftrightarrow> t = i"
  using assms unfolding turns_ok_def by (metis option.inject static_state.inject(1))+

lemma turns_ok_iff:
  "turns_ok s pcs \<Longrightarrow> ss_state s k = Some (Initialising t) \<longleftrightarrow> t < length pcs \<and> pcs ! t = Making k"
  by (simp add: turns_ok_def)

text \<open>A thread that leaves the constructor frees the turn for its key.\<close>

lemma turns_free:
  assumes ok: "turns_ok s pcs" and i: "i < length pcs" "pcs ! i = Making k"
    and s': "ss_state s' = (ss_state s)(k := v)" "\<And>t. v \<noteq> Some (Initialising t)"
  shows "turns_ok s' (pcs[i := Resting r])"
proof -
  have "ss_state s' k' = Some (Initialising t) \<longleftrightarrow>
      t < length (pcs[i := Resting r]) \<and> pcs[i := Resting r] ! t = Making k'" for k' t
  proof (cases "t = i")
    case True
    with s' i turns_ok_iff [OF ok, of k' t] show ?thesis by auto
  next
    case False
    with s' turn_of(2) [OF ok i, of t] turns_ok_iff [OF ok, of k' t] show ?thesis by auto
  qed
  then show ?thesis by (simp add: turns_ok_def)
qed

lemma turns_step:
  assumes "static_step (s, pcs) (s', pcs')" and "turns_ok s pcs"
  shows "turns_ok s' pcs'"
  using assms(1)
proof (cases rule: static_step_cases)
  case (first i k)
  have "ss_state s' k' = Some (Initialising t) \<longleftrightarrow> t < length pcs' \<and> pcs' ! t = Making k'" for k' t
  proof (cases "t = i")
    case True
    with turns_ok_iff [OF assms(2), of k' t] first show ?thesis by auto
  next
    case False
    with turns_ok_iff [OF assms(2), of k' t] turns_ok_iff [OF assms(2), of k t] first show ?thesis by auto
  qed
  then show ?thesis by (simp add: turns_ok_def)
next
  case (failed i k what)
  with turns_free [OF assms(2) failed(1,2), of s' None] show ?thesis by simp
next
  case (constructed i k obj)
  with turns_free [OF assms(2) constructed(1,2), of s' "Some (Initialised (length (ss_objects s)))"]
  show ?thesis by simp
qed (use assms(2) in \<open>auto simp: turns_ok_def nth_list_update\<close>)

lemma no_object_yet:
  assumes "objects_ok s" and "ss_state s k = None \<or> ss_state s k = Some (Initialising t)"
  shows "a < length (ss_objects s) \<Longrightarrow> so_key (ss_objects s ! a) \<noteq> k"
  using assms unfolding objects_ok_def by (metis option.distinct(1) option.inject static_state.distinct(1))

lemma objects_step:
  assumes "static_step (s, pcs) (s', pcs')" and "turns_ok s pcs" and "objects_ok s"
  shows "objects_ok s'"
  using assms(1)
proof (cases rule: static_step_cases)
  case (first i k)
  from no_object_yet [OF assms(3) disjI1 [OF first(3)]] first assms(3) show ?thesis by (auto simp: objects_ok_def)
next
  case (failed i k what)
  have "ss_state s k = Some (Initialising i)" by (rule turn_of(1) [OF assms(2) failed(1,2)])
  from no_object_yet [OF assms(3) disjI2 [OF this]] failed assms(3) show ?thesis by (auto simp: objects_ok_def)
next
  case (constructed i k obj)
  have "ss_state s k = Some (Initialising i)" by (rule turn_of(1) [OF assms(2) constructed(1,2)])
  from no_object_yet [OF assms(3) disjI2 [OF this]] constructed assms(3) show ?thesis
    by (auto simp: objects_ok_def nth_append less_Suc_eq)
qed (use assms(3) in \<open>auto simp: objects_ok_def\<close>)

lemma results_step:
  assumes "static_step (s, pcs) (s', pcs')" and "turns_ok s pcs" and "results_ok s pcs"
  shows "results_ok s' pcs'"
  using assms(1)
proof (cases rule: static_step_cases)
  case (failed i k what)
  have "ss_state s k = Some (Initialising i)" by (rule turn_of(1) [OF assms(2) failed(1,2)])
  with failed assms(3) show ?thesis by (auto simp: results_ok_def nth_list_update)
next
  case (constructed i k obj)
  have "ss_state s k = Some (Initialising i)" by (rule turn_of(1) [OF assms(2) constructed(1,2)])
  with constructed assms(3) show ?thesis by (auto simp: results_ok_def nth_list_update)
qed (use assms(3) in \<open>auto simp: results_ok_def nth_list_update\<close>)

lemma no_pointer_yet: "objects_ok s \<Longrightarrow> results_ok s pcs \<Longrightarrow> total_of (holds_pointer (length (ss_objects s))) pcs = 0"
  by (force simp: total_of_def holds_pointer_def results_ok_def objects_ok_def in_set_conv_nth
      split: static_caller.splits option.splits sum.splits)

lemma refs_step:
  assumes "static_step (s, pcs) (s', pcs')" and "objects_ok s" and "results_ok s pcs" and "refs_ok s pcs"
  shows "refs_ok s' pcs'"
  using assms(1)
proof (cases rule: static_step_cases)
  case (found i k a)
  then show ?thesis
    using assms(4) total_of_update [OF found(1), of "holds_pointer _" "Resting (Some (k, Inr a))"]
    by (auto simp: refs_ok_def split: if_splits)
next
  case (first i k)
  then show ?thesis
    using assms(4) total_of_update [OF first(1), of "holds_pointer _" "Making k"] by (auto simp: refs_ok_def)
next
  case (failed i k what)
  then show ?thesis
    using assms(4) total_of_update [OF failed(1), of "holds_pointer _" "Resting (Some (k, Inl what))"]
    by (auto simp: refs_ok_def)
next
  case (constructed i k obj)
  then show ?thesis
    using assms(4) no_pointer_yet [OF assms(2,3)]
      total_of_update [OF constructed(1), of "holds_pointer _" "Resting (Some (k, Inr (length (ss_objects s))))"]
    by (auto simp: refs_ok_def nth_append less_Suc_eq split: if_splits)
next
  case (forget_error i k what)
  then show ?thesis
    using assms(4) total_of_update [OF forget_error(1), of "holds_pointer _" "Resting None"] by (auto simp: refs_ok_def)
next
  case (forget i k a)
  then show ?thesis
    using assms(4) total_of_update [OF forget(1), of "holds_pointer _" "Resting None"]
    by (fastforce simp: refs_ok_def split: if_splits)
qed

lemma static_reach_ok: "static_reach x \<Longrightarrow> statics_ok x"
proof (induction rule: static_reach.induct)
  case (start n)
  have "total_of (holds_pointer a) (replicate n (Resting None)) = 0" for a
    by (induction n) (simp_all add: total_of_def)
  then show ?case
    by (simp add: statics_ok_def turns_ok_def objects_ok_def results_ok_def refs_ok_def statics_new_def)
next
  case (step x y)
  then show ?case
    by (cases x; cases y) (auto simp: statics_ok_def intro: turns_step objects_step results_step refs_step)
qed

text \<open>
  C29: Threads that call the accessors of singleton.h at any time: two calls return the same address
  exactly when they have the same template arguments (and, for the two functions in the unnamed
  namespace, the same translation unit), even when one of them came while the other was still
  constructing; one object was constructed for them, and it is alive, with a reference of the static
  variable beside those of all pointers that were returned. A call waits only while another thread
  constructs the object.
\<close>

theorem one_instance_per_key:
  assumes "static_reach (s, pcs)" and "i < length pcs" and "pcs ! i = Resting (Some (k, Inr a))"
  shows "(\<forall>j < length pcs. \<forall>k' b. pcs ! j = Resting (Some (k', Inr b)) \<longrightarrow> (b = a \<longleftrightarrow> k' = k)) \<and>
    (\<forall>b < length (ss_objects s). so_key (ss_objects s ! b) = k \<longleftrightarrow> b = a) \<and>
    so_refs (ss_objects s ! a) = 1 + total_of (holds_pointer a) pcs \<and>
    (\<forall>k' t. GetInstance k' t s = Waits \<longrightarrow> (\<exists>j < length pcs. j \<noteq> t \<and> pcs ! j = Making k'))"
proof -
  have ok: "turns_ok s pcs" "objects_ok s" "results_ok s pcs" "refs_ok s pcs"
    using static_reach_ok [OF assms(1)] by (simp_all add: statics_ok_def)
  have at: "ss_state s k' = Some (Initialised b)" if "j < length pcs" "pcs ! j = Resting (Some (k', Inr b))" for j k' b
    using ok(3) that by (simp add: results_ok_def)
  have obj: "a < length (ss_objects s)" "so_key (ss_objects s ! a) = k"
    using ok(2) at [OF assms(2,3)] by (auto simp: objects_ok_def)
  have "b = a \<longleftrightarrow> k' = k" if "j < length pcs" "pcs ! j = Resting (Some (k', Inr b))" for j k' b
    using at [OF that] at [OF assms(2,3)] ok(2) unfolding objects_ok_def
    by (metis option.inject static_state.inject(2))
  moreover have "so_key (ss_objects s ! b) = k \<longleftrightarrow> b = a" if "b < length (ss_objects s)" for b
    using ok(2) that obj at [OF assms(2,3)] unfolding objects_ok_def
    by (metis option.inject static_state.inject(2))
  moreover have "\<exists>j < length pcs. j \<noteq> t \<and> pcs ! j = Making k'" if "GetInstance k' t s = Waits" for k' t
  proof -
    from that obtain u where u: "ss_state s k' = Some (Initialising u)" "u \<noteq> t"
      by (auto simp: GetInstance_def split: option.splits static_state.splits if_splits)
    with ok(1) have "u < length pcs \<and> pcs ! u = Making k'" by (simp add: turns_ok_def)
    with u show ?thesis by (intro exI [of _ u]) auto
  qed
  ultimately show ?thesis using ok(4) obj(1) by (auto simp: refs_ok_def)
qed

text \<open>Two threads ask for the logger manager; the second comes while the first constructs it, and waits.\<close>

definition logger_mgr :: static_key where
  "logger_mgr = ClassInstance ''LoggerManager'' ''void'' 0"

theorem one_instance_per_key_witness:
  "\<exists>(s :: nat statics) (s1 :: nat statics). static_reach (s1, [Making logger_mgr, Resting None]) \<and>
     GetInstance logger_mgr 1 s1 = Waits \<and>
     static_reach (s, [Resting (Some (logger_mgr, Inr 0)), Resting (Some (logger_mgr, Inr 0))]) \<and>
     so_refs (ss_objects s ! 0) = 1 \<and> length (filter (\<lambda>ob. so_key ob = logger_mgr) (ss_objects s)) = 1"
proof -
  let ?s1 = "\<lparr>ss_state = (\<lambda>_. None)(logger_mgr := Some (Initialising 0)), ss_objects = []\<rparr> :: nat statics"
  let ?s2 = "\<lparr>ss_state = (\<lambda>_. None)(logger_mgr := Some (Initialised 0)),
      ss_objects = [\<lparr>so_key = logger_mgr, so_value = 7, so_refs = 1\<rparr>]\<rparr> :: nat statics"
  have 0: "static_reach (statics_new :: nat statics, [Resting None, Resting None])"
    using static_reach.start [of 2] by (simp add: numeral_2_eq_2)
  have 1: "static_reach (?s1, [Making logger_mgr, Resting None])"
    using static_reach.step [OF 0 static_step.first [of 0 _ logger_mgr _ ?s1]] by (simp add: GetInstance_def statics_new_def)
  have 2: "static_reach (?s2, [Resting (Some (logger_mgr, Inr 0)), Resting None])"
    using static_reach.step [OF 1 static_step.constructed [of 0 _ logger_mgr "Inr 7" ?s1 ?s2 "Inr 0"]]
    by (simp add: GetInstance_end_def Let_def set_refs_def logger_mgr_def)
  have 3: "static_reach (?s2, [Resting (Some (logger_mgr, Inr 0)), Resting (Some (logger_mgr, Inr 0))])"
    using static_reach.step [OF 2 static_step.found [of 1 _ logger_mgr ?s2 ?s2 0]]
    by (simp add: GetInstance_def set_refs_def logger_mgr_def)
  have "so_refs (ss_objects ?s2 ! 0) = 1"
    using one_instance_per_key [OF 3, of 0 logger_mgr 0] by (simp add: total_of_def holds_pointer_def logger_mgr_def)
  moreover have "GetInstance logger_mgr 1 ?s1 = Waits" by (simp add: GetInstance_def)
  moreover have "length (filter (\<lambda>ob. so_key ob = logger_mgr) (ss_objects ?s2)) = 1" by simp
  ultimately show ?thesis using 1 3 by (intro exI conjI)
qed

end
