(* ===== verification/Util.thy ===== *)
theory Util
  imports Logger_Facts Fiber
begin

text \<open>
  The functions of gwn/util.h and gwn/util.cc and the assertion macros of gwn/macro.h. The call
  stack of the host, as texts from the innermost frame on, is an argument; so is whether
  \<open>backtrace_symbols\<close> found memory. Blocks that are allocated and not freed are counted.
\<close>

section \<open>Call stacks\<close>

record host_stack =
  hs_frames :: "string list"
  hs_symbols :: bool

text \<open>\<open>::backtrace\<close>: at most \<open>sz\<close> frames, none when the sz is not positive.\<close>

definition backtrace :: "host_stack \<Rightarrow> int \<Rightarrow> string list" where
  "backtrace hs sz = take (nat sz) (hs_frames hs)"

text \<open>The loop over the symbols, with its \<open>size_t\<close> index.\<close>

function push_symbols :: "nat \<Rightarrow> string list \<Rightarrow> string list \<Rightarrow> string list" where
  "push_symbols i strings bt =
     (if i < length strings then push_symbols (i + 1) strings (bt @ [strings ! i]) else bt)"
  by pat_completeness auto
termination
  by (relation "measure (\<lambda>(i, strings, bt). length strings - i)") auto

declare push_symbols.simps [simp del]

text \<open>The frames, the number of blocks leaked, and the messages. A negative \<open>skip\<close> is a huge index.\<close>

definition Backtrace ::
  "host_stack \<Rightarrow> string list \<Rightarrow> int \<Rightarrow> int \<Rightarrow> string list \<times> nat \<times> (log_level \<times> string) list"
where
  "Backtrace hs bt sz skip =
     (let array = backtrace hs sz
      in if \<not> hs_symbols hs then (bt, 1, [(ERROR, ''backtrace_synbols error'')])
         else (push_symbols (unat (word_of_int skip :: u64)) array bt, 0, []))"

fun prefix_lines :: "string \<Rightarrow> string list \<Rightarrow> string" where
  "prefix_lines prefix [] = []"
| "prefix_lines prefix (l # ls) = prefix @ l @ [newline] @ prefix_lines prefix ls"

definition BacktraceToString :: "host_stack \<Rightarrow> int \<Rightarrow> int \<Rightarrow> string \<Rightarrow> string" where
  "BacktraceToString hs sz skip prefix =
     (case Backtrace hs [] sz skip of (bt, _, _) \<Rightarrow> prefix_lines prefix bt)"

text \<open>The result type of \<open>gwn::GetFiberId\<close> is \<open>uint32_t\<close>; that of \<open>Fiber::GetFiberId\<close> has 64 bits.\<close>

definition GetFiberId :: "fiber_heap \<Rightarrow> thread_locals \<Rightarrow> u32" where
  "GetFiberId h t = ucast (Fiber_GetFiberId h t)"

section \<open>Assertions\<close>

text \<open>
  The expansion of the macros: nothing when the condition holds; otherwise an event through the
  root logger, then \<open>assert\<close> ends the program.
\<close>

datatype assert_result = Passed log_store | Aborted log_store | LogCrashed log_error

definition assert_text :: "host_stack \<Rightarrow> string \<Rightarrow> string \<Rightarrow> string" where
  "assert_text hs x w = ''ASSERTION: '' @ x @ w @ [newline] @ ''backtrace:'' @ [newline] @
     BacktraceToString hs 100 2 ''    ''"

definition gwn_ASSERT ::
  "(string \<Rightarrow> u64 \<Rightarrow> string) \<Rightarrow> log_context \<Rightarrow> string \<Rightarrow> u32 \<Rightarrow> host_stack \<Rightarrow> string \<Rightarrow> bool \<Rightarrow> log_store \<Rightarrow>
     assert_result"
where
  "gwn_ASSERT strf cx src line hs x b s =
     (if b then Passed s
      else (case gwn_LOG_LEVEL strf cx src line (LoggerManager_getRoot s) ERROR (assert_text hs x []) s of
              Inl e \<Rightarrow> LogCrashed e | Inr s' \<Rightarrow> Aborted s'))"

definition gwn_ASSERT2 ::
  "(string \<Rightarrow> u64 \<Rightarrow> string) \<Rightarrow> log_context \<Rightarrow> string \<Rightarrow> u32 \<Rightarrow> host_stack \<Rightarrow> string \<Rightarrow> string \<Rightarrow> bool \<Rightarrow>
     log_store \<Rightarrow> assert_result"
where
  "gwn_ASSERT2 strf cx src line hs x w b s =
     (if b then Passed s
      else (case gwn_LOG_LEVEL strf cx src line (LoggerManager_getRoot s) ERROR
                   (assert_text hs x ([newline] @ w)) s of
              Inl e \<Rightarrow> LogCrashed e | Inr s' \<Rightarrow> Aborted s'))"

section \<open>What they promise\<close>

lemma push_symbols_drop: "push_symbols i strings bt = bt @ drop i strings"
proof (induction i strings bt rule: push_symbols.induct)
  case (1 i strings bt)
  then show ?case by (subst push_symbols.simps) (simp add: Cons_nth_drop_Suc)
qed

text \<open>
  For a stack within 64-bit bounds and a non-negative number of frames to skip, \<open>Backtrace\<close> appends
  exactly the frames from number \<open>skip\<close> up to number \<open>sz\<close> (none when the sz is not positive) and
  frees its memory; when the symbols cannot be allocated it appends nothing, reports it, and leaks
  the array.
\<close>

theorem backtrace_window:
  assumes "0 \<le> skip" and "skip < 2 ^ 64"
  shows "Backtrace hs bt sz skip =
    (if hs_symbols hs then (bt @ drop (nat skip) (take (nat sz) (hs_frames hs)), 0, [])
     else (bt, 1, [(ERROR, ''backtrace_synbols error'')]))"
proof -
  have "unat (word_of_int skip :: u64) = nat skip"
    using assms by (simp add: unsigned_of_int take_bit_int_eq_self)
  then show ?thesis by (simp add: Backtrace_def backtrace_def push_symbols_drop)
qed

theorem backtrace_window_witness:
  "Backtrace \<lparr>hs_frames = [''f'', ''g'', ''h''], hs_symbols = True\<rparr> [] 64 1 = ([''g'', ''h''], 0, [])"
  by (subst backtrace_window) simp_all

lemma drop_take_prefix: "prefix_lines p ls = concat (map (\<lambda>l. p @ l @ [newline]) ls)"
  by (induction ls) simp_all

text \<open>
  In every reachable state of the loggers, a failing assertion (with or without a message) is
  reported through the root logger without a crash of the logging itself and then ends the
  program; a passing one changes nothing. The store it leaves is well-formed.
\<close>

theorem assertion_reported:
  assumes "log_reach strf s"
  shows "gwn_ASSERT strf cx src line hs x True s = Passed s \<and> gwn_ASSERT2 strf cx src line hs x w True s = Passed s \<and>
    (\<exists>s'. gwn_ASSERT strf cx src line hs x False s = Aborted s' \<and> store_ok s') \<and>
    (\<exists>s'. gwn_ASSERT2 strf cx src line hs x w False s = Aborted s' \<and> store_ok s')"
proof -
  have ok: "store_ok s" using log_reach_ok [OF assms] .
  have root: "st_mgr_root s < length (st_loggers s)" using store_ok_mgr [OF ok] by (simp add: mgr_ok_def)
  have "\<exists>s'. gwn_LOG_LEVEL strf cx src line (LoggerManager_getRoot s) ERROR msg s = Inr s' \<and> store_ok s'" for msg
    using gwn_LOG_LEVEL_cases [OF root] Logger_log_ok [OF ok root] ok
    by (metis LoggerManager_getRoot_def)
  from this [of "assert_text hs x []"] this [of "assert_text hs x ([newline] @ w)"]
  show ?thesis by (auto simp: gwn_ASSERT_def gwn_ASSERT2_def)
qed

theorem assertion_reported_witness:
  "\<exists>s s'. LoggerManager_new example_world = Inr s \<and>
     gwn_ASSERT (\<lambda>f t. f) example_context ''fiber.cc'' 40 \<lparr>hs_frames = [], hs_symbols = True\<rparr> ''false'' False s = Aborted s'"
proof -
  obtain s where s: "LoggerManager_new example_world = Inr s" by (simp add: LoggerManager_new_eq)
  from assertion_reported [OF log_reach.start [OF s, of "\<lambda>f t. f"], of example_context "''fiber.cc''" 40
      "\<lparr>hs_frames = [], hs_symbols = True\<rparr>" "''false''"] s
  show ?thesis by blast
qed

end
