(* ===== verification/Spec2Isabelle.thy ===== *)
theory Spec2Isabelle
  imports Logger_Threads Console_Threads File_Threads Log_Output Fiber_Runs Scheduler_Caller Scheduler_Scan
    Scheduler_Start Thread_Facts Config_Threads Registry_Threads Lock_Order Singleton Util
begin

text \<open>
  A verification library for the gwn framework: a logging system configured through YAML,
  configuration variables with listeners, threads and locks over pthread, and a scheduler that
  runs coroutines on several threads.

  The program. A \<open>Logger\<close> gates events by level and hands them to its appenders, or to the root
  logger when it has none; an appender lets a \<open>LogFormatter\<close> print the event and writes the text
  to the console or a file. Loggers are found by name in \<open>LoggerManager\<close>. A \<open>ConfigVar\<close> holds
  a value and listeners; \<open>Config\<close> finds variables by name and sets them from a YAML document,
  through the conversions \<open>LexicalCast\<close>. The variable \<open>logs\<close> ties the two together: its listener
  makes the loggers what the document says. A \<open>Fiber\<close> is a coroutine with a state and a saved
  context; every thread knows its current fiber and its main fiber through thread-local variables.
  A \<open>Scheduler\<close> owns a queue of fibers and functions and the threads that take from it. \<open>Thread\<close>
  and the locks of mutex.h wrap pthread objects.

  Theories and sources (all under src/gwn).
    \<^item> \<open>Gwn_Prelude\<close>: machine integers, string functions of the C library, decimal printing, the
      collections \<open>gwn_str\<close> and \<open>gwn_unfold\<close>. \<open>Std_Map\<close>: \<open>std::map\<close> as a sorted association list
      behind the locale \<open>assoc_container\<close>.
    \<^item> \<open>Log_Level\<close>, \<open>Log_Formatter\<close>: log.h and log.cc, \<open>LogLevel\<close>, \<open>LogEvent\<close>, the items and
      \<open>LogFormatter::init\<close> and \<open>format\<close>. \<open>Log_Pattern\<close>: an abstract syntax of patterns, and that
      the scanner recovers it and the output is what each conversion documents.
    \<^item> \<open>Log_Appender\<close>: log.cc, \<open>StdoutLogAppender\<close> and \<open>FileLogAppender\<close> over a world of files; the
      appender refines an abstract log file that every reopening truncates.
    \<^item> \<open>Logger\<close>: log.cc, \<open>Logger\<close>, \<open>LoggerManager\<close> and the macros of log.h over a store of shared
      objects. \<open>Logger_Facts\<close>: the invariant \<open>store_ok\<close> over all operations that pass no null
      formatter (\<open>log_reach\<close>), \<open>links_ok\<close> over all of them (\<open>call_reach\<close>), and when a null formatter is met.
    \<^item> \<open>Config\<close>: config.h and config.cc, \<open>ConfigVar\<close>, \<open>Config::LookUp\<close>, \<open>ListAllMember\<close>,
      \<open>LoadFromYaml\<close>. \<open>Config_Facts\<close>, \<open>Config_Registry\<close>: exceptions and listeners, the invariant of
      the registry, which nodes of a document reach which variable.
    \<^item> \<open>Guarded\<close>: objects whose operations run under scoped guards, as the locale \<open>guarded_object\<close>
      over \<open>guard_contract\<close>: sections exclude each other, the object stands still under a reader,
      calls never block each other for ever and come to an end. \<open>Config_Threads\<close>: config.h, the
      operations of a variable as sections on its read-write lock, and \<open>s_fun_id\<close> shared by several
      variables. \<open>Registry_Threads\<close>: config.h and config.cc, \<open>LookUp\<close> and \<open>LookupBase\<close> as
      sections on \<open>GetMutex\<close>.
    \<^item> \<open>Guarded_Serial\<close>: guarded objects whose calls have one exclusive section each, as the locale
      \<open>serial_object\<close>: whatever the schedule, the object and the answers are those of the calls made
      one after the other. \<open>Logger_Threads\<close>: log.cc, the operations of a logger and
      \<open>LoggerManager::getLogger\<close> as sections on their spin locks, with a step per appender;
      \<open>Console_Threads\<close>: log.cc, a console appender with a step per item of the format. Both compute
      what the sequential models do. \<open>File_Threads\<close>: log.cc, \<open>FileLogAppender::log\<close>, which is not of
      this kind as it tests \<open>m_lastTime\<close> without the lock.
    \<^item> \<open>Lexical_Cast\<close>: config.h, \<open>LexicalCast\<close> for vector, list, set, unordered_set, map and
      unordered_map, and the interface of yaml-cpp. \<open>Lexical_Cast_Facts\<close>: round trips, by the
      locales \<open>element_cast\<close>, \<open>rebuilt_container\<close>, \<open>sequence_cast\<close> and \<open>pair_cast\<close>.
    \<^item> \<open>Log_Conf\<close>: log.cc, \<open>LogAppenderDefine\<close>, \<open>LogDefine\<close>, their conversions, the listener and
      \<open>toYamlString\<close>. \<open>Log_Conf_Facts\<close>, \<open>Log_Conf_Listener\<close>: what the conversions keep, and that the
      listener puts each definition in force. \<open>Log_Init\<close>: the static variables of log.cc and any
      sequence of configurations, from the text to the loggers, with what the texts mean
      (\<open>logs_history\<close>: the value and the definitions in force). \<open>Log_Output\<close>: from the YAML
      documents that are loaded to what a message prints on the console.
    \<^item> \<open>Fiber\<close>: fiber.h and fiber.cc, every operation, with assertions and errors as values.
      \<open>Fiber_Facts\<close>: the switches of several threads as a step relation and its invariant;
      \<open>Fiber_Runs\<close>: what holds in every reachable state, and what still holds when a scheduler stores
      \<open>HOLD\<close> in fibers at any time (\<open>work_step\<close>).
    \<^item> \<open>Scheduler\<close>, \<open>Scheduler_Run\<close>: scheduler.h and scheduler.cc, the queue, \<open>start\<close>, \<open>stop\<close>,
      \<open>run\<close> and \<open>idle\<close>. \<open>Scheduler_Facts\<close>: the queue behind the locale \<open>eligible_queue\<close>;
      \<open>Scheduler_Runs\<close>: the thread counters and executable schedules; \<open>Scheduler_Rounds\<close>: whole
      rounds of a worker; \<open>Scheduler_Pool\<close>: the abstract pool of tasks that the threads implement
      (locale \<open>refinement_map\<close>) with the events that their operations are, its ledger, and what is
      left when \<open>stopping\<close> holds; \<open>Scheduler_Scan\<close>: the scan of the queue with the fibers as they are at each of its tests.
      \<open>Scheduler_Start\<close>: the loops of \<open>start\<close> and \<open>stop\<close> over the threads of \<open>Threads\<close>, with the
      steps of all other threads in between. \<open>Scheduler_Drain\<close>: \<open>run\<close> from its call to its return,
      with the destruction of its local fibers, for a worker and a queue of functions;
      \<open>Scheduler_Caller\<close>: the same on the root fiber inside \<open>stop\<close>.
    \<^item> \<open>Locks\<close>: mutex.h and mutex.cc, semaphore, mutexes and the three guard templates, over the
      states POSIX gives their objects. \<open>Lock_Facts\<close>: the locales \<open>guard_contract\<close> and
      \<open>exclusive_contract\<close> with the system of threads and guards, interpreted for each lock.
    \<^item> \<open>Framework_Locks\<close>: the locks that every operation of loggers, variables, registry and schedulers
      takes, in the order of the code. \<open>Lock_Order\<close>: all of them keep to one order, so threads that
      run any of them never block each other for ever.
    \<^item> \<open>Threads\<close>: thread.h and thread.cc, the object, the kernel thread and the start handshake.
      \<open>Thread_Facts\<close>: the invariant \<open>threads_ok\<close> over all interleavings.
    \<^item> \<open>Singleton\<close>: singleton.h, the accessors over static variables of functions, and that threads
      that call them share one object.
    \<^item> \<open>Util\<close>: util.h, util.cc and the assertions of macro.h.

  State. Objects behind a \<open>shared_ptr\<close> or a raw pointer live in lists, addresses are indices, and
  thread-local variables are a record per thread. Exceptions, failed assertions and uses of a
  null pointer are values, so a theorem that an operation succeeds says that none of them
  happens. Concurrent components are step relations with their reachable states; one step is what
  a thread does between two points at which the code lets another thread act on the same data:
  a context switch, the release of a lock, or a call that waits. The short time between the change
  of a fiber's state and the saving of its context is not divided, with one exception: a fiber
  that yields to HOLD may be scheduled before its context is saved, which \<open>Scheduler_Runs\<close> shows.

  The scan of the queue of a scheduler is one step of the threads as well, so it reads the states of
  all queued fibers at one moment, although a fiber may be suspended while the scan is at another
  entry. \<open>Scheduler_Scan\<close> shows that a scan spread over time is still a step of the pool of tasks.

  Parameters. What the sources call and do not contain is an argument: yaml-cpp (\<open>yaml_lib\<close>, with
  its documented behaviour as \<open>yaml_lib_ok\<close>), \<open>strftime\<close> of the local time, identifiers of kernel
  threads, frames of the call stack, the order in which unordered containers are visited, and
  \<open>boost::lexical_cast\<close> and other conversions of elements. Each hypothesis on one of them has a
  witness with a concrete function.

  Termination. Every loop of the sources that runs over data is a total function, with a measure
  where it is not structural; no fuel is used. The loops of \<open>run\<close> and \<open>idle\<close>, which end only when
  the scheduler stops, are steps: what one turn does is a function, and finite runs are
  reachability. \<open>Scheduler_Drain\<close> shows that with \<open>stop\<close> called and functions in the queue the loop
  ends, on a list of steps that it gives. Calls under guards end by a measure on the work left.

  Not modelled: the non-copyable base and gwn.h, which compute nothing; the examples under tests
  and the build; failures of \<open>getcontext\<close> and \<open>swapcontext\<close>; the bytes of the stacks of fibers; the
  destruction of locks that are in use; \<open>setLevel\<close>, which takes no lock, while other threads log;
  two threads that join or destroy one \<open>Thread\<close> at once; listeners and constructors of instances that call back into the variable or the accessor that
  called them, except where \<open>Lock_Facts\<close> shows that they wait for ever.
\<close>

end
